(* ===== verification/Rusty_Base.thy ===== *)
theory Rusty_Base
  imports Main "HOL-Library.List_Lexorder" "HOL-Library.Char_ord" "HOL-Library.Multiset"
begin

text \<open>
  The prelude of the development.  It holds what the Rust standard library gives every
  component: \<open>Result\<close> as a sum type with the \<open>?\<close> operator as \<open>rbind\<close>, \<open>BTreeMap\<close> as
  an association list with strictly increasing keys, the stable \<open>sort_by\<close> and decimal
  printing of unsigned integers.  Strings are byte lists; \<open>String\<close>'s ordering is the
  lexicographic ordering of the bytes.

  The interface \<open>ordered_map\<close> states what a client of an ordered map may rely on.  Its
  lemmas (commutation of inserts at different keys, independence of a bulk insert from the
  order of its entries, ...) are proved once and reach the state, the JSON objects and the
  journal through the interpretation on the association lists.
\<close>

section \<open>Results\<close>

abbreviation Ok :: "'a \<Rightarrow> 'e + 'a" where "Ok \<equiv> Inr"
abbreviation Err :: "'e \<Rightarrow> 'e + 'a" where "Err \<equiv> Inl"

fun is_ok :: "'e + 'a \<Rightarrow> bool" where
  "is_ok (Inr _) = True"
| "is_ok (Inl _) = False"

fun rbind :: "'e + 'a \<Rightarrow> ('a \<Rightarrow> 'e + 'b) \<Rightarrow> 'e + 'b" where
  "rbind (Inr a) f = f a"
| "rbind (Inl e) f = Inl e"

lemma rbind_Inr_iff [simp]: "rbind r f = Inr b \<longleftrightarrow> (\<exists>a. r = Inr a \<and> f a = Inr b)"
  by (cases r) auto

lemma rbind_Inl_iff [simp]: "rbind r f = Inl e \<longleftrightarrow> r = Inl e \<or> (\<exists>a. r = Inr a \<and> f a = Inl e)"
  by (cases r) auto

lemma rbind_assoc: "rbind (rbind r f) g = rbind r (\<lambda>a. rbind (f a) g)"
  by (cases r) auto

lemma is_ok_iff: "is_ok r \<longleftrightarrow> (\<exists>a. r = Inr a)"
  by (cases r) auto

section \<open>Ordered maps\<close>

named_theorems bt_simps \<open>lookup laws of the ordered association lists\<close>

fun bt_insert :: "'k::linorder \<Rightarrow> 'v \<Rightarrow> ('k \<times> 'v) list \<Rightarrow> ('k \<times> 'v) list" where
  "bt_insert k v [] = [(k, v)]"
| "bt_insert k v ((k', v') # m) =
     (if k < k' then (k, v) # (k', v') # m
      else if k = k' then (k, v) # m
      else (k', v') # bt_insert k v m)"

fun bt_remove :: "'k::linorder \<Rightarrow> ('k \<times> 'v) list \<Rightarrow> ('k \<times> 'v) list" where
  "bt_remove k [] = []"
| "bt_remove k ((k', v') # m) = (if k = k' then m else (k', v') # bt_remove k m)"

definition bt_inv :: "('k::linorder \<times> 'v) list \<Rightarrow> bool" where
  "bt_inv m \<longleftrightarrow> sorted_wrt (<) (map fst m)"

definition bt_insert_all :: "('k::linorder \<times> 'v) list \<Rightarrow> ('k \<times> 'v) list \<Rightarrow> ('k \<times> 'v) list" where
  "bt_insert_all kvs m = fold (\<lambda>(k, v). bt_insert k v) kvs m"

definition bt_of_list :: "('k::linorder \<times> 'v) list \<Rightarrow> ('k \<times> 'v) list" where
  "bt_of_list kvs = bt_insert_all kvs []"

lemma bt_inv_Nil [simp]: "bt_inv []"
  by (simp add: bt_inv_def)

lemma bt_inv_Cons: "bt_inv ((k, v) # m) \<longleftrightarrow> (\<forall>k' \<in> fst ` set m. k < k') \<and> bt_inv m"
  by (auto simp: bt_inv_def)

lemma bt_inv_distinct: "bt_inv m \<Longrightarrow> distinct (map fst m)"
  unfolding bt_inv_def using strict_sorted_iff by blast

lemma keys_bt_insert: "fst ` set (bt_insert k v m) = insert k (fst ` set m)"
  by (induction k v m rule: bt_insert.induct) auto

lemma keys_bt_remove_subset: "fst ` set (bt_remove k m) \<subseteq> fst ` set m"
  by (induction k m rule: bt_remove.induct) auto

lemma bt_inv_insert [simp]: "bt_inv m \<Longrightarrow> bt_inv (bt_insert k v m)"
proof (induction k v m rule: bt_insert.induct)
  case (1 k v)
  then show ?case by (simp add: bt_inv_Cons)
next
  case (2 k v k' v' m)
  then show ?case
    by (auto simp: bt_inv_Cons keys_bt_insert dest: less_trans)
qed

lemma bt_inv_remove [simp]: "bt_inv m \<Longrightarrow> bt_inv (bt_remove k m)"
  by (induction k m rule: bt_remove.induct)
     (use keys_bt_remove_subset in \<open>fastforce simp: bt_inv_Cons\<close>)+

lemma map_of_not_key: "k \<notin> fst ` set m \<Longrightarrow> map_of m k = None"
  by (simp add: map_of_eq_None_iff)

lemma map_of_bt_insert [bt_simps, simp]: "map_of (bt_insert k v m) = (map_of m)(k \<mapsto> v)"
  by (induction k v m rule: bt_insert.induct) (auto simp: fun_eq_iff)

lemma map_of_bt_remove [bt_simps]: "bt_inv m \<Longrightarrow> map_of (bt_remove k m) = (map_of m)(k := None)"
proof (induction k m rule: bt_remove.induct)
  case (2 k k' v' m)
  then show ?case
    by (auto simp: bt_inv_Cons fun_eq_iff intro!: map_of_not_key)
qed simp

lemma bt_Cons_lookup_inj:
  assumes "bt_inv ((k, v) # m)" "bt_inv ((k', v') # m')"
    and eq: "map_of ((k, v) # m) = map_of ((k', v') # m')"
  shows "k = k'"
proof (rule ccontr)
  assume ne: "k \<noteq> k'"
  from fun_cong [OF eq, of k] ne have "map_of m' k = Some v" by simp
  then have "k \<in> fst ` set m'" by (force dest: map_of_SomeD)
  moreover from fun_cong [OF eq, of k'] ne have "map_of m k' = Some v'" by simp
  then have "k' \<in> fst ` set m" by (force dest: map_of_SomeD)
  ultimately show False
    using assms(1,2) by (auto simp: bt_inv_Cons dest: less_trans)
qed

lemma bt_ext: "bt_inv m \<Longrightarrow> bt_inv m' \<Longrightarrow> map_of m = map_of m' \<Longrightarrow> m = m'"
proof (induction m arbitrary: m')
  case Nil
  then show ?case by (cases m') (auto simp: fun_eq_iff split: if_splits)
next
  case (Cons kv m)
  obtain k v where kv: "kv = (k, v)" by (cases kv)
  have "m' \<noteq> []"
    using Cons.prems(3) by (auto simp: kv fun_eq_iff dest: spec [of _ k])
  then obtain k' v' n where m': "m' = (k', v') # n" by (cases m') auto
  have k: "k = k'"
    by (rule bt_Cons_lookup_inj [of k v m k' v' n]) (use Cons.prems in \<open>simp_all only: kv m'\<close>)
  have v: "v = v'" using fun_cong [OF Cons.prems(3), of k] by (simp add: kv m' k)
  have "map_of m x = map_of n x" for x
  proof (cases "x = k")
    case True
    have "k \<notin> fst ` set m" "k \<notin> fst ` set n"
      using Cons.prems(1,2) k by (auto simp: kv m' bt_inv_Cons)
    then show ?thesis using True by (simp add: map_of_not_key)
  next
    case False
    then show ?thesis using fun_cong [OF Cons.prems(3), of x] by (simp add: kv m' k)
  qed
  then have "m = n"
    using Cons.IH [of n] Cons.prems(1,2) by (auto simp: kv m' bt_inv_Cons)
  then show ?case by (simp add: kv m' k v)
qed

locale ordered_map =
  fixes empty :: 'm
    and get :: "'m \<Rightarrow> 'k \<Rightarrow> 'v option"
    and ins :: "'k \<Rightarrow> 'v \<Rightarrow> 'm \<Rightarrow> 'm"
    and del :: "'k \<Rightarrow> 'm \<Rightarrow> 'm"
    and inv :: "'m \<Rightarrow> bool"
  assumes get_empty: "get empty = (\<lambda>_. None)"
    and inv_empty: "inv empty"
    and get_ins: "inv m \<Longrightarrow> get (ins k v m) = (get m)(k \<mapsto> v)"
    and get_del: "inv m \<Longrightarrow> get (del k m) = (get m)(k := None)"
    and inv_ins: "inv m \<Longrightarrow> inv (ins k v m)"
    and inv_del: "inv m \<Longrightarrow> inv (del k m)"
    and ext: "inv m \<Longrightarrow> inv m' \<Longrightarrow> get m = get m' \<Longrightarrow> m = m'"
begin

lemma ins_commute:
  "inv m \<Longrightarrow> k \<noteq> k' \<Longrightarrow> ins k v (ins k' v' m) = ins k' v' (ins k v m)"
  by (rule ext) (simp_all add: get_ins inv_ins fun_upd_twist)

lemma ins_ins: "inv m \<Longrightarrow> ins k v (ins k v' m) = ins k v m"
  by (rule ext) (simp_all add: get_ins inv_ins)

lemma ins_del: "inv m \<Longrightarrow> ins k v (del k m) = ins k v m"
  by (rule ext) (simp_all add: get_ins get_del inv_ins inv_del)

lemma ins_same: "inv m \<Longrightarrow> get m k = Some v \<Longrightarrow> ins k v m = m"
  by (rule ext) (auto simp: get_ins inv_ins fun_eq_iff)

lemma inv_fold_ins: "inv m \<Longrightarrow> inv (fold (\<lambda>(k, v). ins k v) kvs m)"
  by (induction kvs arbitrary: m) (auto simp: inv_ins)

lemma get_fold_ins:
  "inv m \<Longrightarrow> get (fold (\<lambda>(k, v). ins k v) kvs m) = get m ++ map_of (rev kvs)"
  by (induction kvs arbitrary: m) (auto simp: inv_ins get_ins map_add_def fun_eq_iff split: option.splits)

lemma get_fold_ins_distinct:
  assumes "inv m" "distinct (map fst kvs)"
  shows "get (fold (\<lambda>(k, v). ins k v) kvs m) = get m ++ map_of kvs"
proof -
  have "map_of (rev kvs) = map_of kvs"
    using assms(2) by (intro map_of_inject_set [THEN iffD2]) (auto simp: rev_map [symmetric])
  then show ?thesis using get_fold_ins [OF assms(1), of kvs] by simp
qed

lemma fold_ins_permute:
  assumes "inv m" "distinct (map fst kvs)" "mset kvs = mset kvs'"
  shows "fold (\<lambda>(k, v). ins k v) kvs m = fold (\<lambda>(k, v). ins k v) kvs' m"
proof -
  have d': "distinct (map fst kvs')"
    using assms(2,3) by (metis mset_eq_imp_distinct_iff mset_map)
  have "map_of kvs = map_of kvs'"
    using assms(2) d' assms(3) by (simp add: map_of_inject_set set_mset_mset [symmetric] del: set_mset_mset)
  then show ?thesis
    using assms(1,2) d' by (intro ext) (simp_all add: inv_fold_ins get_fold_ins_distinct)
qed

end

interpretation bt: ordered_map "[]" map_of bt_insert bt_remove bt_inv
  by unfold_locales (auto simp: map_of_bt_remove intro: bt_ext)

lemma bt_inv_insert_all [simp]: "bt_inv m \<Longrightarrow> bt_inv (bt_insert_all kvs m)"
  unfolding bt_insert_all_def by (rule bt.inv_fold_ins)

lemma bt_inv_of_list [simp]: "bt_inv (bt_of_list kvs)"
  by (simp add: bt_of_list_def)

lemma map_of_bt_insert_all [bt_simps]:
  "bt_inv m \<Longrightarrow> distinct (map fst kvs) \<Longrightarrow> map_of (bt_insert_all kvs m) = map_of m ++ map_of kvs"
  unfolding bt_insert_all_def by (rule bt.get_fold_ins_distinct)

lemma map_of_bt_of_list [bt_simps]:
  "distinct (map fst kvs) \<Longrightarrow> map_of (bt_of_list kvs) = map_of kvs"
  by (simp add: bt_of_list_def map_of_bt_insert_all)

lemma set_bt_insert: "set (bt_insert k v m) \<subseteq> insert (k, v) (set m)"
  by (induction k v m rule: bt_insert.induct) auto

lemma bt_insert_all_content:
  "set (bt_insert_all kvs m) \<subseteq> set kvs \<union> set m \<and>
   fst ` set (bt_insert_all kvs m) = fst ` set kvs \<union> fst ` set m"
proof (induction kvs arbitrary: m)
  case (Cons kv kvs)
  obtain k v where "kv = (k, v)" by (cases kv)
  then have step: "bt_insert_all (kv # kvs) m = bt_insert_all kvs (bt_insert k v m)"
    and kv: "kv = (k, v)" by (simp_all add: bt_insert_all_def)
  show ?case
    using Cons.IH [of "bt_insert k v m"] set_bt_insert [of k v m]
    unfolding step by (auto simp: kv keys_bt_insert)
qed (simp add: bt_insert_all_def)

lemma bt_of_list_content:
  "set (bt_of_list kvs) \<subseteq> set kvs" "fst ` set (bt_of_list kvs) = fst ` set kvs"
  using bt_insert_all_content [of kvs "[]"] by (simp_all add: bt_of_list_def)

lemma bt_of_list_id: "bt_inv m \<Longrightarrow> bt_of_list m = m"
  by (rule bt_ext) (simp_all add: map_of_bt_of_list bt_inv_distinct)

lemma bt_inv_map_snd [simp]: "bt_inv (map (\<lambda>(k, v). (k, f k v)) m) \<longleftrightarrow> bt_inv m"
  by (simp add: bt_inv_def comp_def case_prod_unfold)

lemma bt_inv_filter: "bt_inv m \<Longrightarrow> bt_inv (filter p m)"
  by (induction m) (auto simp: bt_inv_Cons)


section \<open>Decimal printing\<close>

definition digit :: "nat \<Rightarrow> char" where
  "digit d = char_of (48 + d)"

fun show_nat :: "nat \<Rightarrow> string" where
  "show_nat n = (if n < 10 then [digit n] else show_nat (n div 10) @ [digit (n mod 10)])"

declare show_nat.simps [simp del]

definition read_nat :: "string \<Rightarrow> nat" where
  "read_nat s = foldl (\<lambda>a c. 10 * a + (of_char c - 48)) 0 s"

lemma of_char_digit: "d < 10 \<Longrightarrow> of_char (digit d) - 48 = d"
  by (simp add: digit_def)

lemma read_show_nat: "read_nat (show_nat n) = n"
proof (induction n rule: show_nat.induct)
  case (1 n)
  then show ?case
    by (cases "n < 10")
       (simp_all add: show_nat.simps [of n] read_nat_def of_char_digit)
qed

lemma show_nat_inj [simp]: "show_nat m = show_nat n \<longleftrightarrow> m = n"
  by (metis read_show_nat)

end
