(* ===== verification/Rust_Text.thy ===== *)
theory Rust_Text
  imports Rusty_Base
begin

text \<open>
  The string functions of the Rust standard library that the policy components use: \<open>split\<close>,
  \<open>split_once\<close>, \<open>trim\<close>, \<open>split_whitespace\<close>, \<open>to_ascii_uppercase\<close>, \<open>starts_with\<close>,
  \<open>contains\<close> and the parsing of unsigned integers, on strings as UTF-8 byte lists.  The
  laws that carry the parsers' round trips (joining and splitting are inverse, decimal
  printing and parsing are inverse) are proved here once.
\<close>

section \<open>Splitting and joining\<close>

fun split_on :: "char \<Rightarrow> string \<Rightarrow> string list" where
  "split_on c [] = [[]]"
| "split_on c (x # xs) =
     (if x = c then [] # split_on c xs else (x # hd (split_on c xs)) # tl (split_on c xs))"

fun join_with :: "string \<Rightarrow> string list \<Rightarrow> string" where
  "join_with sep [] = []"
| "join_with sep [w] = w"
| "join_with sep (w # v # ws) = w @ sep @ join_with sep (v # ws)"

fun split_once :: "char \<Rightarrow> string \<Rightarrow> (string \<times> string) option" where
  "split_once c [] = None"
| "split_once c (x # xs) =
     (if x = c then Some ([], xs) else map_option (\<lambda>(a, b). (x # a, b)) (split_once c xs))"

lemma split_on_not_Nil [simp]: "split_on c s \<noteq> []"
  by (induction s) auto

lemma split_on_plain: "c \<notin> set s \<Longrightarrow> split_on c s = [s]"
  by (induction s) auto

lemma split_on_append: "c \<notin> set w \<Longrightarrow> split_on c (w @ c # s) = w # split_on c s"
  by (induction w) auto

lemma join_split: "join_with [c] (split_on c s) = s"
proof (induction s)
  case (Cons x s)
  obtain w ws where "split_on c s = w # ws"
    by (cases "split_on c s") auto
  then show ?case using Cons by (cases ws) auto
qed simp

lemma split_join:
  "ws \<noteq> [] \<Longrightarrow> \<forall>w \<in> set ws. c \<notin> set w \<Longrightarrow> split_on c (join_with [c] ws) = ws"
  by (induction "[c]" ws rule: join_with.induct) (auto simp: split_on_plain split_on_append)

lemma split_on_pieces: "w \<in> set (split_on c s) \<Longrightarrow> c \<notin> set w"
proof (induction s arbitrary: w)
  case (Cons x s)
  then show ?case by (cases "split_on c s") (auto split: if_splits)
qed simp

lemma length_split_on: "length (split_on c s) = Suc (count_list s c)"
  by (induction s) simp_all

lemma split_once_None [simp]: "split_once c s = None \<longleftrightarrow> c \<notin> set s"
  by (induction s) auto

lemma split_once_Some:
  "split_once c s = Some (a, b) \<longleftrightarrow> s = a @ c # b \<and> c \<notin> set a"
proof (induction s arbitrary: a)
  case (Cons x s)
  show ?case
  proof (cases a)
    case Nil
    then show ?thesis by auto
  next
    case (Cons y ys)
    then show ?thesis using Cons.IH [of ys] by auto
  qed
qed simp

lemma split_once_shorter:
  "split_once c s = Some (a, b) \<Longrightarrow> length a < length s \<and> length b < length s"
  by (auto simp: split_once_Some)

section \<open>Prefixes and containment\<close>

fun starts_with :: "string \<Rightarrow> string \<Rightarrow> bool" where
  "starts_with [] s = True"
| "starts_with (p # ps) [] = False"
| "starts_with (p # ps) (x # xs) = (p = x \<and> starts_with ps xs)"

definition ends_with :: "string \<Rightarrow> string \<Rightarrow> bool" where
  "ends_with p s = starts_with (rev p) (rev s)"

fun contains_text :: "string \<Rightarrow> string \<Rightarrow> bool" where
  "contains_text p [] = (p = [])"
| "contains_text p (x # xs) = (starts_with p (x # xs) \<or> contains_text p xs)"

definition strip_prefix :: "string \<Rightarrow> string \<Rightarrow> string option" where
  "strip_prefix p s = (if starts_with p s then Some (drop (length p) s) else None)"

definition strip_suffix :: "string \<Rightarrow> string \<Rightarrow> string option" where
  "strip_suffix p s = (if ends_with p s then Some (take (length s - length p) s) else None)"

lemma starts_with_iff: "starts_with p s \<longleftrightarrow> (\<exists>t. s = p @ t)"
  by (induction p s rule: starts_with.induct) auto

lemma ends_with_iff: "ends_with p s \<longleftrightarrow> (\<exists>t. s = t @ p)"
proof -
  have "ends_with p s \<longleftrightarrow> (\<exists>t. rev s = rev p @ t)"
    by (simp add: ends_with_def starts_with_iff)
  also have "\<dots> \<longleftrightarrow> (\<exists>t. s = t @ p)"
    by (metis rev_append rev_rev_ident)
  finally show ?thesis .
qed

lemma contains_text_iff: "contains_text p s \<longleftrightarrow> (\<exists>a b. s = a @ p @ b)"
proof (induction s)
  case (Cons x s)
  have "(\<exists>a b. x # s = a @ p @ b) \<longleftrightarrow> (\<exists>b. x # s = p @ b) \<or> (\<exists>a b. s = a @ p @ b)"
    by (metis append_Cons append_Nil list.exhaust list.inject)
  then show ?case by (simp add: Cons starts_with_iff)
qed auto

section \<open>ASCII case\<close>

definition ascii_upper :: "char \<Rightarrow> char" where
  "ascii_upper c =
     (if CHR ''a'' \<le> c \<and> c \<le> CHR ''z'' then char_of (of_char c - 32 :: nat) else c)"

definition ascii_lower :: "char \<Rightarrow> char" where
  "ascii_lower c =
     (if CHR ''A'' \<le> c \<and> c \<le> CHR ''Z'' then char_of (of_char c + 32 :: nat) else c)"

definition to_ascii_uppercase :: "string \<Rightarrow> string" where
  "to_ascii_uppercase s = map ascii_upper s"

definition to_ascii_lowercase :: "string \<Rightarrow> string" where
  "to_ascii_lowercase s = map ascii_lower s"

lemma length_to_ascii [simp]:
  "length (to_ascii_uppercase s) = length s" "length (to_ascii_lowercase s) = length s"
  by (simp_all add: to_ascii_uppercase_def to_ascii_lowercase_def)

section \<open>White space\<close>

text \<open>The UTF-8 encodings of the code points with the property \<open>White_Space\<close>.\<close>

definition white_space :: "string list" where
  "white_space =
     [[CHR 0x09], [CHR 0x0A], [CHR 0x0B], [CHR 0x0C], [CHR 0x0D], [CHR 0x20],
      [CHR 0xC2, CHR 0x85], [CHR 0xC2, CHR 0xA0], [CHR 0xE1, CHR 0x9A, CHR 0x80],
      [CHR 0xE2, CHR 0x80, CHR 0x80], [CHR 0xE2, CHR 0x80, CHR 0x81],
      [CHR 0xE2, CHR 0x80, CHR 0x82], [CHR 0xE2, CHR 0x80, CHR 0x83],
      [CHR 0xE2, CHR 0x80, CHR 0x84], [CHR 0xE2, CHR 0x80, CHR 0x85],
      [CHR 0xE2, CHR 0x80, CHR 0x86], [CHR 0xE2, CHR 0x80, CHR 0x87],
      [CHR 0xE2, CHR 0x80, CHR 0x88], [CHR 0xE2, CHR 0x80, CHR 0x89],
      [CHR 0xE2, CHR 0x80, CHR 0x8A], [CHR 0xE2, CHR 0x80, CHR 0xA8],
      [CHR 0xE2, CHR 0x80, CHR 0xA9], [CHR 0xE2, CHR 0x80, CHR 0xAF],
      [CHR 0xE2, CHR 0x81, CHR 0x9F], [CHR 0xE3, CHR 0x80, CHR 0x80]]"

definition ws_width :: "string list \<Rightarrow> string \<Rightarrow> nat" where
  "ws_width ws s = (case List.find (\<lambda>w. starts_with w s) ws of None \<Rightarrow> 0 | Some w \<Rightarrow> length w)"

lemma ws_width_pos: "0 < ws_width ws s \<Longrightarrow> ws_width ws s \<le> length s"
  by (auto simp: ws_width_def find_Some_iff starts_with_iff split: option.splits)

function trim_by :: "string list \<Rightarrow> string \<Rightarrow> string" where
  "trim_by ws s = (if ws_width ws s = 0 then s else trim_by ws (drop (ws_width ws s) s))"
  by auto
termination
proof (relation "measure (length \<circ> snd)")
  fix ws s
  assume "ws_width ws s \<noteq> 0"
  then have "0 < ws_width ws s" "ws_width ws s \<le> length s"
    using ws_width_pos by auto
  then show "((ws, drop (ws_width ws s) s), ws, s) \<in> measure (length \<circ> snd)"
    by simp
qed simp

declare trim_by.simps [simp del]

definition trim_start :: "string \<Rightarrow> string" where
  "trim_start = trim_by white_space"

definition trim_end :: "string \<Rightarrow> string" where
  "trim_end s = rev (trim_by (map rev white_space) (rev s))"

definition trim :: "string \<Rightarrow> string" where
  "trim s = trim_end (trim_start s)"

lemma trim_by_suffix: "\<exists>p. s = p @ trim_by ws s"
proof (induction ws s rule: trim_by.induct)
  case (1 ws s)
  show ?case
  proof (cases "ws_width ws s = 0")
    case False
    obtain p where "drop (ws_width ws s) s = p @ trim_by ws (drop (ws_width ws s) s)"
      using 1 [OF False] by blast
    then have "s = (take (ws_width ws s) s @ p) @ trim_by ws s"
      using False by (metis append_assoc append_take_drop_id trim_by.simps)
    then show ?thesis by blast
  qed (simp add: trim_by.simps)
qed

lemma length_trim_by: "length (trim_by ws s) \<le> length s"
  using trim_by_suffix [of s ws] by (metis length_append le_add2)

lemma length_trim: "length (trim s) \<le> length s"
  unfolding trim_def trim_end_def trim_start_def
  by (metis length_rev length_trim_by le_trans)

lemma trim_by_unchanged: "ws_width ws s = 0 \<Longrightarrow> trim_by ws s = s"
  by (simp add: trim_by.simps)

fun split_ws_from :: "string \<Rightarrow> nat \<Rightarrow> string \<Rightarrow> string list" where
  "split_ws_from acc k [] = (if acc = [] then [] else [rev acc])"
| "split_ws_from acc (Suc k) (x # xs) = split_ws_from acc k xs"
| "split_ws_from acc 0 (x # xs) =
     (if ws_width white_space (x # xs) = 0 then split_ws_from (x # acc) 0 xs
      else (if acc = [] then [] else [rev acc]) @
           split_ws_from [] (ws_width white_space (x # xs) - 1) xs)"

definition split_whitespace :: "string \<Rightarrow> string list" where
  "split_whitespace s = split_ws_from [] 0 s"

section \<open>Unsigned integers\<close>

definition is_digit :: "char \<Rightarrow> bool" where
  "is_digit c \<longleftrightarrow> CHR ''0'' \<le> c \<and> c \<le> CHR ''9''"

definition parse_uint :: "nat \<Rightarrow> string \<Rightarrow> nat option" where
  "parse_uint bound s =
     (let ds = (case s of [] \<Rightarrow> [] | c # cs \<Rightarrow> if c = CHR ''+'' then cs else s) in
      if ds \<noteq> [] \<and> list_all is_digit ds \<and> read_nat ds < bound then Some (read_nat ds) else None)"

abbreviation parse_u64 :: "string \<Rightarrow> nat option" where
  "parse_u64 \<equiv> parse_uint (2 ^ 64)"

lemma digit_is_digit: "d < 10 \<Longrightarrow> is_digit (digit d)"
  by (simp add: is_digit_def digit_def less_eq_char_def)

lemma show_nat_digits: "list_all is_digit (show_nat n)"
proof (induction n rule: show_nat.induct)
  case (1 n)
  then show ?case by (cases "n < 10") (simp_all add: show_nat.simps [of n] digit_is_digit)
qed

lemma show_nat_not_Nil [simp]: "show_nat n \<noteq> []"
  by (subst show_nat.simps) simp

lemma show_nat_lacks: "\<not> is_digit c \<Longrightarrow> c \<notin> set (show_nat n)"
  using show_nat_digits [of n] by (auto simp: list_all_iff)

lemma parse_show_uint [simp]: "n < bound \<Longrightarrow> parse_uint bound (show_nat n) = Some n"
proof -
  assume "n < bound"
  have "CHR ''+'' \<notin> set (show_nat n)"
    by (rule show_nat_lacks) (simp add: is_digit_def less_eq_char_def)
  then have "(case show_nat n of [] \<Rightarrow> [] | c # cs \<Rightarrow> if c = CHR ''+'' then cs else show_nat n) = show_nat n"
    by (cases "show_nat n") auto
  then show ?thesis
    using \<open>n < bound\<close> by (simp add: parse_uint_def show_nat_digits read_show_nat)
qed

lemma parse_uint_bound: "parse_uint bound s = Some n \<Longrightarrow> n < bound"
  by (auto simp: parse_uint_def Let_def split: if_splits)

end
