(* ===== verification/Access_Scopes.thy ===== *)
theory Access_Scopes
  imports Rust_Text
begin

text \<open>
  The RBAC scope grammar (rusty-core scope.rs) and the middleware that enforces it
  (rusty-server auth.rs, \<open>require_scope\<close>): parsing and printing of scopes, matching of a
  granted scope against a required one, the table that maps routes to required scopes with
  its path patterns, and the admission decision for a request.

  The abstract reading of a scope is the set of concrete permissions it covers.  Matching is
  shown to be overlap of these sets, parsing to be the exact inverse of printing, and the
  four-pass route lookup to be a literal-first scan of the census.
\<close>

section \<open>Scopes\<close>

definition MAX_SCOPE_LEN :: nat where "MAX_SCOPE_LEN = 256"
definition MAX_SEGMENTS :: nat where "MAX_SEGMENTS = 3"

record scope =
  sc_resource :: string
  sc_instance :: "string option"
  sc_action :: string

datatype scope_parse_error = ScopeEmpty | ScopeTooLong | TooFewSegments | TooManySegments | EmptySegment

definition scope_parse :: "string \<Rightarrow> scope_parse_error + scope" where
  "scope_parse s =
     (if MAX_SCOPE_LEN < length s then Err ScopeTooLong
      else if s = [] then Err ScopeEmpty
      else
        let segments = split_on CHR '':'' s in
        if length segments < 2 then Err TooFewSegments
        else if MAX_SEGMENTS < length segments then Err TooManySegments
        else if list_ex (\<lambda>seg. seg = []) segments then Err EmptySegment
        else Ok \<lparr> sc_resource = segments ! 0,
                  sc_instance = (if length segments = 3 then Some (segments ! 1) else None),
                  sc_action = segments ! (length segments - 1) \<rparr>)"

definition is_collection :: "scope \<Rightarrow> bool" where
  "is_collection s \<longleftrightarrow> sc_instance s = None"

definition is_instance :: "scope \<Rightarrow> bool" where
  "is_instance s \<longleftrightarrow> sc_instance s \<noteq> None"

definition scope_display :: "scope \<Rightarrow> string" where
  "scope_display s =
     (case sc_instance s of
        Some inst \<Rightarrow> sc_resource s @ '':'' @ inst @ '':'' @ sc_action s
      | None \<Rightarrow> sc_resource s @ '':'' @ sc_action s)"

definition scope_matches :: "scope \<Rightarrow> scope \<Rightarrow> bool" where
  "scope_matches granted required =
     (if (sc_instance granted = None) \<noteq> (sc_instance required = None) then False
      else if sc_resource granted \<noteq> ''*'' \<and> sc_resource required \<noteq> ''*'' \<and>
              sc_resource granted \<noteq> sc_resource required then False
      else if (case (sc_instance granted, sc_instance required) of
                 (Some g, Some r) \<Rightarrow> g \<noteq> ''*'' \<and> r \<noteq> ''*'' \<and> g \<noteq> r
               | _ \<Rightarrow> False) then False
      else if sc_action granted \<noteq> ''*'' \<and> sc_action required \<noteq> ''*'' \<and>
              sc_action granted \<noteq> sc_action required then False
      else True)"

definition scope_authorizes :: "scope list \<Rightarrow> scope \<Rightarrow> bool" where
  "scope_authorizes granted required = list_ex (\<lambda>g. scope_matches g required) granted"

definition scope_set_to_strings :: "scope list \<Rightarrow> string list" where
  "scope_set_to_strings scopes = map scope_display scopes"

fun collect_scopes :: "(scope_parse_error + scope) list \<Rightarrow> scope_parse_error + scope list" where
  "collect_scopes [] = Ok []"
| "collect_scopes (r # rs) =
     rbind r (\<lambda>s. rbind (collect_scopes rs) (\<lambda>ss. Ok (s # ss)))"

definition parse_scope_set :: "string \<Rightarrow> scope_parse_error + scope list" where
  "parse_scope_set inp =
     (if trim inp = [] then Ok []
      else collect_scopes (map scope_parse (split_whitespace inp)))"

section \<open>Routes\<close>

record route_pattern =
  rp_method :: string
  rp_path :: string

definition route_pattern_new :: "string \<Rightarrow> string \<Rightarrow> route_pattern" where
  "route_pattern_new m p = \<lparr> rp_method = to_ascii_uppercase m, rp_path = p \<rparr>"

record adapter_scope_decl =
  ad_action :: string
  ad_scope :: scope

record scope_table =
  st_direct :: "(route_pattern \<times> scope) list"
  st_mounted :: "(route_pattern \<times> scope \<times> string) list"
  st_public :: "route_pattern list"

definition scope_table_new :: scope_table where
  "scope_table_new = \<lparr> st_direct = [], st_mounted = [], st_public = [] \<rparr>"

definition inner_segment :: "string \<Rightarrow> string" where
  "inner_segment seg =
     (case strip_prefix ''{'' seg of
        None \<Rightarrow> seg
      | Some s \<Rightarrow> (case strip_suffix ''}'' s of None \<Rightarrow> seg | Some b \<Rightarrow> b))"

definition is_catch_all :: "string \<Rightarrow> bool" where
  "is_catch_all seg = starts_with ''*'' (inner_segment seg)"

definition is_param :: "string \<Rightarrow> bool" where
  "is_param seg =
     (starts_with '':'' seg \<or> (starts_with ''{'' seg \<and> ends_with ''}'' seg) \<or>
      starts_with ''*'' (inner_segment seg))"

fun match_segments :: "string list \<Rightarrow> string list \<Rightarrow> bool" where
  "match_segments [] actual = (actual = [])"
| "match_segments (d # ds) actual =
     (if is_catch_all d then actual \<noteq> [] \<and> list_ex (\<lambda>s. s \<noteq> []) actual
      else case actual of
             [] \<Rightarrow> False
           | a # as \<Rightarrow>
               if is_param d then (if a = [] then False else match_segments ds as)
               else if d \<noteq> a then False else match_segments ds as)"

definition path_matches :: "string \<Rightarrow> string \<Rightarrow> bool" where
  "path_matches pattern path = match_segments (split_on CHR ''/'' pattern) (split_on CHR ''/'' path)"

definition declare_public :: "string \<Rightarrow> string \<Rightarrow> scope_table \<Rightarrow> scope_table" where
  "declare_public m p t = t\<lparr> st_public := st_public t @ [route_pattern_new m p] \<rparr>"

definition is_public :: "scope_table \<Rightarrow> string \<Rightarrow> string \<Rightarrow> bool" where
  "is_public t m path =
     (let m' = to_ascii_uppercase m in
      list_ex (\<lambda>p. rp_method p = m' \<and> (rp_path p = path \<or> path_matches (rp_path p) path))
        (st_public t))"

definition declare_route :: "string \<Rightarrow> string \<Rightarrow> scope \<Rightarrow> scope_table \<Rightarrow> scope_table" where
  "declare_route m p s t = t\<lparr> st_direct := st_direct t @ [(route_pattern_new m p, s)] \<rparr>"

definition trim_slashes :: "string \<Rightarrow> string" where
  "trim_slashes s = rev (dropWhile (\<lambda>c. c = CHR ''/'') (rev s))"

definition mount_adapter ::
    "string \<Rightarrow> string \<Rightarrow> adapter_scope_decl list \<Rightarrow> scope_table \<Rightarrow> scope_table" where
  "mount_adapter prefix adapter_name decls t =
     t\<lparr> st_mounted := st_mounted t @
          map (\<lambda>d. (route_pattern_new ''POST'' (trim_slashes prefix @ ''/'' @ ad_action d),
                    ad_scope d, adapter_name)) decls \<rparr>"

fun first_direct :: "(route_pattern \<Rightarrow> bool) \<Rightarrow> (route_pattern \<times> scope) list \<Rightarrow> scope option" where
  "first_direct covers [] = None"
| "first_direct covers ((p, s) # es) = (if covers p then Some s else first_direct covers es)"

fun first_mounted ::
    "(route_pattern \<Rightarrow> bool) \<Rightarrow> (route_pattern \<times> scope \<times> string) list \<Rightarrow> scope option" where
  "first_mounted covers [] = None"
| "first_mounted covers ((p, s, a) # es) = (if covers p then Some s else first_mounted covers es)"

definition required_scope :: "scope_table \<Rightarrow> string \<Rightarrow> string \<Rightarrow> scope option" where
  "required_scope t m path =
     (let m' = to_ascii_uppercase m;
          literal = (\<lambda>p. rp_method p = m' \<and> rp_path p = path);
          parametric = (\<lambda>p. rp_method p = m' \<and> path_matches (rp_path p) path) in
      case first_direct literal (st_direct t) of
        Some s \<Rightarrow> Some s
      | None \<Rightarrow>
     (case first_mounted literal (st_mounted t) of
        Some s \<Rightarrow> Some s
      | None \<Rightarrow>
     (case first_direct parametric (st_direct t) of
        Some s \<Rightarrow> Some s
      | None \<Rightarrow> first_mounted parametric (st_mounted t))))"

definition census :: "scope_table \<Rightarrow> (route_pattern \<times> scope) list" where
  "census t = st_direct t @ map (\<lambda>(p, s, a). (p, s)) (st_mounted t)"

definition table_is_empty :: "scope_table \<Rightarrow> bool" where
  "table_is_empty t \<longleftrightarrow> st_direct t = [] \<and> st_mounted t = []"

definition table_len :: "scope_table \<Rightarrow> nat" where
  "table_len t = length (st_direct t) + length (st_mounted t)"

section \<open>Enforcement\<close>

text \<open>
  The middleware either hands the request to the next layer or answers 403.  The tenant is
  absent when the authentication layer attached none; of a tenant only its scopes are read.
\<close>

datatype gate_response = NextLayer | Forbidden

definition require_scope ::
    "scope_table \<Rightarrow> scope list option \<Rightarrow> string \<Rightarrow> string \<Rightarrow> gate_response" where
  "require_scope table tenant m path =
     (if is_public table m path then NextLayer
      else case required_scope table m path of
             None \<Rightarrow> Forbidden
           | Some required \<Rightarrow>
               if \<not> (case tenant of None \<Rightarrow> False | Some scopes \<Rightarrow> scope_authorizes scopes required)
               then Forbidden else NextLayer)"

section \<open>Parsing is the inverse of printing\<close>

text \<open>A well-formed scope prints within the length bound and has proper segments.\<close>

definition scope_segments :: "scope \<Rightarrow> string list" where
  "scope_segments s = sc_resource s # (case sc_instance s of None \<Rightarrow> [] | Some i \<Rightarrow> [i]) @ [sc_action s]"

definition scope_wf :: "scope \<Rightarrow> bool" where
  "scope_wf s \<longleftrightarrow>
     (\<forall>seg \<in> set (scope_segments s). seg \<noteq> [] \<and> CHR '':'' \<notin> set seg) \<and>
     length (scope_display s) \<le> MAX_SCOPE_LEN"

lemma scope_display_join: "scope_display s = join_with '':'' (scope_segments s)"
  by (cases "sc_instance s") (simp_all add: scope_display_def scope_segments_def)

lemma split_scope_display:
  "scope_wf s \<Longrightarrow> split_on CHR '':'' (scope_display s) = scope_segments s"
  unfolding scope_display_join scope_wf_def
  by (rule split_join) (auto simp: scope_segments_def)

definition scope_of_segments :: "string list \<Rightarrow> scope" where
  "scope_of_segments segs =
     \<lparr> sc_resource = segs ! 0, sc_instance = (if length segs = 3 then Some (segs ! 1) else None),
       sc_action = segs ! (length segs - 1) \<rparr>"

lemma scope_of_scope_segments: "scope_of_segments (scope_segments s) = s"
  by (cases s; cases "sc_instance s") (simp_all add: scope_of_segments_def scope_segments_def)

lemma scope_segments_of:
  assumes "length segs = 2 \<or> length segs = 3"
  shows "scope_segments (scope_of_segments segs) = segs"
  using assms
  by (auto simp: scope_of_segments_def scope_segments_def numeral_2_eq_2 numeral_3_eq_3 length_Suc_conv)

lemma length_scope_segments: "length (scope_segments s) = 2 \<or> length (scope_segments s) = 3"
  by (cases "sc_instance s") (simp_all add: scope_segments_def)

lemma scope_parse_Ok_iff:
  "scope_parse s = Ok sc \<longleftrightarrow>
     length s \<le> MAX_SCOPE_LEN \<and> s \<noteq> [] \<and>
     (length (split_on CHR '':'' s) = 2 \<or> length (split_on CHR '':'' s) = 3) \<and>
     [] \<notin> set (split_on CHR '':'' s) \<and> sc = scope_of_segments (split_on CHR '':'' s)"
  unfolding scope_parse_def scope_of_segments_def MAX_SEGMENTS_def
  by (auto simp: Let_def list_ex_iff)

text \<open>
  C27: \<open>Scope::parse\<close> accepts exactly the printed forms of well-formed scopes, and
  returns the scope that was printed: parsing and \<open>Display\<close> are inverse to each other.
\<close>

theorem scope_parse_inverse:
  "scope_parse s = Ok sc \<longleftrightarrow> scope_wf sc \<and> s = scope_display sc"
proof
  let ?segs = "split_on CHR '':'' s"
  assume "scope_parse s = Ok sc"
  then have len: "length s \<le> MAX_SCOPE_LEN"
    and n: "length ?segs = 2 \<or> length ?segs = 3"
    and ne: "[] \<notin> set ?segs" and sc: "sc = scope_of_segments ?segs"
    by (auto simp: scope_parse_Ok_iff)
  have segs: "scope_segments sc = ?segs"
    using n by (simp add: sc scope_segments_of)
  then have s: "s = scope_display sc"
    by (simp add: scope_display_join join_split)
  moreover have "scope_wf sc"
    using len ne split_on_pieces [of _ "CHR '':''" s] s by (auto simp: scope_wf_def segs)
  ultimately show "scope_wf sc \<and> s = scope_display sc" by blast
next
  assume sc: "scope_wf sc \<and> s = scope_display sc"
  then have split: "split_on CHR '':'' s = scope_segments sc"
    using split_scope_display by blast
  have "length (split_on CHR '':'' s) \<noteq> 1"
    using length_scope_segments [of sc] by (auto simp: split)
  then have "s \<noteq> []" by auto
  moreover have "length s \<le> MAX_SCOPE_LEN" "[] \<notin> set (scope_segments sc)"
    using sc by (auto simp: scope_wf_def)
  ultimately show "scope_parse s = Ok sc"
    unfolding scope_parse_Ok_iff split using length_scope_segments [of sc]
    by (simp add: scope_of_scope_segments)
qed

section \<open>Refusals\<close>

lemma hd_split_empty: "hd (split_on c s) = [] \<longleftrightarrow> s = [] \<or> hd s = c"
  by (cases s) auto

lemma split_empty_tail:
  "[] \<in> set (tl (split_on c s)) \<longleftrightarrow> (s \<noteq> [] \<and> last s = c) \<or> contains_text [c, c] s"
proof (induction s)
  case (Cons x s)
  have "[] \<in> set (split_on c s) \<longleftrightarrow>
      s = [] \<or> hd s = c \<or> (s \<noteq> [] \<and> last s = c) \<or> contains_text [c, c] s"
    using Cons hd_split_empty [of c s] split_on_not_Nil [of c s]
    by (metis list.sel(1,3) list.set_cases list.set_intros(1) list.set_sel(2) set_ConsD list.exhaust_sel)
  then show ?case using Cons by (cases s) auto
qed simp

lemma split_empty_piece:
  "s \<noteq> [] \<Longrightarrow> [] \<in> set (split_on c s) \<longleftrightarrow> hd s = c \<or> last s = c \<or> contains_text [c, c] s"
  using split_empty_tail [of c s] hd_split_empty [of c s] split_on_not_Nil [of c s]
  by (metis list.exhaust_sel list.set_intros(1) list.set_sel(2) set_ConsD)

text \<open>
  C28: every refusal of \<open>Scope::parse\<close> names its cause.  The length bound is checked
  first; then the number of colons decides, and an otherwise well-shaped scope is refused
  exactly when a colon leads, trails or is doubled.
\<close>

theorem scope_parse_refusals:
  "scope_parse s = Err e \<longleftrightarrow>
     (case e of
        ScopeTooLong \<Rightarrow> 256 < length s
      | ScopeEmpty \<Rightarrow> s = []
      | TooFewSegments \<Rightarrow> s \<noteq> [] \<and> length s \<le> 256 \<and> CHR '':'' \<notin> set s
      | TooManySegments \<Rightarrow> length s \<le> 256 \<and> 2 < count_list s CHR '':''
      | EmptySegment \<Rightarrow> s \<noteq> [] \<and> length s \<le> 256 \<and> count_list s CHR '':'' \<in> {1, 2} \<and>
          (hd s = CHR '':'' \<or> last s = CHR '':'' \<or> contains_text ''::'' s))"
proof -
  have "count_list s CHR '':'' = 0 \<longleftrightarrow> CHR '':'' \<notin> set s"
    by (simp add: count_list_0_iff)
  then show ?thesis
    unfolding scope_parse_def MAX_SCOPE_LEN_def MAX_SEGMENTS_def
    by (cases e) (auto simp: Let_def list_ex_iff length_split_on split_empty_piece)
qed

section \<open>Scopes as sets of permissions\<close>

text \<open>
  A concrete permission names a resource, possibly an instance, and an action, none of them
  the wildcard.  A scope stands for the permissions it covers.
\<close>

definition segment_covers :: "string \<Rightarrow> string \<Rightarrow> bool" where
  "segment_covers pat v \<longleftrightarrow> v \<noteq> ''*'' \<and> (pat = ''*'' \<or> pat = v)"

definition permissions :: "scope \<Rightarrow> (string \<times> string option \<times> string) set" where
  "permissions s =
     {(r, i, a). segment_covers (sc_resource s) r \<and> rel_option segment_covers (sc_instance s) i \<and>
        segment_covers (sc_action s) a}"

lemma segments_overlap:
  "(\<exists>v. segment_covers p v \<and> segment_covers q v) \<longleftrightarrow> p = ''*'' \<or> q = ''*'' \<or> p = q"
proof
  assume pq: "p = ''*'' \<or> q = ''*'' \<or> p = q"
  define v where "v = (if p \<noteq> ''*'' then p else if q \<noteq> ''*'' then q else ''any'')"
  have "segment_covers p v \<and> segment_covers q v"
    using pq by (auto simp: segment_covers_def v_def)
  then show "\<exists>v. segment_covers p v \<and> segment_covers q v" ..
qed (auto simp: segment_covers_def)

lemma instances_overlap:
  "(\<exists>i. rel_option segment_covers p i \<and> rel_option segment_covers q i) \<longleftrightarrow>
     (case (p, q) of (None, None) \<Rightarrow> True | (Some g, Some r) \<Rightarrow> g = ''*'' \<or> r = ''*'' \<or> g = r
      | _ \<Rightarrow> False)"
  by (cases p; cases q) (auto simp: option_rel_Some1 simp flip: segments_overlap)

lemma scope_matches_is_overlap:
  "scope_matches g r \<longleftrightarrow> permissions g \<inter> permissions r \<noteq> {}"
proof -
  have "permissions g \<inter> permissions r \<noteq> {} \<longleftrightarrow>
      (\<exists>v. segment_covers (sc_resource g) v \<and> segment_covers (sc_resource r) v) \<and>
      (\<exists>i. rel_option segment_covers (sc_instance g) i \<and> rel_option segment_covers (sc_instance r) i) \<and>
      (\<exists>v. segment_covers (sc_action g) v \<and> segment_covers (sc_action r) v)"
    by (auto simp: permissions_def)
  then show ?thesis
    unfolding segments_overlap instances_overlap scope_matches_def
    by (cases "sc_instance g"; cases "sc_instance r") auto
qed

section \<open>Route lookup and admission\<close>

definition covers_literally :: "string \<Rightarrow> string \<Rightarrow> route_pattern \<Rightarrow> bool" where
  "covers_literally m path p \<longleftrightarrow> rp_method p = to_ascii_uppercase m \<and> rp_path p = path"

definition covers_by_pattern :: "string \<Rightarrow> string \<Rightarrow> route_pattern \<Rightarrow> bool" where
  "covers_by_pattern m path p \<longleftrightarrow> rp_method p = to_ascii_uppercase m \<and> path_matches (rp_path p) path"

definition census_scope :: "scope_table \<Rightarrow> string \<Rightarrow> string \<Rightarrow> scope option" where
  "census_scope t m path =
     (case List.find (covers_literally m path \<circ> fst) (census t) of
        Some e \<Rightarrow> Some (snd e)
      | None \<Rightarrow> map_option snd (List.find (covers_by_pattern m path \<circ> fst) (census t)))"

lemma first_direct_find: "first_direct c es = map_option snd (List.find (c \<circ> fst) es)"
  by (induction es) auto

lemma first_mounted_find:
  "first_mounted c es = map_option snd (List.find (c \<circ> fst) (map (\<lambda>(p, s, a). (p, s)) es))"
  by (induction es) auto

lemma find_append: "List.find c (xs @ ys) = (case List.find c xs of None \<Rightarrow> List.find c ys | r \<Rightarrow> r)"
  by (induction xs) auto

lemma required_scope_is_census_scope: "required_scope t m path = census_scope t m path"
  unfolding required_scope_def census_scope_def census_def first_direct_find first_mounted_find
  by (auto simp: Let_def find_append covers_literally_def [abs_def] covers_by_pattern_def [abs_def]
      comp_def split: option.splits)

lemma is_public_covers:
  "is_public t m path \<longleftrightarrow>
     (\<exists>p. p \<in> set (st_public t) \<and> (covers_literally m path p \<or> covers_by_pattern m path p))"
  by (auto simp: is_public_def Let_def list_ex_iff covers_literally_def covers_by_pattern_def)

text \<open>
  A route that is neither public nor in the census is refused for every caller, although the
  documentation of \<open>require_scope\<close> says such routes are allowed.
\<close>

lemma undeclared_route_refused:
  "\<not> is_public t m path \<Longrightarrow> census_scope t m path = None \<Longrightarrow> require_scope t tenant m path = Forbidden"
  by (simp add: require_scope_def required_scope_is_census_scope)

text \<open>
  C15: the scope middleware admits exactly the authorized callers of a declared route.  For a
  route the table declares, as public or with a scope, the request reaches the handler exactly
  when a public declaration covers it, or when the caller is authenticated and the declaration
  that governs the route - the first literal entry of the census, else the first entry whose
  pattern covers the path - shares a permission with a scope the caller holds.
\<close>

theorem require_scope_admits_exactly:
  assumes "is_public t m path \<or> census_scope t m path = Some declared"
  shows "require_scope t tenant m path = NextLayer \<longleftrightarrow>
     (\<exists>p. p \<in> set (st_public t) \<and> (covers_literally m path p \<or> covers_by_pattern m path p)) \<or>
     (\<exists>granted required g. tenant = Some granted \<and> census_scope t m path = Some required \<and>
        g \<in> set granted \<and> permissions g \<inter> permissions required \<noteq> {})"
  using assms
  unfolding require_scope_def required_scope_is_census_scope scope_authorizes_def is_public_covers [symmetric]
  by (auto simp: list_ex_iff scope_matches_is_overlap split: option.splits)

definition demo_scope :: "string \<Rightarrow> string \<Rightarrow> scope" where
  "demo_scope r a = \<lparr> sc_resource = r, sc_instance = None, sc_action = a \<rparr>"

definition demo_table :: scope_table where
  "demo_table = declare_route ''get'' ''/runs/{id}'' (demo_scope ''runs'' ''read'')
     (declare_public ''get'' ''/health'' scope_table_new)"

text \<open>A wildcard grant reads a run, a grant on another resource does not.\<close>

theorem require_scope_admits_exactly_witness:
  "require_scope demo_table (Some [demo_scope ''runs'' ''*'']) ''GET'' ''/runs/7'' = NextLayer \<and>
   require_scope demo_table (Some [demo_scope ''graphs'' ''read'']) ''GET'' ''/runs/7'' = Forbidden \<and>
   require_scope demo_table None ''GET'' ''/health'' = NextLayer"
proof -
  let ?r = "demo_scope ''runs'' ''read''"
  have c: "census_scope demo_table ''GET'' ''/runs/7'' = Some ?r"
    and p: "is_public demo_table ''GET'' ''/health''" and n: "\<not> is_public demo_table ''GET'' ''/runs/7''"
    unfolding required_scope_is_census_scope [symmetric] by code_simp+
  note run = require_scope_admits_exactly [OF disjI2 [OF c]]
  have "permissions (demo_scope ''runs'' ''*'') \<inter> permissions ?r \<noteq> {}"
    "permissions (demo_scope ''graphs'' ''read'') \<inter> permissions ?r = {}"
    using scope_matches_is_overlap [of "demo_scope ''runs'' ''*''" ?r]
      scope_matches_is_overlap [of "demo_scope ''graphs'' ''read''" ?r]
    by (simp_all add: scope_matches_def demo_scope_def)
  then have "require_scope demo_table (Some [demo_scope ''runs'' ''*'']) ''GET'' ''/runs/7'' = NextLayer"
    "require_scope demo_table (Some [demo_scope ''graphs'' ''read'']) ''GET'' ''/runs/7'' \<noteq> NextLayer"
    using n by (auto simp: run c simp flip: is_public_covers)
  moreover have "require_scope demo_table None ''GET'' ''/health'' = NextLayer"
    using require_scope_admits_exactly [OF disjI1 [OF p], of None] p by (simp flip: is_public_covers)
  moreover have "g = Forbidden" if "g \<noteq> NextLayer" for g using that by (cases g) auto
  ultimately show ?thesis by blast
qed

end
