(* ===== verification/Json.thy ===== *)
theory Json
  imports Rusty_Base
begin

text \<open>
  JSON values as the runtime handles them (\<open>serde_json::Value\<close>), the canonical form every
  content hash covers (\<open>canonicalize_value\<close>, record.rs) and the three merges of JSON values
  that the reducers of state.rs are built from: \<open>append_in_place\<close>, \<open>deep_merge_in_place\<close>
  and \<open>upsert_messages_in_place\<close>.

  An object is the list of its entries in iteration order.  The default map of serde_json
  iterates in key order, which \<open>wf_json\<close> states; the canonical form is defined for any
  order of the entries, because record.rs has to cope with an insertion-ordered map too.
  A number is a non-negative integer, a negative integer or a finite float; no component
  computes with the float, so a float is the index of its value.
\<close>

section \<open>Values\<close>

datatype jnum = PosInt nat | NegInt int | Float nat

datatype json =
    JNull
  | JBool bool
  | JNumber jnum
  | JString string
  | JArray "json list"
  | JObject "(string \<times> json) list"

fun wf_json :: "json \<Rightarrow> bool" where
  "wf_json (JArray xs) \<longleftrightarrow> (\<forall>x \<in> set xs. wf_json x)"
| "wf_json (JObject m) \<longleftrightarrow> bt_inv m \<and> (\<forall>kv \<in> set m. wf_json (snd kv))"
| "wf_json _ \<longleftrightarrow> True"

fun is_array :: "json \<Rightarrow> bool" where
  "is_array (JArray _) = True"
| "is_array _ = False"

fun is_object :: "json \<Rightarrow> bool" where
  "is_object (JObject _) = True"
| "is_object _ = False"

fun json_type_name :: "json \<Rightarrow> string" where
  "json_type_name JNull = ''null''"
| "json_type_name (JBool _) = ''bool''"
| "json_type_name (JNumber _) = ''number''"
| "json_type_name (JString _) = ''string''"
| "json_type_name (JArray _) = ''array''"
| "json_type_name (JObject _) = ''object''"

text \<open>\<open>Value::get\<close> with a string key followed by \<open>Value::as_str\<close>, on the key \<open>id\<close>.\<close>

fun as_str :: "json \<Rightarrow> string option" where
  "as_str (JString s) = Some s"
| "as_str _ = None"

fun json_get :: "json \<Rightarrow> string \<Rightarrow> json option" where
  "json_get (JObject m) k = map_of m k"
| "json_get _ k = None"

definition msg_id :: "json \<Rightarrow> string option" where
  "msg_id m = Option.bind (json_get m ''id'') as_str"

section \<open>Canonical form\<close>

text \<open>Two values with the same content, up to the order of the entries of every object.\<close>

fun canonicalize_value :: "json \<Rightarrow> json" where
  "canonicalize_value (JObject m) =
     JObject (map (\<lambda>kv. (fst kv, canonicalize_value (snd kv))) (sort_key fst m))"
| "canonicalize_value (JArray xs) = JArray (map canonicalize_value xs)"
| "canonicalize_value v = v"

fun distinct_keys :: "json \<Rightarrow> bool" where
  "distinct_keys (JArray xs) \<longleftrightarrow> (\<forall>x \<in> set xs. distinct_keys x)"
| "distinct_keys (JObject m) \<longleftrightarrow> distinct (map fst m) \<and> (\<forall>kv \<in> set m. distinct_keys (snd kv))"
| "distinct_keys _ \<longleftrightarrow> True"

inductive same_content :: "json \<Rightarrow> json \<Rightarrow> bool" where
  same_scalar: "same_content v v"
| same_array: "list_all2 same_content xs ys \<Longrightarrow> same_content (JArray xs) (JArray ys)"
| same_object: "list_all2 (\<lambda>a b. fst a = fst b \<and> same_content (snd a) (snd b)) m n' \<Longrightarrow>
    mset n' = mset n \<Longrightarrow> same_content (JObject m) (JObject n)"

lemma sort_key_fst_strict: "distinct (map fst m) \<Longrightarrow> sorted_wrt (<) (map fst (sort_key fst m))"
  by (metis distinct_map distinct_sort set_sort sorted_sort_key strict_sorted_iff)

lemma wf_canonicalize: "distinct_keys v \<Longrightarrow> wf_json (canonicalize_value v)"
proof (induction v rule: canonicalize_value.induct)
  case (1 m)
  have "bt_inv (map (\<lambda>kv. (fst kv, canonicalize_value (snd kv))) (sort_key fst m))"
    using 1 sort_key_fst_strict [of m] by (simp add: bt_inv_def comp_def)
  then show ?case using 1 by auto
qed auto

lemma canonicalize_wf_id: "wf_json v \<Longrightarrow> canonicalize_value v = v"
proof (induction v rule: canonicalize_value.induct)
  case (1 m)
  have "sort_key fst m = m"
    using 1(2) by (intro sort_key_id_if_sorted) (auto simp: bt_inv_def strict_sorted_iff)
  then show ?case using 1 by (auto intro!: map_idI simp: prod_eq_iff)
next
  case (2 xs)
  then show ?case by (auto intro!: map_idI)
qed auto

lemma sort_key_map_snd:
  "sort_key fst (map (\<lambda>kv. (fst kv, f (snd kv))) m) = map (\<lambda>kv. (fst kv, f (snd kv))) (sort_key fst m)"
proof (induction m)
  case (Cons a m)
  have "insort_key fst (fst a, f (snd a)) (map (\<lambda>kv. (fst kv, f (snd kv))) n)
      = map (\<lambda>kv. (fst kv, f (snd kv))) (insort_key fst a n)" for n
    by (induction n) auto
  then show ?case using Cons by simp
qed simp

lemma sort_key_fst_perm:
  assumes "mset m = mset n" "distinct (map fst m)"
  shows "sort_key fst m = sort_key fst n"
proof -
  have dn: "distinct (map fst n)" using assms by (metis mset_eq_imp_distinct_iff mset_map)
  have "bt_inv (sort_key fst m)" "bt_inv (sort_key fst n)"
    using sort_key_fst_strict [OF assms(2)] sort_key_fst_strict [OF dn] by (simp_all add: bt_inv_def)
  moreover have "set m = set n" using assms(1) by (metis set_mset_mset)
  then have "map_of (sort_key fst m) = map_of (sort_key fst n)"
    using assms(2) dn by (subst map_of_inject_set) (simp_all add: distinct_insort_key distinct_map)
  ultimately show ?thesis by (rule bt_ext)
qed


lemma same_content_distinct: "same_content v w \<Longrightarrow> distinct_keys v \<longleftrightarrow> distinct_keys w"
proof (induction rule: same_content.induct)
  case (same_array xs ys)
  then show ?case by (auto simp: list_all2_conv_all_nth all_set_conv_all_nth)
next
  case (same_object m n' n)
  then have "map fst m = map fst n'"
    by (simp add: list_all2_conv_all_nth list_eq_iff_nth_eq)
  then have "distinct (map fst m) \<longleftrightarrow> distinct (map fst n)"
    using same_object(2) by (metis mset_eq_imp_distinct_iff mset_map)
  moreover have "(\<forall>kv \<in> set m. distinct_keys (snd kv)) \<longleftrightarrow> (\<forall>kv \<in> set n'. distinct_keys (snd kv))"
    using same_object(1) by (auto simp: list_all2_conv_all_nth all_set_conv_all_nth)
  moreover have "set n' = set n" using same_object(2) by (metis set_mset_mset)
  ultimately show ?case by simp
qed simp

lemma same_content_canonicalize:
  "same_content v w \<Longrightarrow> distinct_keys v \<Longrightarrow> canonicalize_value v = canonicalize_value w"
proof (induction rule: same_content.induct)
  case (same_array xs ys)
  then show ?case by (auto simp: list_all2_conv_all_nth list_eq_iff_nth_eq)
next
  case (same_object m n' n)
  let ?c = "\<lambda>kv. (fst kv, canonicalize_value (snd kv))"
  have keys: "map fst m = map fst n'"
    using same_object(1) by (simp add: list_all2_conv_all_nth list_eq_iff_nth_eq)
  have eq: "map ?c m = map ?c n'"
    using same_object(1,3) by (auto simp: list_all2_conv_all_nth list_eq_iff_nth_eq)
  have "map ?c (sort_key fst m) = sort_key fst (map ?c m)" by (simp add: sort_key_map_snd)
  also have "\<dots> = map ?c (sort_key fst n')" by (simp only: eq sort_key_map_snd)
  also have "sort_key fst n' = sort_key fst n"
    using same_object(2,3) keys by (intro sort_key_fst_perm) auto
  finally show ?case by simp
qed simp

section \<open>The merges behind the reducers\<close>

definition append_in_place :: "json list \<Rightarrow> json \<Rightarrow> json list" where
  "append_in_place existing update =
     (case update of JArray items \<Rightarrow> existing @ items | single \<Rightarrow> existing @ [single])"

function (sequential) deep_merge_in_place :: "json \<Rightarrow> json \<Rightarrow> json" where
  "deep_merge_in_place (JObject x) (JObject y) =
     JObject (fold (\<lambda>kv x. case map_of x (fst kv) of
         Some cur \<Rightarrow> bt_insert (fst kv) (deep_merge_in_place cur (snd kv)) x
       | None \<Rightarrow> bt_insert (fst kv) (snd kv) x) y x)"
| "deep_merge_in_place a b = b"
  by pat_completeness auto
termination
proof (relation "measure (size \<circ> snd)", goal_cases)
  case (2 x y kv m cur)
  have "size (snd kv) < Suc (size_list (size_prod (\<lambda>_. 0) size) y)"
    using \<open>kv \<in> set y\<close> by (induction y) (auto simp: prod.size_gen)
  then show ?case by simp
qed simp

definition deep_merge :: "json \<Rightarrow> json \<Rightarrow> json" where
  "deep_merge a b = deep_merge_in_place a b"

text \<open>
  The index the upsert builds over the existing messages (\<open>entry(id).or_insert(i)\<close>), and the
  upsert loop, which carries the messages and the index.
\<close>

fun index_ids :: "nat \<Rightarrow> json list \<Rightarrow> (string \<rightharpoonup> nat) \<Rightarrow> (string \<rightharpoonup> nat)" where
  "index_ids i [] ix = ix"
| "index_ids i (m # ms) ix =
     index_ids (Suc i) ms
       (case msg_id m of
          None \<Rightarrow> ix
        | Some mid \<Rightarrow> (case ix mid of None \<Rightarrow> ix(mid \<mapsto> i) | Some _ \<Rightarrow> ix))"

fun upsert_loop :: "json list \<Rightarrow> json list \<Rightarrow> (string \<rightharpoonup> nat) \<Rightarrow> json list" where
  "upsert_loop [] messages ix = messages"
| "upsert_loop (msg # incoming) messages ix =
     (case Option.bind (msg_id msg) ix of
        Some i \<Rightarrow> upsert_loop incoming (messages[i := msg]) ix
      | None \<Rightarrow> upsert_loop incoming (messages @ [msg])
          (case msg_id msg of None \<Rightarrow> ix | Some mid \<Rightarrow> ix(mid \<mapsto> length messages)))"

definition upsert_messages_in_place :: "json list \<Rightarrow> json \<Rightarrow> json list" where
  "upsert_messages_in_place messages update =
     upsert_loop (case update of JArray items \<Rightarrow> items | single \<Rightarrow> [single])
       messages (index_ids 0 messages Map.empty)"

definition add_messages :: "json option \<Rightarrow> json \<Rightarrow> json" where
  "add_messages current update =
     JArray (upsert_messages_in_place
       (case current of Some (JArray existing) \<Rightarrow> existing | _ \<Rightarrow> []) update)"


subsection \<open>Deep merge\<close>

text \<open>
  What a deep merge of two objects holds under a key: the key of one side keeps that side's
  value, a key of both sides holds the merge of the two values.
\<close>

lemma map_of_merge_fold:
  assumes "distinct (map fst y)"
  shows "map_of (fold (\<lambda>kv x. case map_of x (fst kv) of
         Some cur \<Rightarrow> bt_insert (fst kv) (g cur (snd kv)) x
       | None \<Rightarrow> bt_insert (fst kv) (snd kv) x) y x) k =
     (case map_of y k of
        None \<Rightarrow> map_of x k
      | Some v \<Rightarrow> Some (case map_of x k of None \<Rightarrow> v | Some c \<Rightarrow> g c v))"
  using assms
proof (induction y arbitrary: x)
  case (Cons kv y)
  then have "fst kv \<notin> fst ` set y" by simp
  then have "map_of y (fst kv) = None" by (rule map_of_not_key)
  then show ?case using Cons by (cases kv) (auto split: option.splits)
qed simp

lemma bt_inv_merge_fold:
  "bt_inv x \<Longrightarrow> bt_inv (fold (\<lambda>kv x. case map_of x (fst kv) of
         Some cur \<Rightarrow> bt_insert (fst kv) (g cur (snd kv)) x
       | None \<Rightarrow> bt_insert (fst kv) (snd kv) x) y x)"
  by (induction y arbitrary: x) (auto split: option.splits)

lemma bt_values: "bt_inv m \<Longrightarrow> (\<forall>kv \<in> set m. P (snd kv)) \<longleftrightarrow> (\<forall>k v. map_of m k = Some v \<longrightarrow> P v)"
  by (metis bt_inv_distinct map_of_SomeD map_of_eq_Some_iff prod.collapse snd_conv)

lemma deep_merge_non_object [simp]:
  "\<not> is_object a \<or> \<not> is_object b \<Longrightarrow> deep_merge_in_place a b = b"
  by (cases a; cases b) auto

lemma deep_merge_object:
  assumes "wf_json (JObject x)" "wf_json (JObject y)"
  shows "\<exists>z. deep_merge_in_place (JObject x) (JObject y) = JObject z \<and> bt_inv z \<and>
    (\<forall>k. map_of z k = (case map_of y k of
        None \<Rightarrow> map_of x k
      | Some v \<Rightarrow> Some (case map_of x k of None \<Rightarrow> v | Some c \<Rightarrow> deep_merge_in_place c v)))"
  using assms by (simp add: bt_inv_merge_fold map_of_merge_fold bt_inv_distinct)

lemma json_size_value: "kv \<in> set m \<Longrightarrow> size (snd kv) < size (JObject m)"
  by (induction m) (auto simp: prod.size_gen)

lemma wf_json_lookup:
  "wf_json (JObject m) \<Longrightarrow> map_of m k = Some v \<Longrightarrow> wf_json v \<and> size v < size (JObject m)"
  using map_of_SomeD [of m k v] json_size_value [of "(k, v)" m] by force

lemma wf_deep_merge: "wf_json a \<Longrightarrow> wf_json b \<Longrightarrow> wf_json (deep_merge_in_place a b)"
proof (induction "size b" arbitrary: a b rule: less_induct)
  case less
  show ?case
  proof (cases "is_object a \<and> is_object b")
    case True
    then obtain x y where ab: "a = JObject x" "b = JObject y" by (auto elim!: is_object.elims)
    obtain z where z: "deep_merge_in_place a b = JObject z" "bt_inv z"
      and lk: "\<And>k. map_of z k = (case map_of y k of None \<Rightarrow> map_of x k
        | Some v \<Rightarrow> Some (case map_of x k of None \<Rightarrow> v | Some c \<Rightarrow> deep_merge_in_place c v))"
      using deep_merge_object less.prems by (auto simp: ab)
    have wx: "wf_json c" if "map_of x k = Some c" for k c
      using wf_json_lookup less.prems(1) that unfolding ab by blast
    have wy: "wf_json v \<and> size v < size b" if "map_of y k = Some v" for k v
      using wf_json_lookup less.prems(2) that unfolding ab by blast
    have "wf_json v" if "map_of z k = Some v" for k v
      using that wx wy less.hyps by (auto simp: lk split: option.splits)
    then show ?thesis using z by (simp add: bt_values)
  qed (use less in auto)
qed

lemma deep_merge_self: "wf_json v \<Longrightarrow> deep_merge_in_place v v = v"
proof (induction "size v" arbitrary: v rule: less_induct)
  case less
  show ?case
  proof (cases v)
    case (JObject y)
    obtain z where z: "deep_merge_in_place v v = JObject z" "bt_inv z"
      and lk: "\<And>k. map_of z k = (case map_of y k of None \<Rightarrow> map_of y k
        | Some v \<Rightarrow> Some (case map_of y k of None \<Rightarrow> v | Some c \<Rightarrow> deep_merge_in_place c v))"
      using deep_merge_object less.prems by (auto simp: JObject)
    have "deep_merge_in_place c c = c" if "map_of y k = Some c" for k c
      using wf_json_lookup [of y k c] less that unfolding JObject by blast
    then have "map_of z = map_of y" by (auto simp: lk fun_eq_iff split: option.splits)
    then show ?thesis using z less.prems bt_ext by (auto simp: JObject)
  qed auto
qed

lemma deep_merge_idem:
  "wf_json a \<Longrightarrow> wf_json b \<Longrightarrow> deep_merge_in_place (deep_merge_in_place a b) b = deep_merge_in_place a b"
proof (induction "size b" arbitrary: a b rule: less_induct)
  case less
  show ?case
  proof (cases "is_object a \<and> is_object b")
    case True
    then obtain x y where ab: "a = JObject x" "b = JObject y" by (auto elim!: is_object.elims)
    obtain z where z: "deep_merge_in_place a b = JObject z" "bt_inv z"
      and lk: "\<And>k. map_of z k = (case map_of y k of None \<Rightarrow> map_of x k
        | Some v \<Rightarrow> Some (case map_of x k of None \<Rightarrow> v | Some c \<Rightarrow> deep_merge_in_place c v))"
      using deep_merge_object less.prems by (auto simp: ab)
    have wz: "wf_json (JObject z)" using wf_deep_merge [OF less.prems] z by simp
    obtain z' where z': "deep_merge_in_place (JObject z) b = JObject z'" "bt_inv z'"
      and lk': "\<And>k. map_of z' k = (case map_of y k of None \<Rightarrow> map_of z k
        | Some v \<Rightarrow> Some (case map_of z k of None \<Rightarrow> v | Some c \<Rightarrow> deep_merge_in_place c v))"
      using deep_merge_object [OF wz] less.prems(2) by (auto simp: ab)
    have wx: "wf_json c" if "map_of x k = Some c" for k c
      using wf_json_lookup less.prems(1) that unfolding ab by blast
    have wy: "wf_json v \<and> size v < size b" if "map_of y k = Some v" for k v
      using wf_json_lookup less.prems(2) that unfolding ab by blast
    have "map_of z' k = map_of z k" for k
      using wx wy less.hyps by (auto simp: lk lk' deep_merge_self split: option.splits)
    then show ?thesis using z z' bt_ext by (auto simp: fun_eq_iff)
  qed (use less deep_merge_self in auto)
qed

subsection \<open>Message upsert\<close>

text \<open>
  The reference for the upsert: scan for the first message with the incoming id and replace
  it; append when there is none, or when the incoming message has no string id.
\<close>

fun upsert_one :: "json \<Rightarrow> json list \<Rightarrow> json list" where
  "upsert_one msg [] = [msg]"
| "upsert_one msg (m # ms) =
     (if msg_id msg \<noteq> None \<and> msg_id m = msg_id msg then msg # ms else m # upsert_one msg ms)"

fun pos_of :: "string \<Rightarrow> json list \<Rightarrow> nat option" where
  "pos_of i [] = None"
| "pos_of i (m # ms) = (if msg_id m = Some i then Some 0 else map_option Suc (pos_of i ms))"

lemma upsert_one_no_id: "msg_id msg = None \<Longrightarrow> upsert_one msg ms = ms @ [msg]"
  by (induction ms) auto

lemma upsert_one_pos:
  "msg_id msg = Some i \<Longrightarrow> upsert_one msg ms =
     (case pos_of i ms of None \<Rightarrow> ms @ [msg] | Some p \<Rightarrow> ms[p := msg])"
  by (induction ms) (auto split: option.splits)

lemma pos_of_update:
  "pos_of i ms = Some p \<Longrightarrow> msg_id msg = Some i \<Longrightarrow> pos_of j (ms[p := msg]) = pos_of j ms"
  by (induction ms arbitrary: p) (auto split: if_splits nat.splits)

lemma pos_of_snoc:
  "pos_of i (ms @ [msg]) = (case pos_of i ms of Some p \<Rightarrow> Some p
     | None \<Rightarrow> if msg_id msg = Some i then Some (length ms) else None)"
  by (induction ms) (auto split: option.splits)

lemma index_ids_pos:
  "index_ids n ms ix i = (case ix i of Some p \<Rightarrow> Some p | None \<Rightarrow> map_option (\<lambda>p. p + n) (pos_of i ms))"
  by (induction ms arbitrary: n ix) (auto split: option.splits simp: option.map_comp comp_def)

lemma upsert_loop_ref:
  "(\<And>i. ix i = pos_of i ms) \<Longrightarrow> upsert_loop incoming ms ix = fold upsert_one incoming ms"
proof (induction incoming arbitrary: ms ix)
  case (Cons msg incoming)
  show ?case
  proof (cases "msg_id msg")
    case None
    have "ix i = pos_of i (ms @ [msg])" for i
      using None Cons.prems by (simp add: pos_of_snoc split: option.splits)
    then show ?thesis using None Cons.IH by (simp add: upsert_one_no_id)
  next
    case (Some i)
    show ?thesis
    proof (cases "pos_of i ms")
      case None
      have "(ix(i \<mapsto> length ms)) j = pos_of j (ms @ [msg])" for j
        using Some None Cons.prems by (simp add: pos_of_snoc split: option.splits)
      then have "upsert_loop incoming (ms @ [msg]) (ix(i \<mapsto> length ms)) =
          fold upsert_one incoming (ms @ [msg])"
        by (intro Cons.IH)
      moreover have "ix i = None" using None Cons.prems by simp
      ultimately show ?thesis using Some None by (simp add: upsert_one_pos)
    next
      case p: (Some p)
      then have "ix j = pos_of j (ms[p := msg])" for j
        using Some Cons.prems by (simp add: pos_of_update)
      then have "upsert_loop incoming (ms[p := msg]) ix = fold upsert_one incoming (ms[p := msg])"
        by (intro Cons.IH)
      moreover have "ix i = Some p" using p Cons.prems by simp
      ultimately show ?thesis using Some p by (simp add: upsert_one_pos)
    qed
  qed
qed simp

lemma upsert_messages_ref:
  "upsert_messages_in_place ms update =
     fold upsert_one (case update of JArray items \<Rightarrow> items | single \<Rightarrow> [single]) ms"
  unfolding upsert_messages_in_place_def
  by (rule upsert_loop_ref) (simp add: index_ids_pos option.map_ident)

lemma map_filter_ids_upsert_one:
  "List.map_filter msg_id (upsert_one msg ms) =
     (let ids = List.map_filter msg_id ms in
      case msg_id msg of None \<Rightarrow> ids | Some i \<Rightarrow> if i \<in> set ids then ids else ids @ [i])"
  by (induction ms) (auto simp: List.map_filter_simps Let_def split: option.splits)

lemma upsert_ids_distinct:
  "distinct (List.map_filter msg_id ms) \<Longrightarrow> distinct (List.map_filter msg_id (fold upsert_one incoming ms))"
  by (induction incoming arbitrary: ms)
     (auto simp: map_filter_ids_upsert_one Let_def split: option.splits)


section \<open>Properties of the merges\<close>

text \<open>
  the indexed upsert of \<open>add_messages\<close> computes what the plain scan computes.  The hash
  index over message ids, built once and maintained through replacements and appends, always
  leads to the first message with the incoming id, for every existing array and every update.
\<close>

lemma upsert_messages_is_scan:
  "upsert_messages_in_place messages update =
     fold upsert_one (case update of JArray items \<Rightarrow> items | single \<Rightarrow> [single]) messages"
  by (rule upsert_messages_ref)

text \<open>
  message ids stay unique.  An array in which no two messages share a string id has that
  property after any upsert.
\<close>

lemma upsert_messages_ids_unique:
  assumes "distinct (List.map_filter msg_id messages)"
  shows "distinct (List.map_filter msg_id (upsert_messages_in_place messages update))"
  using assms by (simp add: upsert_messages_ref upsert_ids_distinct)

lemma upsert_messages_ids_unique_witness:
  "distinct (List.map_filter msg_id (upsert_messages_in_place
     [JObject [(''id'', JString ''a'')], JNull]
     (JArray [JObject [(''id'', JString ''a''), (''n'', JNull)], JObject [(''id'', JString ''b'')]])))"
  by (rule upsert_messages_ids_unique) code_simp

text \<open>
  what a deep merge holds.  Merging an object into an object gives an object that holds,
  under a key of one side only, that side's value, and under a key of both sides the merge of
  the two values; every other pair resolves to the update.
\<close>

lemma deep_merge_lookup:
  assumes "wf_json a" "wf_json b"
  shows "if is_object a \<and> is_object b
    then is_object (deep_merge a b) \<and>
      (\<forall>k. json_get (deep_merge a b) k =
        (case (json_get a k, json_get b k) of
           (Some c, Some v) \<Rightarrow> Some (deep_merge c v)
         | (x, None) \<Rightarrow> x
         | (None, y) \<Rightarrow> y))
    else deep_merge a b = b"
proof (cases "is_object a \<and> is_object b")
  case True
  then obtain x y where ab: "a = JObject x" "b = JObject y" by (auto elim!: is_object.elims)
  obtain z where z: "deep_merge_in_place (JObject x) (JObject y) = JObject z"
    and lk: "\<And>k. map_of z k = (case map_of y k of None \<Rightarrow> map_of x k
      | Some v \<Rightarrow> Some (case map_of x k of None \<Rightarrow> v | Some c \<Rightarrow> deep_merge_in_place c v))"
    using deep_merge_object [of x y] assms unfolding ab by blast
  show ?thesis
    unfolding ab deep_merge_def z by (simp add: lk split: option.split)
qed (auto simp: deep_merge_def)

lemma deep_merge_lookup_witness:
  "json_get (deep_merge (JObject [(''a'', JObject [(''p'', JNull)]), (''b'', JNull)])
      (JObject [(''a'', JObject [(''q'', JNull)])])) ''b'' = Some JNull"
proof -
  have "wf_json (JObject [(''a'', JObject [(''p'', JNull)]), (''b'', JNull)])"
    "wf_json (JObject [(''a'', JObject [(''q'', JNull)])])" by code_simp+
  from deep_merge_lookup [OF this] show ?thesis by (auto dest: spec [where x = "''b''"])
qed

text \<open>
  a deep merge is idempotent: merging the same update a second time changes nothing, so
  a repeated delivery of one update to a deep-merge channel is harmless.
\<close>

lemma deep_merge_idempotent:
  assumes "wf_json a" "wf_json b"
  shows "deep_merge (deep_merge a b) b = deep_merge a b"
  unfolding deep_merge_def using assms by (rule deep_merge_idem)

lemma deep_merge_idempotent_witness:
  "deep_merge (deep_merge (JObject [(''a'', JNull)]) (JObject [(''a'', JBool True), (''b'', JNull)]))
     (JObject [(''a'', JBool True), (''b'', JNull)]) =
   deep_merge (JObject [(''a'', JNull)]) (JObject [(''a'', JBool True), (''b'', JNull)])"
  by (rule deep_merge_idempotent; code_simp)

text \<open>
  the canonical form is what the content hashes need: two values that differ only in the
  order of object entries, at any depth, have the same canonical form, the canonical form has
  sorted keys throughout, and on values from the key-ordered map the transform is the identity.
\<close>

lemma canonicalize_value_canonical:
  assumes "distinct_keys v" "same_content v w"
  shows "canonicalize_value v = canonicalize_value w \<and> wf_json (canonicalize_value v) \<and>
    (wf_json w \<longrightarrow> canonicalize_value v = w)"
  using same_content_canonicalize [OF assms(2,1)] wf_canonicalize [OF assms(1)] canonicalize_wf_id [of w]
  by auto

lemma canonicalize_value_canonical_witness:
  "canonicalize_value (JObject [(''b'', JNull), (''a'', JBool True)]) =
   canonicalize_value (JObject [(''a'', JBool True), (''b'', JNull)])"
proof -
  have "same_content (JObject [(''b'', JNull), (''a'', JBool True)])
      (JObject [(''a'', JBool True), (''b'', JNull)])"
    by (rule same_object [where n' = "[(''b'', JNull), (''a'', JBool True)]"]) (auto intro: same_scalar)
  moreover have "distinct_keys (JObject [(''b'', JNull), (''a'', JBool True)])" by code_simp
  ultimately show ?thesis using canonicalize_value_canonical by blast
qed

end
