(* ===== verification/Rusty_Error.thy ===== *)
theory Rusty_Error
  imports Json
begin

text \<open>
  \<open>RustyError\<close> (error.rs).  Where a modelled component formats a message, the model keeps
  the kind of the message and the values it interpolates; a message that only code outside the
  modelled components writes is a plain string.
\<close>

datatype graph_fault =
    EmptyGraph
  | ReservedName string
  | NoEntryPoint
  | UnknownEntryPoint string
  | UnknownSource string
  | UnknownTarget string string
  | DuplicateEdge string string
  | SecondRouter string
  | MixedEdges
  | InboxQueueFull nat
  | InboxPendingFull nat nat
  | ActivatedUnknown string
  | GotoUnknown string
  | RouterUnknown string string
  | SendUnknown string string
  | GraphMessage string

datatype serialization_fault =
    NotSerializable
  | ExternalArtifacts
  | HeadMismatch string string
  | ArtifactMissing string
  | ArtifactCorrupt string string
  | ArtifactNotJson string
  | NotDecodable

datatype replay_fault =
    ReplayingInboxSend
  | IntakeUnresolvable string
  | IntakeMalformed string
  | CancelUnresolvable string
  | CancelMalformed string
  | NotServable string
  | ReplayExhausted string string
  | OrderViolation nat string string
  | NoRecordedInput string nat
  | ReplayDivergence nat string string string
  | RecordedKeyMissing nat string
  | RecordedOutputMissing string nat
  | RecordedInterrupted string nat
  | SnapshotArtifactCorrupt string string
  | SnapshotTruncated string string
  | ResumedRunUnsupported
  | StrayGateEvidence "nat list"
  | EffectsUnserved "(nat \<times> string) list"
  | IdentityMismatch string string string string
  | EnvelopeOnOneSide bool
  | EnvelopeDivergence string
  | EventCountMismatch nat nat
  | EventMismatch nat
  | ReplayArtifactMismatch
  | ReplayHeadMismatch string string
  | SecondDeclaration nat
  | DeclarationWithoutOutput nat
  | DeclarationUndecodable nat

datatype checkpoint_fault =
    DuplicateCheckpoint string string
  | EmptyChain
  | RootIsDelta string string
  | BrokenChain string "string option" string
  | UnsupportedFormat nat
  | UnreadableFile string
  | ChainCycle string
  | ChainTooLong nat
  | ForkOntoItself string
  | ForkNothing string
  | ForkUnknownCheckpoint string
  | NoCheckpointer
  | NoCheckpointFound string
  | ReplayUnknownCheckpoint string string

text \<open>The classes of a provider failure (error.rs) and of a failed attempt (durable.rs).\<close>

datatype llm_error_class =
    LlmRateLimited | LlmTimeout | LlmServer | LlmAuth | LlmInvalidRequest | LlmDecode | LlmUnknown

datatype error_class =
    Transient | RateLimited | Timeout | InvalidInput | DependencyFailure | ResourceExhausted
  | CancelledClass | UnknownClass

datatype cancel_fault =
    CancelledByToken nat string
  | CancelledByInbox string nat string
  | CancelMessage string

datatype rusty_error =
    Graph graph_fault
  | Node node_fault
  | Budget string
  | Transport bool string
  | Interrupt json
  | Checkpoint checkpoint_fault
  | Llm string
  | LlmFailure llm_error_class string
  | Tool string
  | Plugin string
  | Doctor string
  | Catalog string
  | Replay replay_fault
  | Serialization serialization_fault
  | InvalidUpdate update_fault
  | FrozenTierViolation string string string
  | Cancelled cancel_fault
  | Gap string
  | InvariantViolation string
  | ChunkAssemblyMismatch string string
and policy_fault =
    ZeroBase
  | BaseAboveCap nat nat
  | CapBeyondEnvelope nat
  | AttemptsBeyondEnvelope nat
  | PerClassFault error_class rusty_error
  | BelowMinimumRung string nat
  | DefaultAboveCeiling nat nat
  | CalleeAboveCeiling string nat nat
  | NoParallelWork
  | ContractMismatch string
  | OutsideEnvelope string rusty_error
  | NoParameterContract string
and update_fault =
    StateNotObject string
  | UndeclaredChannel string string
  | ReducerNeedsArray string string string string
  | SecondWrite string string string string
  | SendNotObject string json
  | PolicyParameters policy_fault
  | UpdateMessage string
and node_fault =
    NodeFailed string nat rusty_error
  | JoinFailed
  | NodeMessage string

fun is_interrupt :: "rusty_error \<Rightarrow> bool" where
  "is_interrupt (Interrupt _) = True"
| "is_interrupt _ = False"

fun interrupt_value :: "rusty_error \<Rightarrow> json option" where
  "interrupt_value (Interrupt value) = Some value"
| "interrupt_value _ = None"

definition llm_class :: "rusty_error \<Rightarrow> llm_error_class" where
  "llm_class e = (case e of LlmFailure c _ \<Rightarrow> c | _ \<Rightarrow> LlmUnknown)"

end
