(* ===== verification/Channel_State.thy ===== *)
theory Channel_State
  imports Rusty_Error
begin

text \<open>
  The channel state and its reducers (state.rs).  A state is an ordered map from channel
  names to JSON values; a state spec maps every declared channel to its reducer.  The
  operation at the centre is \<open>apply_super_step\<close>: it sorts the writes of one super-step by
  node name, validates all of them, and merges them channel by channel.

  An update map of one node (\<open>HashMap<String, Value>\<close>) is the list of its entries in some
  iteration order, with distinct keys (\<open>hash_map\<close>).  Values are shared between states
  through \<open>Arc\<close>; this theory is about the values, and \<open>Shared_State\<close> adds the sharing.
\<close>

section \<open>States\<close>

type_synonym channel_state = "(string \<times> json) list"

definition wf_state :: "channel_state \<Rightarrow> bool" where
  "wf_state st \<longleftrightarrow> bt_inv st \<and> (\<forall>kv \<in> set st. wf_json (snd kv))"

definition hash_map :: "(string \<times> 'v) list \<Rightarrow> bool" where
  "hash_map m \<longleftrightarrow> distinct (map fst m)"

definition state_new :: channel_state where
  "state_new = []"

definition state_from_map :: "(string \<times> json) list \<Rightarrow> channel_state" where
  "state_from_map inner = bt_of_list inner"

definition state_from_value :: "json \<Rightarrow> rusty_error + channel_state" where
  "state_from_value value =
     (case value of
        JObject inner \<Rightarrow> Ok (state_from_map inner)
      | other \<Rightarrow> Err (InvalidUpdate (StateNotObject (json_type_name other))))"

definition state_to_value :: "channel_state \<Rightarrow> json" where
  "state_to_value st = JObject (bt_of_list st)"

definition state_get :: "channel_state \<Rightarrow> string \<Rightarrow> json option" where
  "state_get st channel = map_of st channel"

definition state_contains :: "channel_state \<Rightarrow> string \<Rightarrow> bool" where
  "state_contains st channel \<longleftrightarrow> map_of st channel \<noteq> None"

definition state_insert :: "string \<Rightarrow> json \<Rightarrow> channel_state \<Rightarrow> channel_state" where
  "state_insert channel value st = bt_insert channel value st"

definition channels_changed_since :: "channel_state \<Rightarrow> channel_state \<Rightarrow> (string \<times> json) list" where
  "channels_changed_since st base =
     filter (\<lambda>(channel, value). case map_of base channel of
         Some base_value \<Rightarrow> value \<noteq> base_value
       | None \<Rightarrow> True) st"

section \<open>Reducers\<close>

datatype reducer = Overwrite | Append | DeepMerge | AddMessages

fun allows_multiple_writes :: "reducer \<Rightarrow> bool" where
  "allows_multiple_writes Overwrite = False"
| "allows_multiple_writes _ = True"

fun reducer_name :: "reducer \<Rightarrow> string" where
  "reducer_name Overwrite = ''overwrite''"
| "reducer_name Append = ''append''"
| "reducer_name DeepMerge = ''deep_merge''"
| "reducer_name AddMessages = ''add_messages''"

fun reducer_apply :: "reducer \<Rightarrow> json option \<Rightarrow> json \<Rightarrow> json" where
  "reducer_apply Overwrite current update = update"
| "reducer_apply Append current update =
     (case current of
        Some (JArray existing) \<Rightarrow> JArray (append_in_place existing update)
      | _ \<Rightarrow> (case update of JArray items \<Rightarrow> JArray items | single \<Rightarrow> JArray [single]))"
| "reducer_apply DeepMerge current update =
     (case current of Some cur \<Rightarrow> deep_merge cur update | None \<Rightarrow> update)"
| "reducer_apply AddMessages current update = add_messages current update"

section \<open>State specs and the super-step merge\<close>

type_synonym state_spec = "string \<rightharpoonup> reducer"

definition spec_new :: state_spec where
  "spec_new = Map.empty"

definition spec_channel :: "state_spec \<Rightarrow> string \<Rightarrow> reducer \<Rightarrow> state_spec" where
  "spec_channel spec name r = spec(name \<mapsto> r)"

definition reducer_for :: "state_spec \<Rightarrow> string \<Rightarrow> reducer" where
  "reducer_for spec channel = (case spec channel of Some r \<Rightarrow> r | None \<Rightarrow> Overwrite)"

definition try_reducer_for :: "state_spec \<Rightarrow> string \<Rightarrow> reducer option" where
  "try_reducer_for spec channel = spec channel"

definition has_channel :: "state_spec \<Rightarrow> string \<Rightarrow> bool" where
  "has_channel spec channel \<longleftrightarrow> spec channel \<noteq> None"

text \<open>The writes of one super-step: one entry per node invocation.\<close>

type_synonym updates = "(string \<times> json) list"
type_synonym node_write = "string \<times> updates"

text \<open>
  The validation loop carries the write count of each channel and its first writer.
\<close>

type_synonym write_log = "(string \<Rightarrow> nat) \<times> (string \<rightharpoonup> string)"

definition count_write :: "string \<Rightarrow> string \<Rightarrow> reducer \<Rightarrow> write_log \<Rightarrow> rusty_error + write_log" where
  "count_write node channel r log =
     (let write_counts = (fst log)(channel := Suc (fst log channel));
          first_writer = (case snd log channel of
              None \<Rightarrow> (snd log)(channel \<mapsto> node) | Some _ \<Rightarrow> snd log)
      in if 1 < write_counts channel \<and> \<not> allows_multiple_writes r
         then Err (InvalidUpdate
           (SecondWrite channel (reducer_name r) (the (first_writer channel)) node))
         else Ok (write_counts, first_writer))"

definition validate_channel ::
  "state_spec \<Rightarrow> channel_state \<Rightarrow> string \<Rightarrow> string \<Rightarrow> write_log \<Rightarrow> rusty_error + write_log" where
  "validate_channel spec st node channel log =
     (case try_reducer_for spec channel of
        None \<Rightarrow> Err (InvalidUpdate (UndeclaredChannel node channel))
      | Some r \<Rightarrow>
         (case (if r = Append \<or> r = AddMessages then state_get st channel else None) of
            Some current \<Rightarrow>
              if \<not> is_array current
              then Err (InvalidUpdate
                (ReducerNeedsArray node channel (reducer_name r) (json_type_name current)))
              else count_write node channel r log
          | None \<Rightarrow> count_write node channel r log))"

fun validate_updates ::
  "state_spec \<Rightarrow> channel_state \<Rightarrow> string \<Rightarrow> updates \<Rightarrow> write_log \<Rightarrow> rusty_error + write_log" where
  "validate_updates spec st node [] log = Ok log"
| "validate_updates spec st node ((channel, u) # us) log =
     rbind (validate_channel spec st node channel log) (validate_updates spec st node us)"

fun validate_writes ::
  "state_spec \<Rightarrow> channel_state \<Rightarrow> node_write list \<Rightarrow> write_log \<Rightarrow> rusty_error + write_log" where
  "validate_writes spec st [] log = Ok log"
| "validate_writes spec st ((node, us) # ws) log =
     rbind (validate_updates spec st node us log) (validate_writes spec st ws)"

definition merge_update :: "state_spec \<Rightarrow> string \<times> json \<Rightarrow> channel_state \<Rightarrow> channel_state" where
  "merge_update spec cu st =
     (let current = map_of st (fst cu);
          merged = reducer_apply (reducer_for spec (fst cu)) current (snd cu)
      in bt_insert (fst cu) merged (bt_remove (fst cu) st))"

definition merge_writes :: "state_spec \<Rightarrow> node_write list \<Rightarrow> channel_state \<Rightarrow> channel_state" where
  "merge_writes spec ws st = fold (\<lambda>w. fold (merge_update spec) (snd w)) ws st"

text \<open>
  The state is updated in place, so the model returns the state after the call next to the
  result, on the error branches too.
\<close>

definition apply_super_step ::
  "state_spec \<Rightarrow> channel_state \<Rightarrow> node_write list \<Rightarrow> channel_state \<times> (rusty_error + unit)" where
  "apply_super_step spec st ws =
     (let collected = sort_key fst ws
      in case validate_writes spec st collected (\<lambda>_. 0, Map.empty) of
           Inl e \<Rightarrow> (st, Err e)
         | Inr _ \<Rightarrow> (merge_writes spec collected st, Ok ()))"

definition apply_single ::
  "state_spec \<Rightarrow> channel_state \<Rightarrow> string \<Rightarrow> updates \<Rightarrow> channel_state \<times> (rusty_error + unit)" where
  "apply_single spec st node us = apply_super_step spec st [(node, us)]"

section \<open>Validation\<close>

text \<open>
  The condition under which a super-step's writes are admitted: every written channel is
  declared, an array reducer finds an array or nothing, and a single-write channel is written
  by one invocation only.
\<close>

definition write_seq :: "node_write list \<Rightarrow> (string \<times> string) list" where
  "write_seq ws = concat (map (\<lambda>w. map (\<lambda>cu. (fst w, fst cu)) (snd w)) ws)"

definition writers :: "node_write list \<Rightarrow> string \<Rightarrow> nat" where
  "writers ws channel = length (filter (\<lambda>w. map_of (snd w) channel \<noteq> None) ws)"

definition channel_admits :: "state_spec \<Rightarrow> channel_state \<Rightarrow> string \<Rightarrow> nat \<Rightarrow> bool" where
  "channel_admits spec st channel n =
     (case spec channel of
        None \<Rightarrow> False
      | Some Overwrite \<Rightarrow> n \<le> 1
      | Some DeepMerge \<Rightarrow> True
      | Some _ \<Rightarrow> (case map_of st channel of None \<Rightarrow> True | Some cur \<Rightarrow> is_array cur))"

definition admissible :: "state_spec \<Rightarrow> channel_state \<Rightarrow> node_write list \<Rightarrow> bool" where
  "admissible spec st ws \<longleftrightarrow>
     (\<forall>w \<in> set ws. \<forall>cu \<in> set (snd w). channel_admits spec st (fst cu) (writers ws (fst cu)))"

fun validate_seq ::
  "state_spec \<Rightarrow> channel_state \<Rightarrow> (string \<times> string) list \<Rightarrow> write_log \<Rightarrow> rusty_error + write_log" where
  "validate_seq spec st [] log = Ok log"
| "validate_seq spec st ((node, channel) # ncs) log =
     rbind (validate_channel spec st node channel log) (validate_seq spec st ncs)"

lemma validate_seq_append:
  "validate_seq spec st (xs @ ys) log = rbind (validate_seq spec st xs log) (validate_seq spec st ys)"
proof (induction xs arbitrary: log)
  case (Cons nc xs)
  then have "validate_seq spec st (xs @ ys) =
      (\<lambda>log. rbind (validate_seq spec st xs log) (validate_seq spec st ys))" by (rule ext)
  then show ?case by (cases nc) (simp add: rbind_assoc)
qed simp

lemma validate_updates_seq:
  "validate_updates spec st node us log = validate_seq spec st (map (\<lambda>cu. (node, fst cu)) us) log"
proof (induction us arbitrary: log)
  case (Cons cu us)
  then have "validate_updates spec st node us =
      validate_seq spec st (map (\<lambda>cu. (node, fst cu)) us)" by (simp add: fun_eq_iff)
  then show ?case by (cases cu) simp
qed simp

lemma validate_writes_seq: "validate_writes spec st ws log = validate_seq spec st (write_seq ws) log"
proof (induction ws arbitrary: log)
  case (Cons w ws)
  then have "validate_writes spec st ws = validate_seq spec st (write_seq ws)"
    by (simp add: fun_eq_iff)
  then show ?case
    by (cases w) (simp add: write_seq_def validate_seq_append validate_updates_seq)
qed (simp add: write_seq_def)

lemma validate_channel_ok_iff:
  "is_ok (validate_channel spec st node channel log) \<longleftrightarrow>
     channel_admits spec st channel (Suc (fst log channel))"
  by (auto simp: validate_channel_def count_write_def channel_admits_def try_reducer_for_def
        state_get_def Let_def split: option.splits reducer.splits)

lemma validate_channel_counts:
  "validate_channel spec st node channel log = Inr log' \<Longrightarrow>
     fst log' = (fst log)(channel := Suc (fst log channel))"
  by (auto simp: validate_channel_def count_write_def Let_def split: option.splits if_splits)

lemma channel_admits_mono: "channel_admits spec st ch n \<Longrightarrow> m \<le> n \<Longrightarrow> channel_admits spec st ch m"
  by (auto simp: channel_admits_def split: option.splits reducer.splits)

lemma validate_seq_ok_iff:
  "is_ok (validate_seq spec st ncs log) \<longleftrightarrow>
     (\<forall>nc \<in> set ncs. channel_admits spec st (snd nc) (fst log (snd nc) + count_list (map snd ncs) (snd nc)))"
proof (induction ncs arbitrary: log)
  case (Cons nc ncs)
  obtain node ch where nc: "nc = (node, ch)" by (cases nc)
  show ?case
  proof (cases "validate_channel spec st node ch log")
    case (Inl e)
    then have "\<not> channel_admits spec st ch (Suc (fst log ch))"
      using validate_channel_ok_iff [of spec st node ch log] by simp
    then have "\<not> channel_admits spec st ch (fst log ch + count_list (map snd (nc # ncs)) ch)"
      using channel_admits_mono [of spec st ch "fst log ch + count_list (map snd (nc # ncs)) ch"
          "Suc (fst log ch)"] nc by auto
    then show ?thesis using Inl nc by auto
  next
    case (Inr log')
    then have "channel_admits spec st ch (Suc (fst log ch))"
      using validate_channel_ok_iff [of spec st node ch log] by simp
    moreover note cnt = validate_channel_counts [OF Inr]
    have "channel_admits spec st ch (Suc (fst log ch + count_list (map snd ncs) ch))
        \<longleftrightarrow> channel_admits spec st ch (Suc (fst log ch)) \<and>
           (ch \<in> snd ` set ncs \<longrightarrow> channel_admits spec st ch (Suc (fst log ch + count_list (map snd ncs) ch)))"
      using channel_admits_mono [of spec st ch _ "Suc (fst log ch)"]
      by (cases "ch \<in> snd ` set ncs") (auto simp: count_list_0_iff)
    ultimately show ?thesis using Inr nc Cons.IH [of log'] by (auto simp: cnt)
  qed
qed simp


lemma count_list_keys:
  assumes "distinct (map fst m)"
  shows "count_list (map fst m) k = (if map_of m k \<noteq> None then 1 else 0)"
proof -
  have "count_list (map fst m) k = (if k \<in> fst ` set m then 1 else 0)"
    using assms by (induction m) (auto simp: count_list_0_iff)
  then show ?thesis by (simp add: map_of_eq_None_iff)
qed

lemma count_write_seq:
  "(\<forall>w \<in> set ws. hash_map (snd w)) \<Longrightarrow> count_list (map snd (write_seq ws)) ch = writers ws ch"
proof (induction ws)
  case (Cons w ws)
  have "map snd (write_seq (w # ws)) = map fst (snd w) @ map snd (write_seq ws)"
    by (simp add: write_seq_def)
  then show ?case
    using Cons count_list_keys [of "snd w" ch]
    by (simp add: writers_def hash_map_def del: not_None_eq)
qed (simp add: write_seq_def writers_def)

lemma writers_sort [simp]: "writers (sort_key f ws) ch = writers ws ch"
proof -
  have "mset (filter (\<lambda>w. map_of (snd w) ch \<noteq> None) (sort_key f ws)) =
      mset (filter (\<lambda>w. map_of (snd w) ch \<noteq> None) ws)" by simp
  then show ?thesis unfolding writers_def by (rule mset_eq_length)
qed

lemma ball_write_seq:
  "(\<forall>nc \<in> set (write_seq ws). P (snd nc)) \<longleftrightarrow> (\<forall>w \<in> set ws. \<forall>cu \<in> set (snd w). P (fst cu))"
  by (simp add: write_seq_def)

lemma validate_writes_ok_iff:
  assumes "\<forall>w \<in> set ws. hash_map (snd w)"
  shows "is_ok (validate_writes spec st ws (\<lambda>_. 0, Map.empty)) \<longleftrightarrow> admissible spec st ws"
  by (simp add: validate_writes_seq validate_seq_ok_iff count_write_seq [OF assms] admissible_def
      ball_write_seq [where P = "\<lambda>c. channel_admits spec st c (writers ws c)"])

lemma admissible_sort [simp]: "admissible spec st (sort_key f ws) \<longleftrightarrow> admissible spec st ws"
  by (simp add: admissible_def)

lemma apply_super_step_eq:
  assumes "\<forall>w \<in> set ws. hash_map (snd w)"
  shows "if admissible spec st ws
    then apply_super_step spec st ws = (merge_writes spec (sort_key fst ws) st, Ok ())
    else \<exists>e. apply_super_step spec st ws = (st, Err e)"
proof -
  have "is_ok (validate_writes spec st (sort_key fst ws) (\<lambda>_. 0, Map.empty)) \<longleftrightarrow> admissible spec st ws"
    using assms validate_writes_ok_iff [of "sort_key fst ws" spec st] by simp
  then show ?thesis
    by (cases "validate_writes spec st (sort_key fst ws) (\<lambda>_. 0, Map.empty)")
       (auto simp: apply_super_step_def Let_def)
qed

section \<open>Merging\<close>

definition channel_writes :: "string \<Rightarrow> node_write list \<Rightarrow> json list" where
  "channel_writes ch ws = List.map_filter (\<lambda>w. map_of (snd w) ch) ws"

definition merge_channel :: "reducer \<Rightarrow> json list \<Rightarrow> json option \<Rightarrow> json option" where
  "merge_channel r us cur = fold (\<lambda>u cur. Some (reducer_apply r cur u)) us cur"

lemma merge_update_insert:
  "bt_inv st \<Longrightarrow> merge_update spec cu st =
     bt_insert (fst cu) (reducer_apply (reducer_for spec (fst cu)) (map_of st (fst cu)) (snd cu)) st"
  by (simp add: merge_update_def Let_def bt.ins_del)

lemma bt_inv_merge_updates [simp]: "bt_inv st \<Longrightarrow> bt_inv (fold (merge_update spec) us st)"
  by (induction us arbitrary: st) (auto simp: merge_update_insert)

lemma bt_inv_merge_writes [simp]: "bt_inv st \<Longrightarrow> bt_inv (merge_writes spec ws st)"
  unfolding merge_writes_def by (induction ws arbitrary: st) auto

lemma map_of_merge_updates:
  "bt_inv st \<Longrightarrow> hash_map us \<Longrightarrow> map_of (fold (merge_update spec) us st) ch =
     (case map_of us ch of
        None \<Rightarrow> map_of st ch
      | Some u \<Rightarrow> Some (reducer_apply (reducer_for spec ch) (map_of st ch) u))"
proof (induction us arbitrary: st)
  case (Cons cu us)
  then have "map_of us (fst cu) = None" by (simp add: hash_map_def map_of_eq_None_iff)
  then show ?case
    using Cons by (cases cu) (auto simp: merge_update_insert hash_map_def split: option.splits)
qed simp

lemma map_of_merge_writes:
  assumes "bt_inv st" "\<forall>w \<in> set ws. hash_map (snd w)"
  shows "map_of (merge_writes spec ws st) ch =
    merge_channel (reducer_for spec ch) (channel_writes ch ws) (map_of st ch)"
  using assms
proof (induction ws arbitrary: st)
  case (Cons w ws)
  have "merge_writes spec (w # ws) st = merge_writes spec ws (fold (merge_update spec) (snd w) st)"
    by (simp add: merge_writes_def)
  then show ?case
    using Cons by (auto simp: map_of_merge_updates channel_writes_def merge_channel_def
        List.map_filter_simps split: option.splits)
qed (simp add: merge_writes_def channel_writes_def merge_channel_def List.map_filter_simps)

lemma merge_channel_Nil [simp]: "merge_channel r [] cur = cur"
  by (simp add: merge_channel_def)

lemma channel_writes_empty: "channel_writes ch ws = [] \<longleftrightarrow> (\<forall>w \<in> set ws. map_of (snd w) ch = None)"
  by (induction ws) (auto simp: channel_writes_def List.map_filter_simps split: option.splits)

subsection \<open>Well-formed values stay well-formed\<close>

lemma wf_append_in_place:
  "(\<forall>x \<in> set xs. wf_json x) \<Longrightarrow> wf_json u \<Longrightarrow> \<forall>x \<in> set (append_in_place xs u). wf_json x"
  by (cases u) (auto simp: append_in_place_def)

lemma set_upsert_one: "set (upsert_one u xs) \<subseteq> insert u (set xs)"
  by (induction xs) auto

lemma set_upsert_all: "set (fold upsert_one us xs) \<subseteq> set us \<union> set xs"
proof (induction us arbitrary: xs)
  case (Cons u us)
  then show ?case using Cons [of "upsert_one u xs"] set_upsert_one [of u xs] by auto
qed simp

lemma wf_upsert_all:
  "(\<forall>x \<in> set xs. wf_json x) \<Longrightarrow> (\<forall>u \<in> set us. wf_json u) \<Longrightarrow>
     \<forall>x \<in> set (fold upsert_one us xs). wf_json x"
  using set_upsert_all [of us xs] by blast

lemma wf_reducer_apply:
  assumes "wf_json u" "\<forall>c. cur = Some c \<longrightarrow> wf_json c"
  shows "wf_json (reducer_apply r cur u)"
proof (cases r)
  case Append
  have "wf_json (case u of JArray items \<Rightarrow> JArray items | single \<Rightarrow> JArray [single])"
    using assms(1) by (cases u) simp_all
  then show ?thesis
    using Append assms(2) wf_append_in_place [OF _ assms(1)] by (cases cur) (auto split: json.split)
next
  case AddMessages
  have "\<forall>x \<in> set (case cur of Some (JArray xs) \<Rightarrow> xs | _ \<Rightarrow> []). wf_json x"
    using assms(2) by (cases cur; cases "the cur") auto
  moreover have "\<forall>x \<in> set (case u of JArray items \<Rightarrow> items | single \<Rightarrow> [single]). wf_json x"
    using assms(1) by (cases u) simp_all
  ultimately show ?thesis
    unfolding AddMessages reducer_apply.simps add_messages_def upsert_messages_ref wf_json.simps
    by (rule wf_upsert_all)
qed (use assms in \<open>auto simp: deep_merge_def wf_deep_merge split: option.splits\<close>)

lemma wf_state_lookup: "wf_state st \<longleftrightarrow> bt_inv st \<and> (\<forall>k v. map_of st k = Some v \<longrightarrow> wf_json v)"
  unfolding wf_state_def using bt_values by blast

lemma wf_state_insert: "wf_state st \<Longrightarrow> wf_json v \<Longrightarrow> wf_state (bt_insert k v st)"
  by (auto simp: wf_state_lookup)

lemma wf_merge_update:
  assumes "wf_state st" "wf_json (snd cu)"
  shows "wf_state (merge_update spec cu st)"
proof -
  have "wf_json (reducer_apply (reducer_for spec (fst cu)) (map_of st (fst cu)) (snd cu))"
    using assms by (intro wf_reducer_apply) (simp_all add: wf_state_lookup)
  then show ?thesis
    using assms(1) by (simp add: merge_update_insert wf_state_insert wf_state_def [THEN iffD1])
qed

lemma wf_merge_updates:
  "wf_state st \<Longrightarrow> (\<forall>cu \<in> set us. wf_json (snd cu)) \<Longrightarrow> wf_state (fold (merge_update spec) us st)"
  by (induction us arbitrary: st) (simp_all add: wf_merge_update)

lemma wf_merge_writes:
  "wf_state st \<Longrightarrow> (\<forall>w \<in> set ws. \<forall>cu \<in> set (snd w). wf_json (snd cu)) \<Longrightarrow>
     wf_state (merge_writes spec ws st)"
  unfolding merge_writes_def by (induction ws arbitrary: st) (simp_all add: wf_merge_updates)


subsection \<open>Order independence\<close>

text \<open>
  Two collections of writes that a caller cannot tell apart: the invocations of every node
  are listed in the same order, and each invocation's update map has the same entries (a hash
  map may list them in any order).
\<close>

definition writes_equiv :: "node_write list \<Rightarrow> node_write list \<Rightarrow> bool" where
  "writes_equiv ws ws' \<longleftrightarrow>
     (\<forall>n. map (\<lambda>w. mset (snd w)) (filter (\<lambda>w. fst w = n) ws) =
          map (\<lambda>w. mset (snd w)) (filter (\<lambda>w. fst w = n) ws'))"

lemma sort_key_map: "(\<And>x. g (c x) = f x) \<Longrightarrow> sort_key g (map c xs) = map c (sort_key f xs)"
proof (induction xs)
  case (Cons a xs)
  have "insort_key g (c a) (map c ys) = map c (insort_key f a ys)" for ys
    using Cons.prems by (induction ys) auto
  then show ?case using Cons by simp
qed simp

lemma mset_from_filters:
  assumes "\<And>k. filter (\<lambda>x. f x = k) xs = filter (\<lambda>x. f x = k) ys"
  shows "mset xs = mset ys"
proof (rule multiset_eqI)
  fix x
  have "count (mset xs) x = count (mset (filter (\<lambda>y. f y = f x) xs)) x" by simp
  also have "\<dots> = count (mset ys) x" by (simp add: assms)
  finally show "count (mset xs) x = count (mset ys) x" .
qed

lemma sort_key_from_filters:
  assumes "\<And>k. filter (\<lambda>x. f x = k) xs = filter (\<lambda>x. f x = k) ys"
  shows "sort_key f xs = sort_key f ys"
proof (rule properties_for_sort_key)
  show "mset (sort_key f ys) = mset xs" using mset_from_filters [of f xs ys] assms by simp
  fix k
  show "filter (\<lambda>x. f k = f x) (sort_key f ys) = filter (\<lambda>x. f k = f x) xs"
    using assms [of "f k"] sort_key_stable [of f "f k" ys] by (simp add: eq_commute [of "f k"])
qed simp

lemma writes_equiv_sort:
  assumes "writes_equiv ws ws'"
  shows "map (\<lambda>w. (fst w, mset (snd w))) (sort_key fst ws) =
         map (\<lambda>w. (fst w, mset (snd w))) (sort_key fst ws')"
proof -
  let ?c = "\<lambda>w. (fst w, mset (snd w))"
  have "filter (\<lambda>x. fst x = n) (map ?c vs) =
      map (Pair n) (map (\<lambda>w. mset (snd w)) (filter (\<lambda>w. fst w = n) vs))" for n and vs :: "node_write list"
    by (induction vs) auto
  then have "sort_key fst (map ?c ws) = sort_key fst (map ?c ws')"
    using assms by (intro sort_key_from_filters) (simp add: writes_equiv_def del: map_map)
  then show ?thesis by (simp add: sort_key_map [where f = fst])
qed

lemma map_of_mset: "hash_map m \<Longrightarrow> mset m = mset m' \<Longrightarrow> map_of m = map_of m'"
  unfolding hash_map_def
  by (metis map_of_inject_set mset_eq_imp_distinct_iff mset_map set_mset_mset)

lemma sorted_writes_lookup:
  assumes "writes_equiv ws ws'" "\<forall>w \<in> set ws. hash_map (snd w)"
  shows "map (\<lambda>w. map_of (snd w)) (sort_key fst ws) = map (\<lambda>w. map_of (snd w)) (sort_key fst ws')"
proof -
  have "list_all2 (\<lambda>w w'. mset (snd w) = mset (snd w')) (sort_key fst ws) (sort_key fst ws')"
    using writes_equiv_sort [OF assms(1)]
    by (auto simp: list_all2_conv_all_nth list_eq_iff_nth_eq)
  then have "list_all2 (\<lambda>w w'. map_of (snd w) = map_of (snd w')) (sort_key fst ws) (sort_key fst ws')"
    using assms(2) by (elim list.rel_mono_strong) (simp add: map_of_mset)
  then show ?thesis by (auto simp: list_all2_conv_all_nth list_eq_iff_nth_eq)
qed

lemma channel_writes_lookup:
  "channel_writes ch ws = List.map_filter (\<lambda>f. f ch) (map (\<lambda>w. map_of (snd w)) ws)"
  by (simp add: channel_writes_def List.map_filter_def filter_map comp_def)

lemma writers_lookup:
  "writers ws ch = length (filter (\<lambda>f. f ch \<noteq> None) (map (\<lambda>w. map_of (snd w)) ws))"
  by (simp add: writers_def filter_map comp_def)

lemma ball_map_keys: "(\<forall>cu \<in> set m. P (fst cu)) \<longleftrightarrow> (\<forall>ch. map_of m ch \<noteq> None \<longrightarrow> P ch)"
  by (simp only: map_of_eq_None_iff) blast

lemma admissible_lookup:
  "admissible spec st ws \<longleftrightarrow>
     (\<forall>f \<in> set (map (\<lambda>w. map_of (snd w)) ws). \<forall>ch. f ch \<noteq> None \<longrightarrow> channel_admits spec st ch (writers ws ch))"
  unfolding admissible_def
  by (simp only: ball_map_keys [where P = "\<lambda>c. channel_admits spec st c (writers ws c)"] set_map ball_simps)

lemma writes_equiv_admissible:
  assumes "writes_equiv ws ws'" "\<forall>w \<in> set ws. hash_map (snd w)"
  shows "admissible spec st ws \<longleftrightarrow> admissible spec st ws'"
proof -
  note eq = sorted_writes_lookup [OF assms]
  have "admissible spec st (sort_key fst ws) \<longleftrightarrow> admissible spec st (sort_key fst ws')"
    by (simp only: admissible_lookup writers_lookup eq)
  then show ?thesis by simp
qed

lemma writes_equiv_hash_map:
  assumes "writes_equiv ws ws'" "\<forall>w \<in> set ws. hash_map (snd w)"
  shows "\<forall>w \<in> set ws'. hash_map (snd w)"
proof
  fix w' assume "w' \<in> set ws'"
  then have "(fst w', mset (snd w')) \<in> set (map (\<lambda>w. (fst w, mset (snd w))) (sort_key fst ws'))" by simp
  then obtain w where "w \<in> set ws" "mset (snd w) = mset (snd w')"
    by (auto simp flip: writes_equiv_sort [OF assms(1)])
  then show "hash_map (snd w')"
    using assms(2) unfolding hash_map_def by (metis mset_eq_imp_distinct_iff mset_map)
qed

lemma writes_equiv_merge:
  assumes "writes_equiv ws ws'" "\<forall>w \<in> set ws. hash_map (snd w)" "bt_inv st"
  shows "merge_writes spec (sort_key fst ws) st = merge_writes spec (sort_key fst ws') st"
proof (rule bt_ext)
  have "\<forall>w \<in> set (sort_key fst ws). hash_map (snd w)" "\<forall>w \<in> set (sort_key fst ws'). hash_map (snd w)"
    using assms(2) writes_equiv_hash_map [OF assms(1,2)] by simp_all
  then show "map_of (merge_writes spec (sort_key fst ws) st) = map_of (merge_writes spec (sort_key fst ws') st)"
    using assms(3) sorted_writes_lookup [OF assms(1,2)]
    by (simp add: fun_eq_iff map_of_merge_writes channel_writes_lookup)
qed (use assms(3) in simp_all)


section \<open>Properties of the super-step merge\<close>

text \<open>
  C7: the contract of the super-step merge.  When every written channel is declared, every
  array channel holds an array or nothing and every single-write channel is written once, the
  call succeeds and each channel holds its reducer folded over the updates to it in node-name
  order (a channel nobody wrote keeps its value).  Otherwise the call fails and the state it
  was given is untouched.
\<close>

theorem apply_super_step_contract:
  assumes "wf_state st" "\<forall>w \<in> set ws. hash_map (snd w)"
  shows "if admissible spec st ws
    then snd (apply_super_step spec st ws) = Ok () \<and>
      (\<forall>ch. state_get (fst (apply_super_step spec st ws)) ch =
        merge_channel (reducer_for spec ch) (channel_writes ch (sort_key fst ws)) (state_get st ch))
    else \<exists>e. apply_super_step spec st ws = (st, Err e)"
  using apply_super_step_eq [OF assms(2), of spec st] assms
  by (auto simp: state_get_def wf_state_def map_of_merge_writes split: if_splits)

definition demo_spec :: state_spec where
  "demo_spec = spec_channel (spec_channel spec_new ''log'' Append) ''last'' Overwrite"

definition demo_state :: channel_state where
  "demo_state = [(''log'', JArray [JNull])]"

definition demo_writes :: "node_write list" where
  "demo_writes =
     [(''b'', [(''log'', JBool True)]), (''a'', [(''last'', JNull), (''log'', JArray [JBool False])])]"

lemma demo_admissible: "admissible demo_spec demo_state demo_writes"
  by code_simp

lemma demo_hash_maps: "\<forall>w \<in> set demo_writes. hash_map (snd w)"
  by code_simp

lemma demo_wf: "wf_state demo_state"
  by code_simp

theorem apply_super_step_contract_witness:
  "state_get (fst (apply_super_step demo_spec demo_state demo_writes)) ''log'' =
     Some (JArray [JNull, JBool False, JBool True])"
proof -
  have "merge_channel (reducer_for demo_spec ''log'')
      (channel_writes ''log'' (sort_key fst demo_writes)) (state_get demo_state ''log'') =
      Some (JArray [JNull, JBool False, JBool True])" by code_simp
  then show ?thesis
    using apply_super_step_contract [OF demo_wf demo_hash_maps, of demo_spec] demo_admissible by simp
qed

text \<open>
  C8: the merge does not depend on the order in which the tasks of a super-step hand in
  their writes, nor on the iteration order of their update maps: two collections with the
  same invocations of each node in the same order give the same state, and both succeed or
  both fail.
\<close>

theorem apply_super_step_deterministic:
  assumes "wf_state st" "\<forall>w \<in> set ws. hash_map (snd w)" "writes_equiv ws ws'"
  shows "fst (apply_super_step spec st ws) = fst (apply_super_step spec st ws') \<and>
    is_ok (snd (apply_super_step spec st ws)) = is_ok (snd (apply_super_step spec st ws'))"
proof -
  note hm = writes_equiv_hash_map [OF assms(3,2)]
  have "merge_writes spec (sort_key fst ws) st = merge_writes spec (sort_key fst ws') st"
    using assms by (intro writes_equiv_merge) (simp_all add: wf_state_def)
  then show ?thesis
    using apply_super_step_eq [OF assms(2), of spec st] apply_super_step_eq [OF hm, of spec st]
      writes_equiv_admissible [OF assms(3,2), of spec st]
    by (auto split: if_splits)
qed

lemma demo_writes_equiv: "writes_equiv demo_writes
   [(''a'', [(''log'', JArray [JBool False]), (''last'', JNull)]), (''b'', [(''log'', JBool True)])]"
  by (auto simp: writes_equiv_def demo_writes_def)

theorem apply_super_step_deterministic_witness:
  "fst (apply_super_step demo_spec demo_state demo_writes) =
   fst (apply_super_step demo_spec demo_state
     [(''a'', [(''log'', JArray [JBool False]), (''last'', JNull)]), (''b'', [(''log'', JBool True)])])"
  using apply_super_step_deterministic [OF demo_wf demo_hash_maps demo_writes_equiv, of demo_spec]
  by simp

text \<open>
  the state invariant.  Sorted channels and well-formed values survive the merge of any
  well-formed writes, whether it succeeds or fails, and no merge removes a channel.
\<close>

lemma apply_super_step_invariant:
  assumes "wf_state st" "\<forall>w \<in> set ws. hash_map (snd w) \<and> (\<forall>cu \<in> set (snd w). wf_json (snd cu))"
  shows "wf_state (fst (apply_super_step spec st ws)) \<and>
    (\<forall>ch. state_contains st ch \<longrightarrow> state_contains (fst (apply_super_step spec st ws)) ch)"
proof -
  have keep: "merge_channel r us (Some v) \<noteq> None" for r us v
    by (induction us arbitrary: v) (auto simp: merge_channel_def)
  have "\<forall>w \<in> set ws. hash_map (snd w)" using assms(2) by blast
  note eq = apply_super_step_eq [OF this, of spec st]
  show ?thesis
  proof (cases "admissible spec st ws")
    case True
    have "wf_state (merge_writes spec (sort_key fst ws) st)"
      using assms by (intro wf_merge_writes) simp_all
    moreover have "state_contains (merge_writes spec (sort_key fst ws) st) ch"
      if "state_contains st ch" for ch
      using that assms keep by (auto simp: state_contains_def map_of_merge_writes wf_state_def)
    ultimately show ?thesis using eq True by simp
  qed (use eq assms(1) in auto)
qed

lemma apply_super_step_invariant_witness:
  "wf_state (fst (apply_super_step demo_spec demo_state demo_writes))"
proof -
  have "\<forall>w \<in> set demo_writes. hash_map (snd w) \<and> (\<forall>cu \<in> set (snd w). wf_json (snd cu))"
    by code_simp
  then show ?thesis using apply_super_step_invariant [OF demo_wf, of demo_writes demo_spec] by blast
qed

end
