(* ===== verification/Agent_Graph.thy ===== *)
theory Agent_Graph
  imports Channel_State "HOL-Library.AList"
begin

text \<open>
  Nodes, graphs and the graph compiler (node.rs, graph.rs, and \<open>Effect\<close> of rusty-api).

  A node's body and a router are code of the embedding application: they are functions, and
  everything proved holds for all of them.  The collections a \<open>HashMap\<close> or \<open>HashSet\<close> holds are
  lists in iteration order, or sets where the code never iterates.  The hash function behind
  \<open>topology_hash\<close> (the sha2 crate) is a parameter.
\<close>

section \<open>Effects\<close>

datatype effect = Pure | ReadOnly | Idempotent | Compensatable | NonIdempotent

fun is_freely_repeatable :: "effect \<Rightarrow> bool" where
  "is_freely_repeatable Pure = True"
| "is_freely_repeatable ReadOnly = True"
| "is_freely_repeatable Idempotent = True"
| "is_freely_repeatable _ = False"

text \<open>The derived \<open>Ord\<close> of the enum: declaration order is the severity ladder.\<close>

primrec effect_rank :: "effect \<Rightarrow> nat" where
  "effect_rank Pure = 0"
| "effect_rank ReadOnly = 1"
| "effect_rank Idempotent = 2"
| "effect_rank Compensatable = 3"
| "effect_rank NonIdempotent = 4"

lemma effect_rank_inj: "effect_rank a = effect_rank b \<Longrightarrow> a = b"
  by (cases a; cases b) auto

instantiation effect :: linorder
begin

definition less_eq_effect :: "effect \<Rightarrow> effect \<Rightarrow> bool" where
  "less_eq_effect a b \<longleftrightarrow> effect_rank a \<le> effect_rank b"

definition less_effect :: "effect \<Rightarrow> effect \<Rightarrow> bool" where
  "less_effect a b \<longleftrightarrow> effect_rank a < effect_rank b"

instance
  by standard (auto simp: less_eq_effect_def less_effect_def intro: effect_rank_inj)

end

section \<open>Nodes\<close>

record node_config =
  cfg_thread_id :: string
  cfg_step :: nat
  cfg_resume :: "json option"
  cfg_extra :: updates

record node_context =
  ctx_state :: channel_state
  ctx_config :: node_config

record command =
  cmd_goto :: "string list"
  cmd_resume :: "json option"

record node_output =
  out_updates :: updates
  out_command :: "command option"

record node =
  node_effect :: effect
  node_run :: "node_context \<Rightarrow> rusty_error + node_output"

definition resume_value :: "node_context \<Rightarrow> json option" where
  "resume_value ctx = cfg_resume (ctx_config ctx)"

definition ctx_interrupt :: "json \<Rightarrow> rusty_error" where
  "ctx_interrupt value = Interrupt value"

text \<open>\<open>HashMap::insert\<close>: an existing key keeps its place, a new one is added.\<close>

definition hm_insert :: "string \<Rightarrow> 'v \<Rightarrow> (string \<times> 'v) list \<Rightarrow> (string \<times> 'v) list" where
  "hm_insert k v m = AList.update k v m"

definition output_empty :: node_output where
  "output_empty = \<lparr> out_updates = [], out_command = None \<rparr>"

definition output_update :: "string \<Rightarrow> json \<Rightarrow> node_output" where
  "output_update channel value = \<lparr> out_updates = [(channel, value)], out_command = None \<rparr>"

definition output_updates :: "updates \<Rightarrow> node_output" where
  "output_updates us = \<lparr> out_updates = us, out_command = None \<rparr>"

definition output_route :: "command \<Rightarrow> node_output" where
  "output_route c = \<lparr> out_updates = [], out_command = Some c \<rparr>"

definition with_command :: "node_output \<Rightarrow> command \<Rightarrow> node_output" where
  "with_command out c = out \<lparr> out_command := Some c \<rparr>"

definition with_update :: "node_output \<Rightarrow> string \<Rightarrow> json \<Rightarrow> node_output" where
  "with_update out channel value = out \<lparr> out_updates := hm_insert channel value (out_updates out) \<rparr>"

definition command_goto :: "string \<Rightarrow> command" where
  "command_goto n = \<lparr> cmd_goto = [n], cmd_resume = None \<rparr>"

definition command_goto_many :: "string list \<Rightarrow> command" where
  "command_goto_many ns = \<lparr> cmd_goto = ns, cmd_resume = None \<rparr>"

definition command_resume :: "json \<Rightarrow> command" where
  "command_resume v = \<lparr> cmd_goto = [], cmd_resume = Some v \<rparr>"

definition is_noop :: "command \<Rightarrow> bool" where
  "is_noop c \<longleftrightarrow> cmd_goto c = [] \<and> cmd_resume c = None"

text \<open>
  A closure used as a node takes the trait's default effect, and so does a shared handle
  \<open>Arc<dyn Node>\<close> used as a node: its \<open>impl\<close> forwards \<open>name\<close> and \<open>run\<close> only.
\<close>

definition closure_node :: "(node_context \<Rightarrow> rusty_error + node_output) \<Rightarrow> node" where
  "closure_node f = \<lparr> node_effect = Pure, node_run = f \<rparr>"

definition arc_node :: "node \<Rightarrow> node" where
  "arc_node n = \<lparr> node_effect = Pure, node_run = node_run n \<rparr>"

section \<open>Graphs\<close>

record send_item =
  send_node :: string
  send_state :: json

datatype route = RouteNode string | RouteSend "send_item list" | RouteEnd

type_synonym router = "channel_state \<Rightarrow> rusty_error + route"

datatype edge = Direct string string | Conditional string router

primrec edge_from :: "edge \<Rightarrow> string" where
  "edge_from (Direct f t) = f"
| "edge_from (Conditional f r) = f"

record graph =
  g_nodes :: "(string \<times> node) list"
  g_edges :: "edge list"
  g_entry :: string

definition graph_node :: "graph \<Rightarrow> string \<Rightarrow> node option" where
  "graph_node g name = map_of (g_nodes g) name"

definition has_node :: "graph \<Rightarrow> string \<Rightarrow> bool" where
  "has_node g name \<longleftrightarrow> map_of (g_nodes g) name \<noteq> None"

definition outgoing_edges :: "graph \<Rightarrow> string \<Rightarrow> edge list" where
  "outgoing_edges g f = filter (\<lambda>e. edge_from e = f) (g_edges g)"

definition node_count :: "graph \<Rightarrow> nat" where
  "node_count g = length (g_nodes g)"

definition END_NAME :: string where
  "END_NAME = ''__end__''"

fun edge_line :: "edge \<Rightarrow> string" where
  "edge_line (Direct f t) = ''edge:'' @ f @ ''>'' @ t"
| "edge_line (Conditional f r) = ''edge:'' @ f @ ''>?''"

fun join_lines :: "string list \<Rightarrow> string" where
  "join_lines [] = []"
| "join_lines [l] = l"
| "join_lines (l # ls) = l @ [CHR 0x0A] @ join_lines ls"

definition topology_lines :: "graph \<Rightarrow> string list" where
  "topology_lines g =
     sort (map (\<lambda>nn. ''node:'' @ fst nn) (g_nodes g) @ map edge_line (g_edges g) @
       [''entry:'' @ g_entry g])"

definition topology_hash :: "(string \<Rightarrow> string) \<Rightarrow> graph \<Rightarrow> string" where
  "topology_hash sha256_hex g = sha256_hex (join_lines (topology_lines g))"

section \<open>The builder and its compiler\<close>

record graph_builder =
  b_nodes :: "(string \<times> node) list"
  b_edges :: "edge list"
  b_entry :: "string option"

definition builder_new :: graph_builder where
  "builder_new = \<lparr> b_nodes = [], b_edges = [], b_entry = None \<rparr>"

definition add_node :: "string \<Rightarrow> node \<Rightarrow> graph_builder \<Rightarrow> graph_builder" where
  "add_node name n b = b \<lparr> b_nodes := hm_insert name n (b_nodes b) \<rparr>"

definition add_edge :: "string \<Rightarrow> string \<Rightarrow> graph_builder \<Rightarrow> graph_builder" where
  "add_edge f t b = b \<lparr> b_edges := b_edges b @ [Direct f t] \<rparr>"

definition add_conditional_edges :: "string \<Rightarrow> router \<Rightarrow> graph_builder \<Rightarrow> graph_builder" where
  "add_conditional_edges f r b = b \<lparr> b_edges := b_edges b @ [Conditional f r] \<rparr>"

definition set_entry_point :: "string \<Rightarrow> graph_builder \<Rightarrow> graph_builder" where
  "set_entry_point name b = b \<lparr> b_entry := Some name \<rparr>"

definition reserved_name :: "string \<Rightarrow> bool" where
  "reserved_name name \<longleftrightarrow> name = END_NAME \<or> take 2 name = ''__''"

text \<open>The edge loop carries the three sets of the code.\<close>

type_synonym edge_log = "(string \<times> string) set \<times> string set \<times> string set"

fun check_edges :: "(string \<times> node) list \<Rightarrow> edge list \<Rightarrow> edge_log \<Rightarrow> rusty_error + edge_log" where
  "check_edges nodes [] log = Ok log"
| "check_edges nodes (Direct f t # es) (direct_edges, direct_sources, conditional_sources) =
     (if map_of nodes f = None then Err (Graph (UnknownSource f))
      else if map_of nodes t = None then Err (Graph (UnknownTarget t f))
      else if (f, t) \<in> direct_edges then Err (Graph (DuplicateEdge f t))
      else check_edges nodes es
        (insert (f, t) direct_edges, insert f direct_sources, conditional_sources))"
| "check_edges nodes (Conditional f r # es) (direct_edges, direct_sources, conditional_sources) =
     (if map_of nodes f = None then Err (Graph (UnknownSource f))
      else if f \<in> conditional_sources then Err (Graph (SecondRouter f))
      else check_edges nodes es
        (direct_edges, direct_sources, insert f conditional_sources))"

definition compile :: "graph_builder \<Rightarrow> rusty_error + graph" where
  "compile b =
     (if b_nodes b = [] then Err (Graph EmptyGraph)
      else case find reserved_name (map fst (b_nodes b)) of
        Some name \<Rightarrow> Err (Graph (ReservedName name))
      | None \<Rightarrow>
        (case b_entry b of
           None \<Rightarrow> Err (Graph NoEntryPoint)
         | Some entry_point \<Rightarrow>
             if map_of (b_nodes b) entry_point = None
             then Err (Graph (UnknownEntryPoint entry_point))
             else rbind (check_edges (b_nodes b) (b_edges b) ({}, {}, {}))
               (\<lambda>(direct_edges, direct_sources, conditional_sources).
                  if direct_sources \<inter> conditional_sources \<noteq> {}
                  then Err (Graph MixedEdges)
                  else Ok \<lparr> g_nodes = b_nodes b, g_edges = b_edges b, g_entry = entry_point \<rparr>)))"


section \<open>What the compiler guarantees\<close>

fun direct_pair :: "edge \<Rightarrow> (string \<times> string) option" where
  "direct_pair (Direct f t) = Some (f, t)"
| "direct_pair (Conditional f r) = None"

fun cond_source :: "edge \<Rightarrow> string option" where
  "cond_source (Direct f t) = None"
| "cond_source (Conditional f r) = Some f"

definition directs :: "edge list \<Rightarrow> (string \<times> string) list" where
  "directs es = List.map_filter direct_pair es"

definition conds :: "edge list \<Rightarrow> string list" where
  "conds es = List.map_filter cond_source es"

lemma directs_simps [simp]:
  "directs [] = []" "directs (Direct f t # es) = (f, t) # directs es"
  "directs (Conditional f r # es) = directs es"
  by (simp_all add: directs_def List.map_filter_simps)

lemma conds_simps [simp]:
  "conds [] = []" "conds (Direct f t # es) = conds es" "conds (Conditional f r # es) = f # conds es"
  by (simp_all add: conds_def List.map_filter_simps)

fun edge_known :: "(string \<times> node) list \<Rightarrow> edge \<Rightarrow> bool" where
  "edge_known nodes (Direct f t) \<longleftrightarrow> map_of nodes f \<noteq> None \<and> map_of nodes t \<noteq> None"
| "edge_known nodes (Conditional f r) \<longleftrightarrow> map_of nodes f \<noteq> None"

lemma check_edges_iff:
  "check_edges nodes es (D, S, C) = Inr log \<longleftrightarrow>
     (\<forall>e \<in> set es. edge_known nodes e) \<and>
     distinct (directs es) \<and> set (directs es) \<inter> D = {} \<and>
     distinct (conds es) \<and> set (conds es) \<inter> C = {} \<and>
     log = (D \<union> set (directs es), S \<union> fst ` set (directs es), C \<union> set (conds es))"
proof (induction es arbitrary: D S C)
  case (Cons e es)
  show ?case by (cases e) (auto simp: Cons.IH)
qed auto

definition valid_edges :: "(string \<times> node) list \<Rightarrow> edge list \<Rightarrow> bool" where
  "valid_edges nodes es \<longleftrightarrow>
     (\<forall>e \<in> set es. edge_known nodes e) \<and> distinct (directs es) \<and> distinct (conds es) \<and>
     fst ` set (directs es) \<inter> set (conds es) = {}"

definition valid_graph :: "graph \<Rightarrow> bool" where
  "valid_graph g \<longleftrightarrow>
     g_nodes g \<noteq> [] \<and> (\<forall>name \<in> set (map fst (g_nodes g)). \<not> reserved_name name) \<and>
     has_node g (g_entry g) \<and> valid_edges (g_nodes g) (g_edges g)"

lemma find_None_iff_ball: "find P xs = None \<longleftrightarrow> (\<forall>x \<in> set xs. \<not> P x)"
  unfolding find_None_iff by blast

lemma check_edges_then:
  "rbind (check_edges nodes es ({}, {}, {}))
     (\<lambda>(d, s, c). if s \<inter> c \<noteq> {} then Err x else Ok y) = Inr z \<longleftrightarrow> valid_edges nodes es \<and> y = z"
  by (auto simp: check_edges_iff valid_edges_def)

lemma compile_Inr_iff:
  "compile b = Inr g \<longleftrightarrow>
     g_nodes g = b_nodes b \<and> g_edges g = b_edges b \<and> b_entry b = Some (g_entry g) \<and> valid_graph g"
proof (cases "b_nodes b = [] \<or> find reserved_name (map fst (b_nodes b)) \<noteq> None \<or> b_entry b = None")
  case True
  then have "compile b \<noteq> Inr g" by (cases "b_nodes b = []") (auto simp: compile_def split: option.split)
  moreover have "\<not> (b_nodes b \<noteq> [] \<and> (\<forall>name \<in> set (map fst (b_nodes b)). \<not> reserved_name name) \<and>
      b_entry b = Some (g_entry g))"
    using True unfolding find_None_iff_ball [symmetric] by auto
  ultimately show ?thesis unfolding valid_graph_def by metis
next
  case False
  then obtain en where "b_nodes b \<noteq> []" and en: "b_entry b = Some en"
    and f: "find reserved_name (map fst (b_nodes b)) = None" by auto
  then have "compile b = Inr g \<longleftrightarrow> map_of (b_nodes b) en \<noteq> None \<and>
      valid_edges (b_nodes b) (b_edges b) \<and>
      \<lparr> g_nodes = b_nodes b, g_edges = b_edges b, g_entry = en \<rparr> = g"
    by (simp add: compile_def check_edges_then del: rbind_Inr_iff)
  moreover have "\<forall>name \<in> set (map fst (b_nodes b)). \<not> reserved_name name"
    using f by (simp only: find_None_iff_ball)
  ultimately show ?thesis
    using en \<open>b_nodes b \<noteq> []\<close> by (cases g) (auto simp: valid_graph_def has_node_def)
qed

lemma mem_directs: "(f, t) \<in> set (directs es) \<longleftrightarrow> Direct f t \<in> set es"
proof (induction es)
  case (Cons e es)
  then show ?case by (cases e) auto
qed simp

lemma mem_conds: "f \<in> set (conds es) \<longleftrightarrow> (\<exists>r. Conditional f r \<in> set es)"
proof (induction es)
  case (Cons e es)
  then show ?case by (cases e) auto
qed simp

lemma conds_filter: "conds (filter (\<lambda>e. edge_from e = f) es) = filter (\<lambda>g. g = f) (conds es)"
proof (induction es)
  case (Cons e es)
  then show ?case by (cases e) auto
qed simp

lemma directs_filter: "directs (filter (\<lambda>e. edge_from e = f) es) = filter (\<lambda>p. fst p = f) (directs es)"
proof (induction es)
  case (Cons e es)
  then show ?case by (cases e) auto
qed simp

lemma length_edges: "length es = length (directs es) + length (conds es)"
proof (induction es)
  case (Cons e es)
  then show ?case by (cases e) auto
qed simp

lemma no_conds_directs: "conds es = [] \<Longrightarrow> es = map (\<lambda>(f, t). Direct f t) (directs es)"
proof (induction es)
  case (Cons e es)
  then show ?case by (cases e) auto
qed simp

lemma distinct_filter_eq: "distinct xs \<Longrightarrow> filter (\<lambda>g. g = f) xs = (if f \<in> set xs then [f] else [])"
  by (induction xs) auto

text \<open>
  The routing shape of a node in a compiled graph: either one router, or static edges to
  pairwise different known nodes.
\<close>

lemma outgoing_shape:
  assumes "valid_graph g"
  shows "(\<exists>r. outgoing_edges g n = [Conditional n r]) \<or>
    (\<exists>ts. outgoing_edges g n = map (Direct n) ts \<and> distinct ts \<and> (\<forall>t \<in> set ts. has_node g t))"
proof -
  let ?es = "g_edges g" and ?out = "outgoing_edges g n"
  have v: "valid_edges (g_nodes g) ?es" using assms by (simp add: valid_graph_def)
  have c: "conds ?out = (if n \<in> set (conds ?es) then [n] else [])"
    using v by (simp add: outgoing_edges_def conds_filter distinct_filter_eq valid_edges_def)
  have d: "directs ?out = filter (\<lambda>p. fst p = n) (directs ?es)"
    by (simp add: outgoing_edges_def directs_filter)
  show ?thesis
  proof (cases "n \<in> set (conds ?es)")
    case True
    then have "n \<notin> fst ` set (directs ?es)" using v by (auto simp: valid_edges_def)
    then have "directs ?out = []" unfolding d by (auto simp: filter_empty_conv)
    then have "length ?out = 1" using length_edges [of ?out] True c by simp
    then obtain e where e: "?out = [e]" by (auto simp: length_Suc_conv)
    with True c obtain r where "e = Conditional n r" by (cases e) auto
    then show ?thesis using e by blast
  next
    case False
    let ?ts = "map snd (directs ?out)"
    have out: "?out = map (Direct n) ?ts"
    proof -
      have "?out = map (\<lambda>(f, t). Direct f t) (directs ?out)"
        using False c by (intro no_conds_directs) simp
      also have "\<dots> = map (Direct n) ?ts" unfolding d by (auto simp: filter_map)
      finally show ?thesis .
    qed
    have "distinct ?ts"
      using v unfolding d valid_edges_def by (auto simp: distinct_map inj_on_def intro: prod_eqI)
    moreover have "has_node g t" if "t \<in> set ?ts" for t
      using that v unfolding d by (auto simp: valid_edges_def has_node_def mem_directs dest!: bspec)
    ultimately show ?thesis using out by blast
  qed
qed


section \<open>The topology hash\<close>

text \<open>
  A name with neither a line break nor the edge separator, and different from the marker of a
  conditional edge.  On graphs with such names the hashed text determines the topology.
\<close>

definition plain_name :: "string \<Rightarrow> bool" where
  "plain_name n \<longleftrightarrow> CHR 0x0A \<notin> set n \<and> CHR ''>'' \<notin> set n \<and> n \<noteq> ''?''"

fun edge_plain :: "edge \<Rightarrow> bool" where
  "edge_plain (Direct f t) \<longleftrightarrow> plain_name f \<and> plain_name t"
| "edge_plain (Conditional f r) \<longleftrightarrow> plain_name f"

definition plain_graph :: "graph \<Rightarrow> bool" where
  "plain_graph g \<longleftrightarrow> (\<forall>nn \<in> set (g_nodes g). plain_name (fst nn)) \<and>
     (\<forall>e \<in> set (g_edges g). edge_plain e) \<and> plain_name (g_entry g)"

fun edge_shape :: "edge \<Rightarrow> string \<times> string option" where
  "edge_shape (Direct f t) = (f, Some t)"
| "edge_shape (Conditional f r) = (f, None)"

lemma append_sep_inj:
  "c \<notin> set x \<Longrightarrow> c \<notin> set y \<Longrightarrow> x @ c # u = y @ c # v \<longleftrightarrow> x = y \<and> u = v"
proof (induction x arbitrary: y)
  case Nil
  then show ?case by (cases y) auto
next
  case (Cons a x)
  then show ?case by (cases y) auto
qed

lemma append_sep_no: "c \<notin> set y \<Longrightarrow> x @ c # u \<noteq> y"
  by auto

lemma join_lines_inj:
  "\<lbrakk> \<forall>l \<in> set ls. CHR 0x0A \<notin> set l; \<forall>l \<in> set ms. CHR 0x0A \<notin> set l; ls \<noteq> []; ms \<noteq> [];
     join_lines ls = join_lines ms \<rbrakk> \<Longrightarrow> ls = ms"
proof (induction ls arbitrary: ms rule: join_lines.induct)
  case (2 l)
  then show ?case by (cases ms rule: join_lines.cases) (auto dest: append_sep_no)
next
  case (3 l l' ls)
  show ?case
  proof (cases ms rule: join_lines.cases)
    case (3 m m' ms')
    with "3.prems" have "l = m" "join_lines (l' # ls) = join_lines (m' # ms')"
      by (auto simp: append_sep_inj)
    then show ?thesis using "3.IH" [of "m' # ms'"] "3.prems" 3 by simp
  qed (use "3.prems" in \<open>auto dest: append_sep_no\<close>)
qed simp

text \<open>Reading a node or edge line back.\<close>

definition read_edge :: "string \<Rightarrow> string \<times> string option" where
  "read_edge l = (let s = drop 5 l; f = takeWhile (\<lambda>c. c \<noteq> CHR ''>'') s;
       t = drop 1 (dropWhile (\<lambda>c. c \<noteq> CHR ''>'') s)
     in (f, if t = ''?'' then None else Some t))"

lemma read_edge_line: "edge_plain e \<Longrightarrow> read_edge (edge_line e) = edge_shape e"
proof -
  have "takeWhile (\<lambda>c. c \<noteq> CHR ''>'') (f @ CHR ''>'' # t) = f"
    "dropWhile (\<lambda>c. c \<noteq> CHR ''>'') (f @ CHR ''>'' # t) = CHR ''>'' # t"
    if "CHR ''>'' \<notin> set f" for f t :: string
    using that by (induction f) auto
  then show "edge_plain e \<Longrightarrow> ?thesis"
    by (cases e) (auto simp: read_edge_def plain_name_def Let_def)
qed

lemma topology_lines_mset:
  "mset (topology_lines g) = mset (map (\<lambda>nn. ''node:'' @ fst nn) (g_nodes g)) +
     mset (map edge_line (g_edges g)) + {# ''entry:'' @ g_entry g #}"
  by (simp add: topology_lines_def)

lemma edge_line_head: "\<exists>s. edge_line e = ''edge:'' @ s"
  by (cases e) auto

lemma topology_lines_plain: "plain_graph g \<Longrightarrow> \<forall>l \<in> set (topology_lines g). CHR 0x0A \<notin> set l"
proof -
  have "CHR 0x0A \<notin> set (edge_line e)" if "edge_plain e" for e
    using that by (cases e) (auto simp: plain_name_def)
  then show "plain_graph g \<Longrightarrow> ?thesis"
    by (auto simp: topology_lines_def plain_graph_def plain_name_def)
qed

lemma topology_text_shape:
  assumes "plain_graph g"
  shows "image_mset read_edge (filter_mset (\<lambda>l. take 2 l = ''ed'') (mset (topology_lines g))) =
      mset (map edge_shape (g_edges g))"
    and "image_mset (drop 5) (filter_mset (\<lambda>l. take 2 l = ''no'') (mset (topology_lines g))) =
      mset (map fst (g_nodes g))"
    and "image_mset (drop 6) (filter_mset (\<lambda>l. take 2 l = ''en'') (mset (topology_lines g))) =
      {# g_entry g #}"
proof -
  have e2: "take 2 (edge_line e) = ''ed''" for e by (cases e) auto
  have "filter_mset (\<lambda>l. take 2 l = ''ed'') (mset (topology_lines g)) = mset (map edge_line (g_edges g))"
    by (simp add: topology_lines_mset filter_mset_image_mset e2)
  moreover have "map (read_edge \<circ> edge_line) (g_edges g) = map edge_shape (g_edges g)"
    using assms by (simp add: plain_graph_def read_edge_line)
  ultimately show "image_mset read_edge (filter_mset (\<lambda>l. take 2 l = ''ed'') (mset (topology_lines g))) =
      mset (map edge_shape (g_edges g))" by (metis map_map mset_map)
  show "image_mset (drop 5) (filter_mset (\<lambda>l. take 2 l = ''no'') (mset (topology_lines g))) =
      mset (map fst (g_nodes g))"
    by (simp add: topology_lines_mset filter_mset_image_mset e2 image_mset.compositionality comp_def)
  show "image_mset (drop 6) (filter_mset (\<lambda>l. take 2 l = ''en'') (mset (topology_lines g))) =
      {# g_entry g #}"
    by (simp add: topology_lines_mset filter_mset_image_mset e2)
qed


section \<open>Properties of graphs\<close>

text \<open>
  C31: the compiler accepts exactly the valid graphs.  It returns a graph iff the builder has
  nodes, no node name is reserved, the entry point and the ends of all edges are known nodes,
  no static edge is repeated, no node has two routers and no node has both a router and static
  edges; the graph it returns is the builder's, unchanged.
\<close>

theorem compile_accepts_exactly:
  "compile b = Ok g \<longleftrightarrow>
     g_nodes g = b_nodes b \<and> g_edges g = b_edges b \<and> b_entry b = Some (g_entry g) \<and> valid_graph g"
  by (rule compile_Inr_iff)

text \<open>
  routing out of a node of a compiled graph is unambiguous: the node has one router, or
  it has static edges to pairwise different nodes of the graph (possibly none).
\<close>

lemma compiled_outgoing_edges:
  assumes "compile b = Ok g"
  shows "(\<exists>r. outgoing_edges g n = [Conditional n r]) \<or>
    (\<exists>ts. outgoing_edges g n = map (Direct n) ts \<and> distinct ts \<and> (\<forall>t \<in> set ts. has_node g t))"
  using assms by (intro outgoing_shape) (simp add: compile_Inr_iff)

definition demo_node :: node where
  "demo_node = closure_node (\<lambda>ctx. Ok output_empty)"

definition demo_builder :: graph_builder where
  "demo_builder = set_entry_point ''a'' (add_edge ''a'' ''c'' (add_edge ''a'' ''b''
     (add_node ''c'' demo_node (add_node ''b'' demo_node (add_node ''a'' demo_node builder_new)))))"

definition demo_graph :: graph where
  "demo_graph = \<lparr> g_nodes = b_nodes demo_builder, g_edges = b_edges demo_builder, g_entry = ''a'' \<rparr>"

lemma demo_compiles: "compile demo_builder = Ok demo_graph"
  by (simp add: compile_def demo_builder_def demo_graph_def demo_node_def set_entry_point_def
      add_edge_def add_node_def builder_new_def hm_insert_def reserved_name_def END_NAME_def)

lemma compiled_outgoing_edges_witness:
  "outgoing_edges demo_graph ''a'' = [Direct ''a'' ''b'', Direct ''a'' ''c''] \<and> has_node demo_graph ''c''"
proof -
  have out: "outgoing_edges demo_graph ''a'' = [Direct ''a'' ''b'', Direct ''a'' ''c'']"
    by (simp add: outgoing_edges_def demo_graph_def demo_builder_def set_entry_point_def
        add_edge_def add_node_def builder_new_def)
  then show ?thesis
    using compiled_outgoing_edges [OF demo_compiles, of "''a''"] by (auto simp: Cons_eq_map_conv)
qed

text \<open>
  the topology hash is a function of the topology.  Registering the same nodes and edges
  in another order gives the same hash, whatever the hash function.
\<close>

lemma topology_hash_order_independent:
  assumes "mset (g_nodes g) = mset (g_nodes h)" "mset (g_edges g) = mset (g_edges h)"
    "g_entry g = g_entry h"
  shows "topology_hash sha256_hex g = topology_hash sha256_hex h"
proof -
  have sorted: "topology_lines k = sorted_list_of_multiset (mset (topology_lines k))" for k
    by (simp add: topology_lines_def sorted_list_of_multiset_mset del: mset_append mset_map)
  have "mset (topology_lines g) = mset (topology_lines h)"
    using assms by (simp add: topology_lines_mset)
  then have "topology_lines g = topology_lines h" by (metis sorted)
  then show ?thesis by (simp add: topology_hash_def)
qed

lemma topology_hash_order_independent_witness:
  "topology_hash id demo_graph = topology_hash id (demo_graph \<lparr> g_edges := rev (g_edges demo_graph) \<rparr>)"
  by (rule topology_hash_order_independent) simp_all

text \<open>
  the hashed text determines the topology.  Two graphs whose names have no line break, no
  edge separator and are not a question mark, and whose texts agree, have the same node names,
  the same edges (static targets and conditional sources) and the same entry point; graph drift
  between them can hide only behind a collision of the hash function itself.
\<close>

lemma topology_text_injective:
  assumes "plain_graph g" "plain_graph h"
    "join_lines (topology_lines g) = join_lines (topology_lines h)"
  shows "mset (map fst (g_nodes g)) = mset (map fst (g_nodes h)) \<and>
    mset (map edge_shape (g_edges g)) = mset (map edge_shape (g_edges h)) \<and> g_entry g = g_entry h"
proof -
  have ne: "topology_lines k \<noteq> []" for k
    by (simp add: topology_lines_def flip: length_greater_0_conv)
  have "topology_lines g = topology_lines h"
    by (rule join_lines_inj [OF topology_lines_plain [OF assms(1)] topology_lines_plain [OF assms(2)]
          ne ne assms(3)])
  then show ?thesis
    using topology_text_shape [OF assms(1)] topology_text_shape [OF assms(2)] by simp
qed

lemma topology_text_injective_witness:
  "mset (map edge_shape (g_edges demo_graph)) =
   mset (map edge_shape (g_edges (demo_graph \<lparr> g_edges := rev (g_edges demo_graph) \<rparr>)))"
proof -
  let ?h = "demo_graph \<lparr> g_edges := rev (g_edges demo_graph) \<rparr>"
  have "plain_graph demo_graph" "plain_graph ?h"
    by (simp_all add: plain_graph_def plain_name_def demo_graph_def demo_builder_def
        set_entry_point_def add_edge_def add_node_def builder_new_def hm_insert_def)
  moreover have "topology_lines demo_graph = topology_lines ?h"
    by (simp add: topology_lines_def demo_graph_def demo_builder_def
        set_entry_point_def add_edge_def add_node_def builder_new_def hm_insert_def)
  ultimately show ?thesis using topology_text_injective [of demo_graph ?h] by metis
qed

text \<open>
  Without the restriction on names the text is ambiguous: a static edge to a node named with
  the question mark reads like a router.
\<close>

lemma topology_text_collision:
  "join_lines (topology_lines \<lparr> g_nodes = [(''a'', n), (''?'', n)], g_edges = [Direct ''a'' ''?''], g_entry = ''a'' \<rparr>) =
   join_lines (topology_lines \<lparr> g_nodes = [(''a'', n), (''?'', n)], g_edges = [Conditional ''a'' r], g_entry = ''a'' \<rparr>)"
  by (simp add: topology_lines_def)

text \<open>
  A shared node handle registered as a node runs the node it points to, but declares the
  trait's default effect.
\<close>

lemma arc_node_drops_effect:
  "node_run (arc_node n) = node_run n \<and> (node_effect (arc_node n) = node_effect n \<longleftrightarrow> node_effect n = Pure)"
  by (auto simp: arc_node_def)

end
