(* ===== verification/F64.thy ===== *)
theory F64
  imports Complex_Main "HOL-Library.Log_Nat"
begin

text \<open>
  The finite double-precision arithmetic the runtime uses: a value is a rational number, and
  an operation rounds its exact result to 53 significant bits, ties to even.  Overflow to
  infinity and subnormal results are outside the model; the quantities computed here (costs
  in dollars, delays in milliseconds, byte counts) stay far away from both.
\<close>

type_synonym f64 = rat

definition round_half_even :: "rat \<Rightarrow> int" where
  "round_half_even q =
     (let f = \<lfloor>q\<rfloor>; d = q - of_int f
      in if d < 1 / 2 then f else if 1 / 2 < d then f + 1 else if even f then f else f + 1)"

text \<open>The exponent of a positive rational: the largest power of two that is not above it.\<close>

definition exponent :: "rat \<Rightarrow> int" where
  "exponent x =
     (let (n, d) = quotient_of x; k = bitlen n - bitlen d
      in if (2::rat) powi k \<le> x then k else k - 1)"

definition f64_round :: "rat \<Rightarrow> f64" where
  "f64_round x =
     (if x = 0 then 0
      else let u = 2 powi (exponent \<bar>x\<bar> - 52)
           in sgn x * (of_int (round_half_even (\<bar>x\<bar> / u)) * u))"

definition f64_of_nat :: "nat \<Rightarrow> f64" where
  "f64_of_nat n = f64_round (of_nat n)"

definition f64_add :: "f64 \<Rightarrow> f64 \<Rightarrow> f64" where
  "f64_add x y = f64_round (x + y)"

definition f64_mul :: "f64 \<Rightarrow> f64 \<Rightarrow> f64" where
  "f64_mul x y = f64_round (x * y)"

text \<open>\<open>x as u64\<close> for a non-negative value: truncation, saturating at the top.\<close>

definition f64_to_u64 :: "f64 \<Rightarrow> nat" where
  "f64_to_u64 x = min (nat \<lfloor>x\<rfloor>) (2 ^ 64 - 1)"

lemma round_half_even_le: "q \<le> of_int n \<Longrightarrow> round_half_even q \<le> n"
proof -
  assume q: "q \<le> of_int n"
  show ?thesis
  proof (cases "\<lfloor>q\<rfloor> < n")
    case False
    then have "q = of_int n" using q by (metis floor_less_iff not_less order_antisym)
    then show ?thesis by (simp add: round_half_even_def)
  qed (auto simp: round_half_even_def Let_def)
qed

lemma round_half_even_ge: "of_int n \<le> q \<Longrightarrow> n \<le> round_half_even q"
proof -
  assume "of_int n \<le> q"
  then have "n \<le> \<lfloor>q\<rfloor>" by (simp add: le_floor_iff)
  then show ?thesis by (auto simp: round_half_even_def Let_def)
qed

lemma round_half_even_of_int: "round_half_even (of_int m) = m"
  by (simp add: round_half_even_def)

lemma bitlen_powi:
  assumes "0 < n"
  shows "(2::rat) powi (bitlen n - 1) \<le> of_int n" "of_int n < (2::rat) powi (bitlen n)"
proof -
  have b: "1 \<le> bitlen n" using assms bitlen_nonneg [of n] bitlen_eq_zero_iff [of n] by linarith
  have "2 ^ nat (bitlen n - 1) \<le> n" "n < 2 ^ nat (bitlen n)"
    using bitlen_bounds [OF assms] by simp_all
  then have "of_int (2 ^ nat (bitlen n - 1)) \<le> (of_int n :: rat)"
    "(of_int n :: rat) < of_int (2 ^ nat (bitlen n))"
    by (simp_all only: of_int_le_iff of_int_less_iff)
  then show "(2::rat) powi (bitlen n - 1) \<le> of_int n" "of_int n < (2::rat) powi (bitlen n)"
    using b by (simp_all add: power_int_def)
qed

lemma exponent_bounds:
  assumes "0 < x"
  shows "2 powi exponent x \<le> x" "x < 2 powi (exponent x + 1)"
proof -
  obtain n d where q: "quotient_of x = (n, d)" by (cases "quotient_of x")
  have d: "0 < d" and x: "x = of_int n / of_int d"
    using quotient_of_denom_pos [OF q] quotient_of_div [OF q] by simp_all
  have n: "0 < n" using assms d x by (simp add: zero_less_divide_iff)
  let ?k = "bitlen n - bitlen d"
  note bn = bitlen_powi [OF n] and bd = bitlen_powi [OF d]
  have split: "(2::rat) powi (a + b) = 2 powi a * 2 powi b" for a b by (simp add: power_int_add)
  have "(2::rat) powi (?k - 1) * of_int d \<le> 2 powi (?k - 1) * 2 powi (bitlen d)"
    using bd by (intro mult_left_mono) auto
  also have "\<dots> = 2 powi (bitlen n - 1)" by (simp add: split [symmetric])
  also have "\<dots> \<le> of_int n" by (rule bn)
  finally have lo: "2 powi (?k - 1) \<le> x" using d by (simp add: x pos_le_divide_eq)
  have "(of_int n :: rat) < 2 powi (?k + 1) * 2 powi (bitlen d - 1)"
    using bn(2) by (simp add: split [symmetric])
  also have "\<dots> \<le> 2 powi (?k + 1) * of_int d"
    using bd by (intro mult_left_mono) auto
  finally have hi: "x < 2 powi (?k + 1)" using d by (simp add: x pos_divide_less_eq)
  show "2 powi exponent x \<le> x" "x < 2 powi (exponent x + 1)"
    using lo hi by (auto simp: exponent_def q Let_def)
qed

text \<open>Rounding never crosses a number that is itself representable at the operand's scale.\<close>

lemma exponent_small:
  assumes "0 < x" "x \<le> of_nat n" "n < 2 ^ 53"
  shows "exponent x < 53"
proof (rule ccontr)
  assume "\<not> exponent x < 53"
  then have "(2::rat) powi 53 \<le> 2 powi exponent x" by (intro power_int_increasing) auto
  also have "\<dots> \<le> x" by (rule exponent_bounds [OF assms(1)])
  also have "x \<le> of_nat n" by (rule assms)
  also have "(of_nat n :: rat) < of_nat (2 ^ 53)" using assms(3) by (simp only: of_nat_less_iff)
  finally show False by (simp add: power_int_def)
qed

lemma two_powi_neg: "k \<le> 0 \<Longrightarrow> (2::rat) ^ nat (- k) * 2 powi k = 1"
  by (cases "k = 0") (simp_all add: power_int_def power_mult_distrib [symmetric])

lemma f64_round_le_int:
  assumes "0 < x" "x \<le> of_nat n" "n < 2 ^ 53"
  shows "f64_round x \<le> of_nat n"
proof -
  define k where "k = exponent x - 52"
  have k: "k \<le> 0" using exponent_small [OF assms] by (simp add: k_def)
  define m :: int where "m = int n * 2 ^ nat (- k)"
  have u: "(of_int m :: rat) * 2 powi k = of_nat n"
    using two_powi_neg [OF k] by (simp add: m_def mult.assoc)
  have "x / 2 powi k \<le> of_int m" using assms(2) u by (simp add: divide_le_eq)
  then have "round_half_even (x / 2 powi k) \<le> m" by (rule round_half_even_le)
  then have "of_int (round_half_even (x / 2 powi k)) * 2 powi k \<le> (of_int m :: rat) * 2 powi k"
    by (intro mult_right_mono) auto
  then have "of_int (round_half_even (x / 2 powi k)) * 2 powi k \<le> (of_nat n :: rat)"
    unfolding u .
  then show ?thesis using assms(1) by (simp add: f64_round_def Let_def k_def)
qed

lemma f64_round_nonneg: "0 \<le> x \<Longrightarrow> 0 \<le> f64_round x"
  by (auto simp: f64_round_def Let_def intro!: mult_nonneg_nonneg round_half_even_ge [of 0, simplified])

lemma f64_round_nat: "n < 2 ^ 53 \<Longrightarrow> f64_of_nat n = of_nat n"
proof (cases "n = 0")
  case False
  assume n: "n < 2 ^ 53"
  define x :: rat where "x = of_nat n"
  define k where "k = exponent x - 52"
  have x: "0 < x" using False by (simp add: x_def)
  have k: "k \<le> 0" using exponent_small [OF x _ n] by (simp add: k_def x_def)
  have q: "x / 2 powi k = of_int (int n * 2 ^ nat (- k))"
    using two_powi_neg [OF k] by (simp add: x_def divide_eq_eq mult.assoc)
  have "f64_round x = of_int (round_half_even (x / 2 powi k)) * 2 powi k"
    using x by (simp add: f64_round_def Let_def k_def)
  also have "\<dots> = x / 2 powi k * 2 powi k" unfolding q round_half_even_of_int ..
  also have "\<dots> = x" by simp
  finally have "f64_round x = x" .
  then show ?thesis by (simp add: f64_of_nat_def x_def)
qed (simp add: f64_of_nat_def f64_round_def)

end
