(* ===== verification/Run_Journal.thy ===== *)
theory Run_Journal
  imports Agent_Graph F64
begin

text \<open>
  The run journal (journal.rs, with its event types from record.rs): an append-only list of
  events with a chained head hash and a content-addressed map for large payloads.

  SHA-256 and the serializer are third-party code: the record \<open>codec\<close> carries them as
  functions, together with the readings of the system clock and the range of representable
  timestamps.  The serializer may fail; both outcomes are modelled.  The facts about them that
  a theorem relies on are its hypotheses (\<open>codec_total\<close>, \<open>codec_injective\<close>,
  \<open>fixed_length_hash\<close>).
\<close>

section \<open>Events\<close>

datatype run_event_kind =
    KSuperStepStart | KSuperStepEnd | KNodeInput | KNodeOutput | KModelCall | KToolCall
  | KInterrupt | KResume | KRoutingDecision | KCheckpointWritten | KEffectReceipt
  | KInboxIntake | KInboxConsumed | KRunCancelled | KRunConfigDeclared | KPolicyDecision
  | KOther string

datatype event_status = StatusOk | StatusError | StatusInterrupted

record usage =
  prompt_tokens :: nat
  completion_tokens :: nat
  total_tokens :: nat
  cached_tokens :: "nat option"
  reasoning_tokens :: "nat option"

record artifact_ref =
  ref_sha256 :: string
  ref_bytes :: nat

datatype payload_ref = Inline json | Artifact artifact_ref

record event_draft =
  d_kind :: run_event_kind
  d_effect :: effect
  d_node :: "string option"
  d_input :: "json option"
  d_output :: "json option"
  d_latency_ms :: "nat option"
  d_tokens :: "usage option"
  d_cost_usd :: "f64 option"
  d_status :: event_status
  d_parent :: "string option"

record run_event =
  ev_id :: string
  ev_run_id :: string
  ev_thread_id :: string
  ev_node_id :: "string option"
  ev_seq :: nat
  ev_kind :: run_event_kind
  ev_effect :: effect
  ev_input :: "payload_ref option"
  ev_output :: "payload_ref option"
  ev_latency_ms :: "nat option"
  ev_tokens :: "usage option"
  ev_cost_usd :: "f64 option"
  ev_status :: event_status
  ev_parent :: "string option"
  ev_recorded_at :: nat

definition draft_new :: "run_event_kind \<Rightarrow> effect \<Rightarrow> event_draft" where
  "draft_new k e = \<lparr> d_kind = k, d_effect = e, d_node = None, d_input = None, d_output = None,
     d_latency_ms = None, d_tokens = None, d_cost_usd = None, d_status = StatusOk,
     d_parent = None \<rparr>"

record codec =
  sha256_hex :: "string \<Rightarrow> string"
  ser_event :: "run_event \<Rightarrow> string option"
  ser_value :: "json \<Rightarrow> string option"
  wall :: "nat \<Rightarrow> nat"
  representable :: "nat \<Rightarrow> bool"

section \<open>Clocks\<close>

text \<open>
  The logical clock returns its reading and advances by its tick, saturating at the largest
  \<open>u64\<close>; a reading no timestamp can represent reads as the epoch.  The system clock's reading
  is the argument \<open>w\<close>.
\<close>

datatype clock = SystemClock | LogicalClock nat nat

definition clock_now :: "codec \<Rightarrow> nat \<Rightarrow> clock \<Rightarrow> nat \<times> clock" where
  "clock_now cd w c =
     (case c of
        SystemClock \<Rightarrow> (w, SystemClock)
      | LogicalClock now_ms tick_ms \<Rightarrow>
          (let millis = min now_ms (2 ^ 63 - 1)
           in (if representable cd millis then millis else 0,
               LogicalClock (min (now_ms + tick_ms) (2 ^ 64 - 1)) tick_ms)))"

section \<open>The journal\<close>

record journal =
  j_run_id :: string
  j_thread_id :: string
  j_clock :: clock
  j_events :: "run_event list"
  j_artifacts :: "(string \<times> json) list"
  j_head_hash :: string

definition journal_new :: "codec \<Rightarrow> string \<Rightarrow> string \<Rightarrow> clock \<Rightarrow> journal" where
  "journal_new cd run thread c = \<lparr> j_run_id = run, j_thread_id = thread, j_clock = c,
     j_events = [], j_artifacts = [], j_head_hash = sha256_hex cd [] \<rparr>"

definition INLINE_PAYLOAD_MAX_BYTES :: nat where
  "INLINE_PAYLOAD_MAX_BYTES = 4096"

definition store_payload ::
  "codec \<Rightarrow> (string \<times> json) list \<Rightarrow> json \<Rightarrow> payload_ref \<times> (string \<times> json) list" where
  "store_payload cd artifacts value =
     (case ser_value cd value of
        None \<Rightarrow> (Inline value, artifacts)
      | Some bytes \<Rightarrow>
          if length bytes \<le> INLINE_PAYLOAD_MAX_BYTES then (Inline value, artifacts)
          else let reference = \<lparr> ref_sha256 = sha256_hex cd bytes, ref_bytes = length bytes \<rparr>
            in (Artifact reference,
                case map_of artifacts (ref_sha256 reference) of
                  None \<Rightarrow> bt_insert (ref_sha256 reference) value artifacts
                | Some _ \<Rightarrow> artifacts))"

fun store_payload_opt ::
  "codec \<Rightarrow> (string \<times> json) list \<Rightarrow> json option \<Rightarrow> payload_ref option \<times> (string \<times> json) list" where
  "store_payload_opt cd artifacts None = (None, artifacts)"
| "store_payload_opt cd artifacts (Some value) =
     (let (p, a) = store_payload cd artifacts value in (Some p, a))"

fun canonicalized_payload :: "payload_ref option \<Rightarrow> payload_ref option" where
  "canonicalized_payload (Some (Inline value)) = Some (Inline (canonicalize_value value))"
| "canonicalized_payload other = other"

definition canonicalized_for_hash :: "run_event \<Rightarrow> run_event" where
  "canonicalized_for_hash event =
     event \<lparr> ev_input := canonicalized_payload (ev_input event),
             ev_output := canonicalized_payload (ev_output event) \<rparr>"

definition record_event :: "codec \<Rightarrow> event_draft \<Rightarrow> journal \<Rightarrow> string \<times> journal" where
  "record_event cd draft j =
     (let (recorded_at, c) = clock_now cd (wall cd (length (j_events j))) (j_clock j);
          n = length (j_events j);
          eid = j_run_id j @ '':'' @ show_nat n;
          (input, artifacts1) = store_payload_opt cd (j_artifacts j) (d_input draft);
          (output, artifacts2) = store_payload_opt cd artifacts1 (d_output draft);
          event = \<lparr> ev_id = eid, ev_run_id = j_run_id j, ev_thread_id = j_thread_id j,
            ev_node_id = d_node draft, ev_seq = n, ev_kind = d_kind draft,
            ev_effect = d_effect draft, ev_input = input, ev_output = output,
            ev_latency_ms = d_latency_ms draft, ev_tokens = d_tokens draft,
            ev_cost_usd = d_cost_usd draft, ev_status = d_status draft,
            ev_parent = d_parent draft, ev_recorded_at = recorded_at \<rparr>;
          head = (case ser_event cd (canonicalized_for_hash event) of
              Some bytes \<Rightarrow> sha256_hex cd (j_head_hash j @ bytes)
            | None \<Rightarrow> sha256_hex cd (j_head_hash j @ ''!unhashable''))
      in (eid, j \<lparr> j_clock := c, j_events := j_events j @ [event], j_artifacts := artifacts2,
                   j_head_hash := head \<rparr>))"

definition events_from :: "journal \<Rightarrow> nat \<Rightarrow> run_event list" where
  "events_from j from_idx = drop from_idx (j_events j)"

definition journal_len :: "journal \<Rightarrow> nat" where
  "journal_len j = length (j_events j)"

record journal_ref =
  jr_events :: nat
  jr_sha256 :: string

definition head_ref :: "journal \<Rightarrow> journal_ref" where
  "head_ref j = \<lparr> jr_events = length (j_events j), jr_sha256 = j_head_hash j \<rparr>"

definition resolve :: "journal \<Rightarrow> payload_ref \<Rightarrow> json option" where
  "resolve j payload =
     (case payload of
        Inline value \<Rightarrow> Some value
      | Artifact reference \<Rightarrow> map_of (j_artifacts j) (ref_sha256 reference))"

definition content_hash :: "codec \<Rightarrow> payload_ref \<Rightarrow> rusty_error + string" where
  "content_hash cd payload =
     (case payload of
        Inline value \<Rightarrow>
          (case ser_value cd (canonicalize_value value) of
             None \<Rightarrow> Err (Serialization NotSerializable)
           | Some bytes \<Rightarrow> Ok (sha256_hex cd bytes))
      | Artifact reference \<Rightarrow> Ok (ref_sha256 reference))"

section \<open>Snapshots\<close>

record journal_snapshot =
  js_run_id :: string
  js_thread_id :: string
  js_events :: "run_event list"
  js_artifacts :: "(string \<times> json) list"
  js_artifact_refs :: "(string \<times> artifact_ref) list"
  js_head_hash :: string

definition snapshot :: "journal \<Rightarrow> journal_snapshot" where
  "snapshot j = \<lparr> js_run_id = j_run_id j, js_thread_id = j_thread_id j, js_events = j_events j,
     js_artifacts = j_artifacts j, js_artifact_refs = [], js_head_hash = j_head_hash j \<rparr>"

definition chained_hash :: "codec \<Rightarrow> string \<Rightarrow> run_event \<Rightarrow> rusty_error + string" where
  "chained_hash cd prev event =
     (case ser_event cd (canonicalized_for_hash event) of
        None \<Rightarrow> Err (Serialization NotSerializable)
      | Some bytes \<Rightarrow> Ok (sha256_hex cd (prev @ bytes)))"

fun chain_from :: "codec \<Rightarrow> string \<Rightarrow> run_event list \<Rightarrow> rusty_error + string" where
  "chain_from cd head_hash [] = Ok head_hash"
| "chain_from cd head_hash (event # es) =
     rbind (chained_hash cd head_hash event) (\<lambda>h. chain_from cd h es)"

definition recompute_head_hash :: "codec \<Rightarrow> run_event list \<Rightarrow> rusty_error + string" where
  "recompute_head_hash cd es = chain_from cd (sha256_hex cd []) es"

definition from_snapshot :: "codec \<Rightarrow> journal_snapshot \<Rightarrow> clock \<Rightarrow> rusty_error + journal" where
  "from_snapshot cd snap c =
     (if js_artifact_refs snap \<noteq> [] then Err (Serialization ExternalArtifacts)
      else rbind (chain_from cd (sha256_hex cd []) (js_events snap)) (\<lambda>head_hash.
        if head_hash \<noteq> js_head_hash snap
        then Err (Serialization (HeadMismatch head_hash (js_head_hash snap)))
        else Ok \<lparr> j_run_id = js_run_id snap, j_thread_id = js_thread_id snap, j_clock = c,
          j_events = js_events snap, j_artifacts = js_artifacts snap, j_head_hash = head_hash \<rparr>))"


section \<open>Assumptions on the codec\<close>

definition codec_total :: "codec \<Rightarrow> bool" where
  "codec_total cd \<longleftrightarrow> (\<forall>e. ser_event cd e \<noteq> None)"

definition collision_free :: "codec \<Rightarrow> bool" where
  "collision_free cd \<longleftrightarrow> (\<forall>v w bv bw. ser_value cd v = Some bv \<longrightarrow> ser_value cd w = Some bw \<longrightarrow>
     sha256_hex cd bv = sha256_hex cd bw \<longrightarrow> v = w)"

definition fixed_length_hash :: "codec \<Rightarrow> bool" where
  "fixed_length_hash cd \<longleftrightarrow> (\<forall>x y. length (sha256_hex cd x) = length (sha256_hex cd y)) \<and>
     sha256_hex cd [] \<noteq> []"

definition codec_injective :: "codec \<Rightarrow> bool" where
  "codec_injective cd \<longleftrightarrow> (\<forall>e e' b. ser_event cd e = Some b \<longrightarrow> ser_event cd e' = Some b \<longrightarrow> e = e')"

section \<open>The journal invariant\<close>

definition artifacts_ok :: "codec \<Rightarrow> (string \<times> json) list \<Rightarrow> bool" where
  "artifacts_ok cd arts \<longleftrightarrow> bt_inv arts \<and>
     (\<forall>k v. map_of arts k = Some v \<longrightarrow> (\<exists>b. ser_value cd v = Some b \<and> sha256_hex cd b = k))"

definition payload_stored :: "(string \<times> json) list \<Rightarrow> payload_ref option \<Rightarrow> bool" where
  "payload_stored arts p \<longleftrightarrow>
     (case p of Some (Artifact r) \<Rightarrow> map_of arts (ref_sha256 r) \<noteq> None | _ \<Rightarrow> True)"

definition event_at :: "journal \<Rightarrow> nat \<Rightarrow> run_event \<Rightarrow> bool" where
  "event_at j i e \<longleftrightarrow> ev_seq e = i \<and> ev_id e = j_run_id j @ '':'' @ show_nat i \<and>
     ev_run_id e = j_run_id j \<and> ev_thread_id e = j_thread_id j"

definition journal_inv :: "codec \<Rightarrow> journal \<Rightarrow> bool" where
  "journal_inv cd j \<longleftrightarrow>
     (\<forall>i < length (j_events j). event_at j i (j_events j ! i)) \<and>
     recompute_head_hash cd (j_events j) = Ok (j_head_hash j) \<and>
     artifacts_ok cd (j_artifacts j) \<and>
     (\<forall>e \<in> set (j_events j). payload_stored (j_artifacts j) (ev_input e) \<and>
        payload_stored (j_artifacts j) (ev_output e))"

lemma store_payload_artifacts:
  assumes "artifacts_ok cd arts" "store_payload cd arts v = (p, arts')"
  shows "artifacts_ok cd arts' \<and> map_of arts \<subseteq>\<^sub>m map_of arts' \<and> payload_stored arts' (Some p)"
  using assms
  by (auto simp: store_payload_def artifacts_ok_def payload_stored_def Let_def map_le_def
      split: option.splits if_splits payload_ref.splits)

lemma store_payload_opt_artifacts:
  assumes "artifacts_ok cd arts" "store_payload_opt cd arts v = (p, arts')"
  shows "artifacts_ok cd arts' \<and> map_of arts \<subseteq>\<^sub>m map_of arts' \<and> payload_stored arts' p"
proof (cases v)
  case None
  then show ?thesis using assms by (simp add: payload_stored_def)
next
  case (Some x)
  then show ?thesis
    using assms store_payload_artifacts [of cd arts x] by (auto split: prod.splits)
qed

lemma payload_stored_mono: "payload_stored a p \<Longrightarrow> map_of a \<subseteq>\<^sub>m map_of a' \<Longrightarrow> payload_stored a' p"
  by (auto simp: payload_stored_def map_le_def dom_def split: option.splits payload_ref.splits)

lemma chain_from_snoc:
  "chain_from cd h (es @ [e]) = rbind (chain_from cd h es) (\<lambda>h. chained_hash cd h e)"
proof (induction es arbitrary: h)
  case (Cons a es)
  then have "(\<lambda>h. chain_from cd h (es @ [e])) = (\<lambda>h. rbind (chain_from cd h es) (\<lambda>h. chained_hash cd h e))"
    by (rule ext)
  then show ?case by (simp add: rbind_assoc)
next
  case Nil
  then show ?case by (cases "chained_hash cd h e") simp_all
qed

text \<open>
  What one call of \<open>record_event\<close> does: it appends one event with the next sequence number,
  keeps run and thread, and stores the two payloads one after the other.
\<close>

lemma record_event_cases:
  obtains e inp arts1 outp arts2 where
    "store_payload_opt cd (j_artifacts j) (d_input d) = (inp, arts1)"
    "store_payload_opt cd arts1 (d_output d) = (outp, arts2)"
    "event_at j (length (j_events j)) e" "ev_input e = inp" "ev_output e = outp"
    "ev_kind e = d_kind d" "ev_effect e = d_effect d" "ev_node_id e = d_node d"
    "ev_status e = d_status d" "ev_parent e = d_parent d" "ev_tokens e = d_tokens d"
    "ev_cost_usd e = d_cost_usd d" "ev_latency_ms e = d_latency_ms d"
    "fst (record_event cd d j) = ev_id e"
    "j_events (snd (record_event cd d j)) = j_events j @ [e]"
    "j_artifacts (snd (record_event cd d j)) = arts2"
    "j_run_id (snd (record_event cd d j)) = j_run_id j"
    "j_thread_id (snd (record_event cd d j)) = j_thread_id j"
    "codec_total cd \<Longrightarrow> chained_hash cd (j_head_hash j) e = Ok (j_head_hash (snd (record_event cd d j)))"
proof -
  obtain t c where t: "clock_now cd (wall cd (length (j_events j))) (j_clock j) = (t, c)"
    by (metis surj_pair)
  obtain inp arts1 where i: "store_payload_opt cd (j_artifacts j) (d_input d) = (inp, arts1)"
    by (metis surj_pair)
  obtain outp arts2 where so: "store_payload_opt cd arts1 (d_output d) = (outp, arts2)"
    by (metis surj_pair)
  show thesis
    by (rule that [OF i so, where e = "last (j_events (snd (record_event cd d j)))"])
       (auto simp: record_event_def t i so Let_def event_at_def chained_hash_def codec_total_def
          split: option.splits)
qed


lemma journal_inv_new [simp]: "journal_inv cd (journal_new cd run thread c)"
  by (simp add: journal_inv_def journal_new_def artifacts_ok_def recompute_head_hash_def)

lemma journal_inv_record:
  assumes "codec_total cd" "journal_inv cd j"
  shows "journal_inv cd (snd (record_event cd d j))"
proof (rule record_event_cases [of cd j d])
  fix e inp arts1 outp arts2
  let ?j' = "snd (record_event cd d j)"
  assume s1: "store_payload_opt cd (j_artifacts j) (d_input d) = (inp, arts1)"
    and s2: "store_payload_opt cd arts1 (d_output d) = (outp, arts2)"
    and at: "event_at j (length (j_events j)) e" and io: "ev_input e = inp" "ev_output e = outp"
    and ev: "j_events ?j' = j_events j @ [e]" and ar: "j_artifacts ?j' = arts2"
    and ids: "j_run_id ?j' = j_run_id j" "j_thread_id ?j' = j_thread_id j"
    and hd: "codec_total cd \<Longrightarrow> chained_hash cd (j_head_hash j) e = Ok (j_head_hash ?j')"
  have a1: "artifacts_ok cd arts1 \<and> map_of (j_artifacts j) \<subseteq>\<^sub>m map_of arts1 \<and> payload_stored arts1 inp"
    using assms(2) store_payload_opt_artifacts [OF _ s1] by (simp add: journal_inv_def)
  then have a2: "artifacts_ok cd arts2 \<and> map_of arts1 \<subseteq>\<^sub>m map_of arts2 \<and> payload_stored arts2 outp"
    using store_payload_opt_artifacts [OF _ s2] by simp
  have le: "map_of (j_artifacts j) \<subseteq>\<^sub>m map_of arts2" using a1 a2 map_le_trans by blast
  have "recompute_head_hash cd (j_events ?j') = Ok (j_head_hash ?j')"
    using assms hd by (simp add: ev recompute_head_hash_def chain_from_snoc journal_inv_def)
  moreover have "\<forall>i < length (j_events ?j'). event_at ?j' i (j_events ?j' ! i)"
    using assms(2) at unfolding journal_inv_def ev event_at_def ids by (simp add: nth_append less_Suc_eq)
  moreover have "\<forall>e \<in> set (j_events ?j'). payload_stored arts2 (ev_input e) \<and> payload_stored arts2 (ev_output e)"
    using assms(2) a1 a2 io payload_stored_mono [of arts1 inp arts2] payload_stored_mono [OF _ le]
    by (simp add: journal_inv_def ev)
  ultimately show ?thesis using a2 by (simp add: journal_inv_def ar)
qed

lemma store_payload_resolve:
  assumes "collision_free cd" "artifacts_ok cd arts" "store_payload cd arts v = (p, arts')"
  shows "case p of Inline w \<Rightarrow> w = v | Artifact r \<Rightarrow> map_of arts' (ref_sha256 r) = Some v"
  using assms unfolding collision_free_def artifacts_ok_def
  by (fastforce simp: store_payload_def Let_def split: option.splits if_splits)

lemma store_payload_opt_resolve:
  assumes "collision_free cd" "artifacts_ok cd arts" "store_payload_opt cd arts v = (p, arts')"
    "map_of arts' \<subseteq>\<^sub>m map_of (j_artifacts k)"
  shows "map_option (resolve k) p = map_option Some v"
proof (cases v)
  case (Some x)
  obtain q where q: "store_payload cd arts x = (q, arts')" "p = Some q"
    using assms(3) Some by (auto split: prod.splits)
  have "case q of Inline w \<Rightarrow> w = x | Artifact r \<Rightarrow> map_of arts' (ref_sha256 r) = Some x"
    by (rule store_payload_resolve [OF assms(1,2) q(1)])
  then have "resolve k q = Some x"
    using assms(4) by (cases q) (auto simp: resolve_def map_le_def dom_def)
  then show ?thesis using Some q(2) by simp
qed (use assms(3) in simp)

lemma snapshot_from_snapshot:
  assumes "journal_inv cd j"
  shows "from_snapshot cd (snapshot j) c = Ok (j \<lparr> j_clock := c \<rparr>)"
  using assms by (simp add: from_snapshot_def snapshot_def journal_inv_def recompute_head_hash_def)

section \<open>Tamper evidence\<close>

text \<open>The byte strings the chain feeds to the hash function, in order.\<close>

fun chain_inputs :: "codec \<Rightarrow> string \<Rightarrow> run_event list \<Rightarrow> string list" where
  "chain_inputs cd h [] = []"
| "chain_inputs cd h (e # es) =
     (case ser_event cd (canonicalized_for_hash e) of
        None \<Rightarrow> []
      | Some b \<Rightarrow> (h @ b) # chain_inputs cd (sha256_hex cd (h @ b)) es)"

definition hash_inputs :: "codec \<Rightarrow> run_event list \<Rightarrow> string list" where
  "hash_inputs cd es = [] # chain_inputs cd (sha256_hex cd []) es"

lemma chain_inputs_snoc:
  "chain_from cd h es = Inr h' \<Longrightarrow> ser_event cd (canonicalized_for_hash e) = Some b \<Longrightarrow>
     chain_inputs cd h (es @ [e]) = chain_inputs cd h es @ [h' @ b]"
proof (induction es arbitrary: h)
  case (Cons a es)
  then show ?case by (auto simp: chained_hash_def split: option.splits)
qed simp

lemma chain_from_hash:
  "chain_from cd (sha256_hex cd x) es = Inr h \<Longrightarrow> \<exists>y. h = sha256_hex cd y"
proof (induction es arbitrary: x)
  case (Cons a es)
  then show ?case by (auto simp: chained_hash_def split: option.splits)
qed auto

lemma recompute_snoc:
  assumes "recompute_head_hash cd (es @ [e]) = Inr h"
  obtains h' b where "recompute_head_hash cd es = Inr h'"
    "ser_event cd (canonicalized_for_hash e) = Some b" "h = sha256_hex cd (h' @ b)"
    "hash_inputs cd (es @ [e]) = hash_inputs cd es @ [h' @ b]"
proof -
  from assms obtain h' where h': "chain_from cd (sha256_hex cd []) es = Inr h'"
    and c: "chained_hash cd h' e = Inr h"
    by (auto simp: recompute_head_hash_def chain_from_snoc)
  from c obtain b where b: "ser_event cd (canonicalized_for_hash e) = Some b" "h = sha256_hex cd (h' @ b)"
    by (auto simp: chained_hash_def split: option.splits)
  show thesis
    using that [of h' b] h' b chain_inputs_snoc [OF h' b(1)]
    by (simp add: recompute_head_hash_def hash_inputs_def)
qed

lemma head_nonempty:
  "fixed_length_hash cd \<Longrightarrow> recompute_head_hash cd es = Inr h \<Longrightarrow> length h = length (sha256_hex cd []) \<and> h \<noteq> []"
  unfolding recompute_head_hash_def
  by (drule chain_from_hash) (metis fixed_length_hash_def length_0_conv)

text \<open>A collision between the inputs of two chains, made explicit.\<close>

definition chains_collide :: "codec \<Rightarrow> run_event list \<Rightarrow> run_event list \<Rightarrow> bool" where
  "chains_collide cd es fs \<longleftrightarrow>
     (\<exists>x \<in> set (hash_inputs cd es). \<exists>y \<in> set (hash_inputs cd fs). x \<noteq> y \<and> sha256_hex cd x = sha256_hex cd y)"

lemma chains_collide_sym: "chains_collide cd es fs \<longleftrightarrow> chains_collide cd fs es"
  unfolding chains_collide_def by metis

lemma chains_collide_snoc_Nil:
  assumes "fixed_length_hash cd" "recompute_head_hash cd (es @ [e]) = Inr h" "recompute_head_hash cd [] = Inr h"
  shows "chains_collide cd (es @ [e]) []"
proof -
  obtain h' b where h': "recompute_head_hash cd es = Inr h'" "h = sha256_hex cd (h' @ b)"
    "hash_inputs cd (es @ [e]) = hash_inputs cd es @ [h' @ b]" by (rule recompute_snoc [OF assms(2)])
  moreover have "h' @ b \<noteq> []" using head_nonempty [OF assms(1) h'(1)] by simp
  moreover have "h = sha256_hex cd []" using assms(3) by (simp add: recompute_head_hash_def)
  ultimately show ?thesis by (auto simp: chains_collide_def hash_inputs_def)
qed

lemma equal_heads_collide:
  assumes fl: "fixed_length_hash cd" and inj: "codec_injective cd"
  shows "recompute_head_hash cd es = Inr h \<Longrightarrow> recompute_head_hash cd fs = Inr h \<Longrightarrow>
    map canonicalized_for_hash es \<noteq> map canonicalized_for_hash fs \<Longrightarrow> chains_collide cd es fs"
proof (induction es arbitrary: fs h rule: rev_induct)
  case Nil
  then obtain fs' f where "fs = fs' @ [f]" by (cases fs rule: rev_cases) auto
  then show ?case using chains_collide_snoc_Nil [OF fl] Nil by (metis chains_collide_sym)
next
  case (snoc e es)
  show ?case
  proof (cases fs rule: rev_cases)
    case Nil
    then show ?thesis using chains_collide_snoc_Nil [OF fl] snoc by metis
  next
    case (snoc fs' f)
    obtain h1 b1 where e: "recompute_head_hash cd es = Inr h1"
      "ser_event cd (canonicalized_for_hash e) = Some b1" "h = sha256_hex cd (h1 @ b1)"
      "hash_inputs cd (es @ [e]) = hash_inputs cd es @ [h1 @ b1]"
      by (rule recompute_snoc [OF snoc.prems(1)])
    obtain h2 b2 where f: "recompute_head_hash cd fs' = Inr h2"
      "ser_event cd (canonicalized_for_hash f) = Some b2" "h = sha256_hex cd (h2 @ b2)"
      "hash_inputs cd (fs' @ [f]) = hash_inputs cd fs' @ [h2 @ b2]"
      using recompute_snoc snoc.prems(2) snoc by metis
    show ?thesis
    proof (cases "h1 @ b1 = h2 @ b2")
      case True
      then have "h1 = h2" "b1 = b2"
        using head_nonempty [OF fl e(1)] head_nonempty [OF fl f(1)] by auto
      then have "canonicalized_for_hash e = canonicalized_for_hash f"
        using e(2) f(2) inj unfolding codec_injective_def by metis
      then have "chains_collide cd es fs'"
        using snoc.IH [OF e(1)] f(1) snoc.prems(3) \<open>h1 = h2\<close> snoc by simp
      then show ?thesis using e(4) f(4) snoc by (auto simp: chains_collide_def)
    next
      case False
      then show ?thesis using e(3,4) f(3,4) snoc by (auto simp: chains_collide_def)
    qed
  qed
qed


lemma journal_ids_distinct:
  assumes "journal_inv cd j"
  shows "distinct (map ev_id (j_events j))"
proof -
  have "map ev_id (j_events j) = map (\<lambda>i. j_run_id j @ '':'' @ show_nat i) [0..<length (j_events j)]"
    using assms by (auto simp: journal_inv_def event_at_def intro: nth_equalityI)
  then show ?thesis by (simp add: distinct_map inj_on_def)
qed

section \<open>Properties of the journal\<close>

text \<open>
  recording an event.  The journal keeps its invariant (sequence numbers and ids
  \<open>run:seq\<close> in order, the head hash recomputes from the events, every artifact reference of
  an event is in the content-addressed map), all earlier events stay as they were, and the new
  event carries the draft: its payloads resolve to exactly the values given, inline or not,
  and payloads of earlier events resolve as before.
\<close>

lemma record_event_contract:
  assumes "codec_total cd" "collision_free cd" "journal_inv cd j"
  shows "journal_inv cd (snd (record_event cd d j)) \<and>
    (\<exists>e. j_events (snd (record_event cd d j)) = j_events j @ [e] \<and>
       ev_seq e = length (j_events j) \<and> ev_kind e = d_kind d \<and> ev_parent e = d_parent d \<and>
       fst (record_event cd d j) = ev_id e \<and> ev_id e \<notin> set (map ev_id (j_events j)) \<and>
       map_option (resolve (snd (record_event cd d j))) (ev_input e) = map_option Some (d_input d) \<and>
       map_option (resolve (snd (record_event cd d j))) (ev_output e) = map_option Some (d_output d)) \<and>
    (\<forall>p v. resolve j p = Some v \<longrightarrow> resolve (snd (record_event cd d j)) p = Some v)"
proof (rule record_event_cases [of cd j d])
  fix e inp arts1 outp arts2
  let ?j' = "snd (record_event cd d j)"
  assume s1: "store_payload_opt cd (j_artifacts j) (d_input d) = (inp, arts1)"
    and s2: "store_payload_opt cd arts1 (d_output d) = (outp, arts2)"
    and ev: "j_events ?j' = j_events j @ [e]" and ar: "j_artifacts ?j' = arts2"
    and e: "event_at j (length (j_events j)) e" "ev_input e = inp" "ev_output e = outp"
      "ev_kind e = d_kind d" "ev_parent e = d_parent d" "fst (record_event cd d j) = ev_id e"
  have ok: "artifacts_ok cd (j_artifacts j)" using assms(3) by (simp add: journal_inv_def)
  note a1 = store_payload_opt_artifacts [OF ok s1]
  have ok1: "artifacts_ok cd arts1" using a1 by simp
  note a2 = store_payload_opt_artifacts [OF ok1 s2]
  have inv: "journal_inv cd ?j'" using assms(1,3) by (rule journal_inv_record)
  have "distinct (map ev_id (j_events j @ [e]))" using journal_ids_distinct [OF inv] by (simp only: ev)
  then have new: "ev_id e \<notin> set (map ev_id (j_events j))" by simp
  have mono: "map_of (j_artifacts j) \<subseteq>\<^sub>m map_of arts2" "map_of arts1 \<subseteq>\<^sub>m map_of arts2"
    using a1 a2 map_le_trans by blast+
  have "map_option (resolve ?j') inp = map_option Some (d_input d)"
    using store_payload_opt_resolve [OF assms(2) ok s1] mono(2) by (simp add: ar)
  moreover have "map_option (resolve ?j') outp = map_option Some (d_output d)"
    using store_payload_opt_resolve [OF assms(2) ok1 s2] by (simp add: ar)
  moreover have "resolve j p = Some v \<Longrightarrow> resolve ?j' p = Some v" for p v
    using mono(1) by (auto simp: resolve_def ar map_le_def dom_def split: payload_ref.splits)
  ultimately show ?thesis using inv ev e new by (auto simp: event_at_def)
qed

definition demo_bytes :: string where
  "demo_bytes = replicate 5000 CHR ''x''"

lemma demo_bytes_length: "length demo_bytes = 5000" "demo_bytes \<noteq> []"
  by (simp_all add: demo_bytes_def flip: length_greater_0_conv)

definition demo_codec :: codec where
  "demo_codec = \<lparr> sha256_hex = (\<lambda>s. if s = [] then ''0'' else ''1''), ser_event = (\<lambda>e. Some ''e''),
     ser_value = (\<lambda>v. if v = JString ''blob'' then Some demo_bytes else None),
     wall = (\<lambda>n. n), representable = (\<lambda>n. True) \<rparr>"

definition demo_journal :: journal where
  "demo_journal = journal_new demo_codec ''r'' ''t'' SystemClock"

definition demo_draft :: event_draft where
  "demo_draft = (draft_new KNodeInput Pure) \<lparr> d_input := Some (JString ''blob'') \<rparr>"

lemma record_event_contract_witness:
  "j_artifacts (snd (record_event demo_codec demo_draft demo_journal)) = [(''1'', JString ''blob'')] \<and>
   journal_inv demo_codec (snd (record_event demo_codec demo_draft demo_journal))"
proof
  show "j_artifacts (snd (record_event demo_codec demo_draft demo_journal)) = [(''1'', JString ''blob'')]"
    by (simp add: record_event_def demo_draft_def draft_new_def demo_journal_def journal_new_def
        store_payload_def demo_codec_def INLINE_PAYLOAD_MAX_BYTES_def Let_def clock_now_def demo_bytes_length)
  have "codec_total demo_codec" "collision_free demo_codec" "journal_inv demo_codec demo_journal"
    by (auto simp: codec_total_def collision_free_def demo_codec_def demo_journal_def split: if_splits)
  from record_event_contract [OF this, of demo_draft]
  show "journal_inv demo_codec (snd (record_event demo_codec demo_draft demo_journal))" by (rule conjunct1)
qed

text \<open>
  a journal survives its snapshot.  Loading the exported snapshot of any journal that
  keeps the invariant gives the journal back, with the loader's clock.
\<close>

lemma journal_snapshot_roundtrip:
  assumes "journal_inv cd j"
  shows "from_snapshot cd (snapshot j) c = Ok (j \<lparr> j_clock := c \<rparr>)"
  using assms by (rule snapshot_from_snapshot)

lemma journal_snapshot_roundtrip_witness:
  "from_snapshot demo_codec (snapshot (journal_new demo_codec ''r'' ''t'' SystemClock)) (LogicalClock 0 1) =
     Ok ((journal_new demo_codec ''r'' ''t'' SystemClock) \<lparr> j_clock := LogicalClock 0 1 \<rparr>)"
  by (rule journal_snapshot_roundtrip) simp

text \<open>
  C10: tamper evidence.  If two snapshots with the same head hash both load and their events
  differ (in anything but the key order of inline payloads), then the two hash chains exhibit
  a collision of the hash function: two different inputs, among those the chains hash, with
  one digest.
\<close>

theorem journal_tamper_evident:
  assumes "fixed_length_hash cd" "codec_injective cd"
    "from_snapshot cd s c = Ok j" "from_snapshot cd s' c' = Ok j'" "js_head_hash s = js_head_hash s'"
    "map canonicalized_for_hash (js_events s) \<noteq> map canonicalized_for_hash (js_events s')"
  shows "chains_collide cd (js_events s) (js_events s')"
  using assms
  by (intro equal_heads_collide [where h = "js_head_hash s"])
     (auto simp: from_snapshot_def recompute_head_hash_def split: if_splits)


text \<open>Two different journals of one event each, under a hash function that maps every event chain to one digest.\<close>

definition demo_event :: "nat \<Rightarrow> run_event" where
  "demo_event n = \<lparr> ev_id = ''r:0'', ev_run_id = ''r'', ev_thread_id = ''t'', ev_node_id = None,
     ev_seq = 0, ev_kind = KSuperStepStart, ev_effect = Pure, ev_input = None, ev_output = None,
     ev_latency_ms = Some n, ev_tokens = None, ev_cost_usd = None, ev_status = StatusOk,
     ev_parent = None, ev_recorded_at = 0 \<rparr>"

definition weak_codec :: codec where
  "weak_codec = demo_codec \<lparr> ser_event := (\<lambda>e. if e = demo_event 0 then Some ''a''
     else if e = demo_event 1 then Some ''b'' else None) \<rparr>"

definition demo_snapshot :: "nat \<Rightarrow> journal_snapshot" where
  "demo_snapshot n = \<lparr> js_run_id = ''r'', js_thread_id = ''t'', js_events = [demo_event n],
     js_artifacts = [], js_artifact_refs = [], js_head_hash = ''1'' \<rparr>"

theorem journal_tamper_evident_witness:
  "chains_collide weak_codec (js_events (demo_snapshot 0)) (js_events (demo_snapshot 1))"
proof -
  have ne: "demo_event 0 \<noteq> demo_event 1" by (simp add: demo_event_def)
  have canon: "canonicalized_for_hash (demo_event n) = demo_event n" for n
    by (simp add: canonicalized_for_hash_def demo_event_def)
  have "fixed_length_hash weak_codec" "codec_injective weak_codec"
    by (auto simp: fixed_length_hash_def codec_injective_def weak_codec_def demo_codec_def split: if_splits)
  moreover have "\<exists>j. from_snapshot weak_codec (demo_snapshot 0) SystemClock = Ok j"
    "\<exists>j. from_snapshot weak_codec (demo_snapshot 1) SystemClock = Ok j"
    using ne by (simp_all add: from_snapshot_def demo_snapshot_def chained_hash_def canon
        weak_codec_def demo_codec_def)
  ultimately show ?thesis
    using journal_tamper_evident [of weak_codec "demo_snapshot 0" SystemClock _ "demo_snapshot 1" SystemClock]
      ne by (auto simp: demo_snapshot_def canon)
qed

text \<open>
  The head hash covers the events only.  A snapshot that lost its artifacts still loads, so
  the loss shows when a payload is resolved and not before.
\<close>

lemma truncated_artifacts_load:
  assumes "from_snapshot cd s c = Ok j"
  shows "from_snapshot cd (s \<lparr> js_artifacts := [] \<rparr>) c = Ok (j \<lparr> j_artifacts := [] \<rparr>)"
  using assms by (auto simp: from_snapshot_def split: if_splits)

text \<open>
  Large payloads are addressed by the hash of their bytes as they come, small ones are hashed
  in canonical form: with a serializer that keeps the order of entries, two large values with
  the same content get different addresses.
\<close>

lemma artifact_address_not_canonical:
  assumes "ser_value cd v = Some bv" "ser_value cd w = Some bw" "canonicalize_value v = canonicalize_value w"
    "4096 < length bv" "4096 < length bw" "sha256_hex cd bv \<noteq> sha256_hex cd bw"
  shows "fst (store_payload cd a v) \<noteq> fst (store_payload cd a w)"
    and "content_hash cd (Inline v) = content_hash cd (Inline w)"
  using assms by (auto simp: store_payload_def content_hash_def INLINE_PAYLOAD_MAX_BYTES_def Let_def)

end
