(* ===== verification/Artifact_Store.thy ===== *)
theory Artifact_Store
  imports Run_Journal
begin

text \<open>
  Content-addressed artifact stores and the externalized journal snapshot (journal.rs).

  The trait \<open>ArtifactStore\<close> is the interface \<open>artifact_store\<close>: what a client may assume of
  \<open>put\<close> and \<open>get\<close>.  The round trip of the externalized snapshot is proved against it and
  reaches the file store through the interpretation.  The file store is the map from file
  names to contents; I/O faults other than a missing file are not modelled.  Parsing JSON text
  is third-party code and a parameter.
\<close>

section \<open>The file store\<close>

type_synonym file_store = "string \<rightharpoonup> string"

definition artifact_ref_of :: "codec \<Rightarrow> string \<Rightarrow> artifact_ref" where
  "artifact_ref_of cd bytes = \<lparr> ref_sha256 = sha256_hex cd bytes, ref_bytes = length bytes \<rparr>"

definition file_put :: "codec \<Rightarrow> string \<Rightarrow> file_store \<Rightarrow> (rusty_error + artifact_ref) \<times> file_store" where
  "file_put cd bytes fs =
     (let reference = artifact_ref_of cd bytes
      in if fs (ref_sha256 reference) \<noteq> None then (Ok reference, fs)
         else (Ok reference, fs(ref_sha256 reference \<mapsto> bytes)))"

definition file_get :: "codec \<Rightarrow> file_store \<Rightarrow> string \<Rightarrow> rusty_error + string" where
  "file_get cd fs sha =
     (case fs sha of
        None \<Rightarrow> Err (Serialization (ArtifactMissing sha))
      | Some bytes \<Rightarrow>
          let actual = sha256_hex cd bytes
          in if actual \<noteq> sha then Err (Serialization (ArtifactCorrupt sha actual)) else Ok bytes)"

definition file_contains :: "file_store \<Rightarrow> string \<Rightarrow> bool" where
  "file_contains fs sha \<longleftrightarrow> fs sha \<noteq> None"

definition file_delete :: "string \<Rightarrow> file_store \<Rightarrow> bool \<times> file_store" where
  "file_delete sha fs = (fs sha \<noteq> None, fs(sha := None))"

definition file_store_inv :: "codec \<Rightarrow> file_store \<Rightarrow> bool" where
  "file_store_inv cd fs \<longleftrightarrow> (\<forall>k b. fs k = Some b \<longrightarrow> sha256_hex cd b = k)"

section \<open>Externalized snapshots\<close>

fun spill_artifacts ::
  "codec \<Rightarrow> (string \<Rightarrow> 's \<Rightarrow> (rusty_error + artifact_ref) \<times> 's) \<Rightarrow> (string \<times> json) list \<Rightarrow>
   (string \<times> artifact_ref) list \<Rightarrow> 's \<Rightarrow> (rusty_error + (string \<times> artifact_ref) list) \<times> 's" where
  "spill_artifacts cd put [] refs s = (Ok refs, s)"
| "spill_artifacts cd put ((sha, value) # arts) refs s =
     (case ser_value cd value of
        None \<Rightarrow> (Err (Serialization NotSerializable), s)
      | Some bytes \<Rightarrow>
          (case put bytes s of
             (Inl e, s') \<Rightarrow> (Err e, s')
           | (Inr reference, s') \<Rightarrow> spill_artifacts cd put arts (bt_insert sha reference refs) s'))"

definition snapshot_externalized ::
  "codec \<Rightarrow> (string \<Rightarrow> 's \<Rightarrow> (rusty_error + artifact_ref) \<times> 's) \<Rightarrow> journal \<Rightarrow> 's \<Rightarrow>
   (rusty_error + journal_snapshot) \<times> 's" where
  "snapshot_externalized cd put j s =
     (let snap = snapshot j
      in case spill_artifacts cd put (js_artifacts snap) (js_artifact_refs snap) s of
           (Inl e, s') \<Rightarrow> (Err e, s')
         | (Inr refs, s') \<Rightarrow> (Ok (snap \<lparr> js_artifacts := [], js_artifact_refs := refs \<rparr>), s'))"

fun fetch_artifacts ::
  "(string \<Rightarrow> json option) \<Rightarrow> (string \<Rightarrow> rusty_error + string) \<Rightarrow> (string \<times> artifact_ref) list \<Rightarrow>
   (string \<times> json) list \<Rightarrow> rusty_error + (string \<times> json) list" where
  "fetch_artifacts from_slice get [] arts = Ok arts"
| "fetch_artifacts from_slice get ((sha, reference) # refs) arts =
     rbind (get (ref_sha256 reference)) (\<lambda>bytes.
       case from_slice bytes of
         None \<Rightarrow> Err (Serialization (ArtifactNotJson sha))
       | Some value \<Rightarrow> fetch_artifacts from_slice get refs (bt_insert sha value arts))"

definition from_snapshot_with_store ::
  "codec \<Rightarrow> (string \<Rightarrow> json option) \<Rightarrow> (string \<Rightarrow> rusty_error + string) \<Rightarrow> journal_snapshot \<Rightarrow> clock \<Rightarrow>
   rusty_error + journal" where
  "from_snapshot_with_store cd from_slice get snap c =
     rbind (fetch_artifacts from_slice get (js_artifact_refs snap) (js_artifacts snap)) (\<lambda>arts.
       from_snapshot cd (snap \<lparr> js_artifact_refs := [], js_artifacts := arts \<rparr>) c)"

section \<open>The store interface\<close>

definition parses :: "codec \<Rightarrow> (string \<Rightarrow> json option) \<Rightarrow> bool" where
  "parses cd from_slice \<longleftrightarrow> (\<forall>v b. ser_value cd v = Some b \<longrightarrow> from_slice b = Some v)"

definition injective_hash :: "codec \<Rightarrow> bool" where
  "injective_hash cd \<longleftrightarrow> (\<forall>x y. sha256_hex cd x = sha256_hex cd y \<longrightarrow> x = y)"

locale artifact_store =
  fixes cd :: codec
    and put :: "string \<Rightarrow> 's \<Rightarrow> (rusty_error + artifact_ref) \<times> 's"
    and get :: "'s \<Rightarrow> string \<Rightarrow> rusty_error + string"
    and inv :: "'s \<Rightarrow> bool"
  assumes put_address: "fst (put bytes s) = Ok (artifact_ref_of cd bytes)"
    and put_inv: "inv s \<Longrightarrow> inv (snd (put bytes s))"
    and put_get: "inv s \<Longrightarrow> \<exists>b. get (snd (put bytes s)) (sha256_hex cd bytes) = Ok b"
    and put_keep: "get s k = Ok b \<Longrightarrow> get (snd (put bytes s)) k = Ok b"
    and get_verified: "get s k = Ok b \<Longrightarrow> sha256_hex cd b = k"
begin

lemma put_get_same:
  "injective_hash cd \<Longrightarrow> inv s \<Longrightarrow> get (snd (put bytes s)) (sha256_hex cd bytes) = Ok bytes"
  using put_get [of s bytes] get_verified unfolding injective_hash_def by metis

lemma put_pair: "put bytes s = (Ok (artifact_ref_of cd bytes), snd (put bytes s))"
  using put_address by (metis prod.collapse)

text \<open>Spilling puts every artifact under its own address and keeps what the store held.\<close>

lemma spill_ok:
  assumes "injective_hash cd" "inv s" "\<forall>kv \<in> set arts. ser_value cd (snd kv) \<noteq> None"
  shows "\<exists>s'. spill_artifacts cd put arts refs s =
      (Ok (fold (\<lambda>(k, v). bt_insert k (artifact_ref_of cd (the (ser_value cd v)))) arts refs), s') \<and>
    inv s' \<and> (\<forall>k b. get s k = Ok b \<longrightarrow> get s' k = Ok b) \<and>
    (\<forall>kv \<in> set arts. get s' (sha256_hex cd (the (ser_value cd (snd kv)))) = Ok (the (ser_value cd (snd kv))))"
  using assms(2,3)
proof (induction arts arbitrary: refs s)
  case (Cons kv arts)
  obtain k v where kv: "kv = (k, v)" by (cases kv)
  then obtain b where b: "ser_value cd v = Some b" using Cons.prems by auto
  obtain s1 where s1: "put b s = (Ok (artifact_ref_of cd b), s1)" using put_pair by blast
  have p: "inv s1" "\<forall>kv \<in> set arts. ser_value cd (snd kv) \<noteq> None"
    using Cons.prems put_inv [of s b] by (simp_all add: s1)
  from Cons.IH [OF p, of "bt_insert k (artifact_ref_of cd b) refs"]
  obtain s' where s': "spill_artifacts cd put arts (bt_insert k (artifact_ref_of cd b) refs) s1 =
      (Ok (fold (\<lambda>(k, v). bt_insert k (artifact_ref_of cd (the (ser_value cd v)))) arts
        (bt_insert k (artifact_ref_of cd b) refs)), s')"
    and i: "inv s'" and keep: "\<And>k b. get s1 k = Ok b \<Longrightarrow> get s' k = Ok b"
    and all: "\<forall>kv \<in> set arts. get s' (sha256_hex cd (the (ser_value cd (snd kv)))) = Ok (the (ser_value cd (snd kv)))"
    by blast
  have "get s' (sha256_hex cd b) = Ok b" 
    using keep put_get_same [OF assms(1) Cons.prems(1), of b] by (simp add: s1)
  moreover have "spill_artifacts cd put (kv # arts) refs s =
      (Ok (fold (\<lambda>(k, v). bt_insert k (artifact_ref_of cd (the (ser_value cd v)))) (kv # arts) refs), s')"
    using s' by (simp add: kv b s1)
  moreover have "\<forall>k b. get s k = Ok b \<longrightarrow> get s' k = Ok b"
    using keep put_keep [of s _ _ b] by (simp add: s1)
  ultimately show ?case using i all by (intro exI [of _ s']) (simp add: kv b)
qed simp

end

lemma fetch_ok:
  assumes "\<forall>kr \<in> set refs. \<exists>b. get (ref_sha256 (snd kr)) = Ok b \<and> from_slice b = Some (f (fst kr))"
  shows "fetch_artifacts from_slice get refs arts = Ok (fold (\<lambda>kr. bt_insert (fst kr) (f (fst kr))) refs arts)"
  using assms
proof (induction refs arbitrary: arts)
  case (Cons kr refs)
  then show ?case by (cases kr) auto
qed simp


lemma fold_insert_map:
  assumes "bt_inv arts"
  shows "fold (\<lambda>(k, v). bt_insert k (g v)) arts [] = map (\<lambda>(k, v). (k, g v)) arts"
proof -
  have "fold (\<lambda>(k, v). bt_insert k (g v)) arts [] = bt_of_list (map (\<lambda>(k, v). (k, g v)) arts)"
    by (simp add: bt_of_list_def bt_insert_all_def fold_map comp_def case_prod_unfold)
  also have "\<dots> = map (\<lambda>(k, v). (k, g v)) arts"
    using assms bt_inv_map_snd [of "\<lambda>k v. g v" arts] by (intro bt_of_list_id) simp
  finally show ?thesis .
qed

context artifact_store
begin

lemma externalize_then_load:
  assumes "injective_hash cd" "parses cd from_slice" "inv s" "journal_inv cd j"
  shows "\<exists>snap s'. snapshot_externalized cd put j s = (Ok snap, s') \<and> js_artifacts snap = [] \<and>
    from_snapshot_with_store cd from_slice (get s') snap c = Ok (j \<lparr> j_clock := c \<rparr>)"
proof -
  let ?arts = "j_artifacts j"
  let ?r = "\<lambda>v. artifact_ref_of cd (the (ser_value cd v))"
  have ok: "artifacts_ok cd ?arts" using assms(4) by (simp add: journal_inv_def)
  then have bt: "bt_inv ?arts" by (simp add: artifacts_ok_def)
  have val: "\<exists>b. ser_value cd v = Some b \<and> sha256_hex cd b = k" if "(k, v) \<in> set ?arts" for k v
    using ok that bt by (auto simp: artifacts_ok_def dest: bt_inv_distinct)
  then have ser: "\<forall>kv \<in> set ?arts. ser_value cd (snd kv) \<noteq> None" by force
  obtain s' where sp: "spill_artifacts cd put ?arts [] s = (Ok (map (\<lambda>(k, v). (k, ?r v)) ?arts), s')"
    and g: "\<And>k v. (k, v) \<in> set ?arts \<Longrightarrow>
      get s' (sha256_hex cd (the (ser_value cd v))) = Ok (the (ser_value cd v))"
    using spill_ok [OF assms(1,3) ser, of "[]"] fold_insert_map [OF bt, of ?r] by force
  have fetched: "fetch_artifacts from_slice (get s') (map (\<lambda>(k, v). (k, ?r v)) ?arts) [] = Ok ?arts"
  proof -
    have "\<forall>kr \<in> set (map (\<lambda>(k, v). (k, ?r v)) ?arts). \<exists>b. get s' (ref_sha256 (snd kr)) = Ok b \<and>
        from_slice b = Some (the (map_of ?arts (fst kr)))"
    proof
      fix kr assume "kr \<in> set (map (\<lambda>(k, v). (k, ?r v)) ?arts)"
      then obtain k v where kv: "(k, v) \<in> set ?arts" "kr = (k, ?r v)" by auto
      obtain b where "ser_value cd v = Some b" using val [OF kv(1)] by blast
      then show "\<exists>b. get s' (ref_sha256 (snd kr)) = Ok b \<and> from_slice b = Some (the (map_of ?arts (fst kr)))"
        using g [OF kv(1)] assms(2) kv bt
        by (auto simp: parses_def artifact_ref_of_def dest: bt_inv_distinct)
    qed
    from fetch_ok [OF this, of "[]"]
    have "fetch_artifacts from_slice (get s') (map (\<lambda>(k, v). (k, ?r v)) ?arts) [] =
        Ok (fold (\<lambda>kr. bt_insert (fst kr) (the (map_of ?arts (fst kr)))) ?arts [])"
      by (simp add: fold_map comp_def case_prod_unfold)
    also have "fold (\<lambda>kr. bt_insert (fst kr) (the (map_of ?arts (fst kr)))) ?arts [] = bt_of_list ?arts"
      unfolding bt_of_list_def bt_insert_all_def
      by (rule fold_cong) (use bt in \<open>auto dest: bt_inv_distinct\<close>)
    also have "\<dots> = ?arts" using bt by (rule bt_of_list_id)
    finally show ?thesis .
  qed
  show ?thesis
    using sp fetched snapshot_from_snapshot [OF assms(4), of c]
    by (simp add: snapshot_externalized_def from_snapshot_with_store_def snapshot_def)
qed

end

interpretation fstore: artifact_store cd "file_put cd" "file_get cd" "file_store_inv cd" for cd
  by unfold_locales
     (auto simp: file_put_def file_get_def file_store_inv_def artifact_ref_of_def Let_def split: option.splits if_splits)

section \<open>Properties of the file store\<close>

text \<open>
  a journal survives externalization.  Spilling a journal's large payloads to the file
  store leaves a snapshot with no payload bytes in it, and loading that snapshot through the
  store gives the journal back.
\<close>

lemma externalized_snapshot_roundtrip:
  assumes "injective_hash cd" "parses cd from_slice" "file_store_inv cd fs" "journal_inv cd j"
  shows "\<exists>snap fs'. snapshot_externalized cd (file_put cd) j fs = (Ok snap, fs') \<and> js_artifacts snap = [] \<and>
    from_snapshot_with_store cd from_slice (file_get cd fs') snap c = Ok (j \<lparr> j_clock := c \<rparr>)"
  using assms by (rule fstore.externalize_then_load)

definition plain_codec :: codec where
  "plain_codec = demo_codec \<lparr> sha256_hex := (\<lambda>s. s) \<rparr>"

lemma externalized_snapshot_roundtrip_witness:
  "\<exists>snap fs'. snapshot_externalized plain_codec (file_put plain_codec)
      (snd (record_event plain_codec demo_draft (journal_new plain_codec ''r'' ''t'' SystemClock))) Map.empty =
      (Ok snap, fs') \<and> js_artifacts snap = []"
proof -
  have "codec_total plain_codec" by (simp add: codec_total_def plain_codec_def demo_codec_def)
  then have "journal_inv plain_codec
      (snd (record_event plain_codec demo_draft (journal_new plain_codec ''r'' ''t'' SystemClock)))"
    by (rule journal_inv_record) simp
  moreover have "injective_hash plain_codec" "file_store_inv plain_codec Map.empty"
    "parses plain_codec (\<lambda>b. Some (JString ''blob''))"
    by (auto simp: injective_hash_def file_store_inv_def parses_def plain_codec_def demo_codec_def split: if_splits)
  ultimately show ?thesis using externalized_snapshot_roundtrip by blast
qed

end
