(* ===== verification/Egress_Policy.thy ===== *)
theory Egress_Policy
  imports Rust_Text "HOL-Library.Word"
begin

unbundle bit_operations_syntax

text \<open>
  The layer-7 egress policy (rusty-core egress.rs): the policy document and its validation,
  the evaluator that decides one outbound request, path globs, path canonicalization and
  the DNS preflight.  Textual IP addresses are read the way \<open>std::net::IpAddr\<close> reads them.

  A request is admitted only by an explicit grant; a preflighted address is one the endpoint
  pins, or a public one where nothing is pinned; a canonical path cannot leave the root.
\<close>

section \<open>Policy documents\<close>

datatype egress_protocol = Rest | Websocket | Mcp

record egress_rewrite =
  rw_header_rewrite :: bool
  rw_request_body_rewrite :: bool
  rw_websocket_rewrite :: bool

record egress_endpoint =
  ep_host :: string
  ep_port :: "16 word"
  ep_protocol :: egress_protocol
  ep_tls :: bool
  ep_rewrite :: egress_rewrite
  ep_allowed_ips :: "string list"
  ep_allow_encoded_slashes :: bool

datatype egress_rule_mode = Enforce | Audit

record egress_rule =
  ru_methods :: "string list"
  ru_path_pattern :: string
  ru_mode :: egress_rule_mode
  ru_tool_names :: "string list option"

datatype egress_denial_reason =
    NoMatchingPolicy | NoMatchingRule | ComponentNotGranted | AuditMode
  | PreflightFailed | IpNotPinned | PathNotCanonical | RedirectOffPolicy

datatype egress_decision =
    AllowEgress
  | DenyEgress egress_denial_reason "string option"
  | AuditEgress string nat

record egress_endpoint_policy =
  pol_name :: string
  pol_endpoint :: egress_endpoint
  pol_rules :: "egress_rule list"
  pol_originating :: "string list"

type_synonym egress_policy = "egress_endpoint_policy list"

section \<open>Textual IP addresses\<close>

datatype ip_addr =
    V4 "8 word" "8 word" "8 word" "8 word"
  | V6 "16 word list"

definition hex_value :: "char \<Rightarrow> nat option" where
  "hex_value b =
     (if CHR ''0'' \<le> b \<and> b \<le> CHR ''9'' then Some (of_char b - 48)
      else if CHR ''a'' \<le> b \<and> b \<le> CHR ''f'' then Some (of_char b - 97 + 10)
      else if CHR ''A'' \<le> b \<and> b \<le> CHR ''F'' then Some (of_char b - 65 + 10)
      else None)"

definition to_digit :: "nat \<Rightarrow> char \<Rightarrow> nat option" where
  "to_digit radix c = (case hex_value c of None \<Rightarrow> None | Some d \<Rightarrow> if d < radix then Some d else None)"

fun take_digits :: "nat \<Rightarrow> string \<Rightarrow> nat list \<times> string" where
  "take_digits radix [] = ([], [])"
| "take_digits radix (c # cs) =
     (case to_digit radix c of
        None \<Rightarrow> ([], c # cs)
      | Some d \<Rightarrow> (d # fst (take_digits radix cs), snd (take_digits radix cs)))"

definition read_number :: "nat \<Rightarrow> nat \<Rightarrow> bool \<Rightarrow> int \<Rightarrow> string \<Rightarrow> (int \<times> string) option" where
  "read_number radix max_digits allow_zero_prefix bound s =
     (let (ds, rest) = take_digits radix s;
          n = foldl (\<lambda>a d. int radix * a + int d) 0 ds in
      if length ds > max_digits \<or> ds = [] then None
      else if \<not> allow_zero_prefix \<and> starts_with ''0'' s \<and> 1 < length ds then None
      else if n < bound then Some (n, rest) else None)"

definition read_separated ::
    "char \<Rightarrow> nat \<Rightarrow> (string \<Rightarrow> ('a \<times> string) option) \<Rightarrow> string \<Rightarrow> ('a \<times> string) option" where
  "read_separated sep i inner s =
     (if 0 < i then (case s of [] \<Rightarrow> None | c # cs \<Rightarrow> if c = sep then inner cs else None) else inner s)"

fun read_octets :: "nat \<Rightarrow> nat \<Rightarrow> string \<Rightarrow> (int list \<times> string) option" where
  "read_octets i 0 s = Some ([], s)"
| "read_octets i (Suc k) s =
     (case read_separated CHR ''.'' i (read_number 10 3 False 256) s of
        None \<Rightarrow> None
      | Some (n, s') \<Rightarrow> map_option (\<lambda>(ns, r). (n # ns, r)) (read_octets (Suc i) k s'))"

fun read_groups :: "nat \<Rightarrow> nat \<Rightarrow> string \<Rightarrow> 16 word list \<times> bool \<times> string" where
  "read_groups i 0 s = ([], False, s)"
| "read_groups i (Suc k) s =
     (case (if 0 < k then read_separated CHR '':'' i (read_octets 0 4) s else None) of
        Some (ns, s') \<Rightarrow>
          ([of_int (256 * (ns ! 0) + ns ! 1), of_int (256 * (ns ! 2) + ns ! 3)], True, s')
      | None \<Rightarrow>
         (case read_separated CHR '':'' i (read_number 16 4 True 65536) s of
            None \<Rightarrow> ([], False, s)
          | Some (g, s') \<Rightarrow>
              (case read_groups (Suc i) k s' of (gs, v4, r) \<Rightarrow> (of_int g # gs, v4, r))))"

definition read_ipv4_addr :: "string \<Rightarrow> (ip_addr \<times> string) option" where
  "read_ipv4_addr s =
     map_option (\<lambda>(ns, r). (V4 (of_int (ns ! 0)) (of_int (ns ! 1)) (of_int (ns ! 2)) (of_int (ns ! 3)), r))
       (read_octets 0 4 s)"

definition read_ipv6_addr :: "string \<Rightarrow> (ip_addr \<times> string) option" where
  "read_ipv6_addr s =
     (case read_groups 0 8 s of (front, front_v4, s1) \<Rightarrow>
        if length front = 8 then Some (V6 front, s1)
        else if front_v4 then None
        else case strip_prefix ''::'' s1 of
               None \<Rightarrow> None
             | Some s2 \<Rightarrow>
                 (case read_groups 0 (8 - (length front + 1)) s2 of (back, _, s3) \<Rightarrow>
                    Some (V6 (front @ replicate (8 - length front - length back) 0 @ back), s3)))"

definition parse_ip :: "string \<Rightarrow> ip_addr option" where
  "parse_ip s =
     (case (case read_ipv4_addr s of Some r \<Rightarrow> Some r | None \<Rightarrow> read_ipv6_addr s) of
        Some (ip, []) \<Rightarrow> Some ip
      | _ \<Rightarrow> None)"

fun is_v6_link_local :: "16 word list \<Rightarrow> bool" where
  "is_v6_link_local segs = ((segs ! 0) AND 0xffc0 = 0xfe80)"

fun is_private_or_loopback_or_link_local :: "ip_addr \<Rightarrow> bool" where
  "is_private_or_loopback_or_link_local (V4 a b c d) =
     (a = 127
      \<or> (a = 10 \<or> (a = 172 \<and> 16 \<le> b \<and> b \<le> 31) \<or> (a = 192 \<and> b = 168))
      \<or> (a = 169 \<and> b = 254)
      \<or> (224 \<le> a \<and> a \<le> 239)
      \<or> (a = 255 \<and> b = 255 \<and> c = 255 \<and> d = 255)
      \<or> ((a = 192 \<and> b = 0 \<and> c = 2) \<or> (a = 198 \<and> b = 51 \<and> c = 100) \<or> (a = 203 \<and> b = 0 \<and> c = 113)))"
| "is_private_or_loopback_or_link_local (V6 segs) =
     (segs = [0, 0, 0, 0, 0, 0, 0, 1] \<or> (segs ! 0) AND 0xff00 = 0xff00 \<or> is_v6_link_local segs)"

section \<open>Validation\<close>

datatype policy_problem =
    NameEmpty nat
  | HostEmpty nat
  | PortZero nat
  | PatternNotRooted nat nat
  | PatternInnerDoubleStar nat nat
  | ToolNamesEmpty nat nat
  | ToolNamesDuplicate nat nat
  | OriginatingDuplicate nat
  | AllowedIpInvalid nat nat
  | PolicyNamesNotUnique

definition check_rule :: "nat \<Rightarrow> nat \<Rightarrow> egress_rule \<Rightarrow> policy_problem option" where
  "check_rule pi ri rule =
     (if \<not> starts_with ''/'' (ru_path_pattern rule) then Some (PatternNotRooted pi ri)
      else if list_ex (\<lambda>seg. seg = ''**'') (drop 1 (rev (split_on CHR ''/'' (ru_path_pattern rule))))
        then Some (PatternInnerDoubleStar pi ri)
      else case ru_tool_names rule of
             None \<Rightarrow> None
           | Some tools \<Rightarrow>
               if tools = [] then Some (ToolNamesEmpty pi ri)
               else if card (set tools) \<noteq> length tools then Some (ToolNamesDuplicate pi ri)
               else None)"

fun check_rules :: "nat \<Rightarrow> nat \<Rightarrow> egress_rule list \<Rightarrow> policy_problem option" where
  "check_rules pi ri [] = None"
| "check_rules pi ri (r # rs) =
     (case check_rule pi ri r of Some p \<Rightarrow> Some p | None \<Rightarrow> check_rules pi (Suc ri) rs)"

fun check_ips :: "nat \<Rightarrow> nat \<Rightarrow> string list \<Rightarrow> policy_problem option" where
  "check_ips pi ai [] = None"
| "check_ips pi ai (ip # ips) =
     (if parse_ip ip = None then Some (AllowedIpInvalid pi ai) else check_ips pi (Suc ai) ips)"

definition check_policy :: "nat \<Rightarrow> egress_endpoint_policy \<Rightarrow> policy_problem option" where
  "check_policy pi p =
     (if pol_name p = [] then Some (NameEmpty pi)
      else if ep_host (pol_endpoint p) = [] then Some (HostEmpty pi)
      else if ep_port (pol_endpoint p) = 0 then Some (PortZero pi)
      else case check_rules pi 0 (pol_rules p) of
             Some problem \<Rightarrow> Some problem
           | None \<Rightarrow>
               if card (set (pol_originating p)) \<noteq> length (pol_originating p)
               then Some (OriginatingDuplicate pi)
               else check_ips pi 0 (ep_allowed_ips (pol_endpoint p)))"

fun check_policies :: "nat \<Rightarrow> egress_policy \<Rightarrow> policy_problem option" where
  "check_policies pi [] = None"
| "check_policies pi (p # ps) =
     (case check_policy pi p of Some problem \<Rightarrow> Some problem | None \<Rightarrow> check_policies (Suc pi) ps)"

definition egress_validate :: "egress_policy \<Rightarrow> policy_problem option" where
  "egress_validate policies =
     (case check_policies 0 policies of
        Some problem \<Rightarrow> Some problem
      | None \<Rightarrow>
          if card (set (map pol_name policies)) \<noteq> length policies then Some PolicyNamesNotUnique
          else None)"

section \<open>Evaluation\<close>

definition segment_matches :: "string \<Rightarrow> string \<Rightarrow> bool" where
  "segment_matches pattern segment = (if pattern = ''*'' then segment \<noteq> [] else pattern = segment)"

definition glob_matches :: "string \<Rightarrow> string \<Rightarrow> bool" where
  "glob_matches pattern path =
     (let pat_parts = split_on CHR ''/'' pattern; path_parts = split_on CHR ''/'' path in
      if last pat_parts = ''**'' then
        length (butlast pat_parts) \<le> length path_parts \<and>
        list_all (\<lambda>(p, s). segment_matches p s) (zip (butlast pat_parts) path_parts)
      else if length pat_parts \<noteq> length path_parts then False
      else list_all (\<lambda>(p, s). segment_matches p s) (zip pat_parts path_parts))"

definition rule_covers :: "string \<Rightarrow> string \<Rightarrow> string option \<Rightarrow> egress_rule \<Rightarrow> bool" where
  "rule_covers req_method path tool_name rule =
     (if ru_methods rule \<noteq> [] \<and> \<not> list_ex (\<lambda>m. m = req_method) (ru_methods rule) then False
      else if \<not> glob_matches (ru_path_pattern rule) path then False
      else case ru_tool_names rule of
             None \<Rightarrow> True
           | Some allowed \<Rightarrow>
               (case tool_name of None \<Rightarrow> False | Some tn \<Rightarrow> list_ex (\<lambda>t. t = tn) allowed))"

fun scan_rules ::
    "string \<Rightarrow> nat \<Rightarrow> (egress_rule \<Rightarrow> bool) \<Rightarrow> egress_rule list \<Rightarrow> egress_decision" where
  "scan_rules name ri covers [] = DenyEgress NoMatchingRule (Some name)"
| "scan_rules name ri covers (rule # rules) =
     (if covers rule then
        (case ru_mode rule of Enforce \<Rightarrow> AllowEgress | Audit \<Rightarrow> AuditEgress name ri)
      else scan_rules name (Suc ri) covers rules)"

definition endpoint_is :: "string \<Rightarrow> 16 word \<Rightarrow> egress_protocol \<Rightarrow> egress_endpoint_policy \<Rightarrow> bool" where
  "endpoint_is host port protocol p \<longleftrightarrow>
     ep_host (pol_endpoint p) = host \<and> ep_port (pol_endpoint p) = port \<and>
     ep_protocol (pol_endpoint p) = protocol"

definition find_endpoint_policy ::
    "egress_policy \<Rightarrow> string \<Rightarrow> 16 word \<Rightarrow> egress_protocol \<Rightarrow> egress_endpoint_policy option" where
  "find_endpoint_policy policy host port protocol =
     List.find (endpoint_is host port protocol) policy"

definition evaluate_egress ::
    "egress_policy \<Rightarrow> string \<Rightarrow> 16 word \<Rightarrow> egress_protocol \<Rightarrow> string \<Rightarrow> string \<Rightarrow> string option \<Rightarrow>
     string \<Rightarrow> egress_decision" where
  "evaluate_egress policy host port protocol req_method path tool_name component =
     (case List.find (endpoint_is host port protocol) policy of
        None \<Rightarrow> DenyEgress NoMatchingPolicy None
      | Some p \<Rightarrow>
          if pol_originating p \<noteq> [] \<and> \<not> list_ex (\<lambda>c. c = component) (pol_originating p)
          then DenyEgress ComponentNotGranted (Some (pol_name p))
          else scan_rules (pol_name p) 0 (rule_covers req_method path tool_name) (pol_rules p))"

definition evaluate_redirect ::
    "egress_policy \<Rightarrow> string \<Rightarrow> 16 word \<Rightarrow> egress_protocol \<Rightarrow> string \<Rightarrow> string \<Rightarrow> string option \<Rightarrow>
     string \<Rightarrow> egress_decision" where
  "evaluate_redirect policy host port protocol req_method path tool_name component =
     evaluate_egress policy host port protocol req_method path tool_name component"

section \<open>Canonical paths\<close>

text \<open>\<open>out.push(b as char)\<close> appends the code point \<open>b\<close>, in UTF-8.\<close>

definition push_code_point :: "nat \<Rightarrow> string" where
  "push_code_point b =
     (if b < 128 then [char_of b] else [char_of (192 + b div 64), char_of (128 + b mod 64)])"

fun percent_decode :: "string \<Rightarrow> string" where
  "percent_decode (b # h # l # bs) =
     (case (if b = CHR ''%'' then (hex_value h, hex_value l) else (None, None)) of
        (Some hi, Some lo) \<Rightarrow> push_code_point (hi * 16 + lo) @ percent_decode bs
      | _ \<Rightarrow> push_code_point (of_char b) @ percent_decode (h # l # bs))"
| "percent_decode [b, h] = push_code_point (of_char b) @ push_code_point (of_char h)"
| "percent_decode [b] = push_code_point (of_char b)"
| "percent_decode [] = []"

definition walk_segment :: "string \<Rightarrow> string list \<Rightarrow> string list" where
  "walk_segment seg segments =
     (if seg = [] then segments
      else if seg = ''.'' then segments
      else if seg = ''..'' then butlast segments
      else segments @ [seg])"

definition canonicalize_path :: "string \<Rightarrow> bool \<Rightarrow> egress_denial_reason + string" where
  "canonicalize_path path allow_encoded_slashes =
     (if \<not> allow_encoded_slashes \<and> contains_text ''%2f'' (to_ascii_lowercase path)
      then Err PathNotCanonical
      else Ok (''/'' @ join_with ''/''
                 (fold walk_segment (split_on CHR ''/'' (percent_decode path)) [])))"

section \<open>DNS preflight\<close>

datatype preflight_detail =
    ResolvedToNothing string
  | ResolvedToInvalid string string
  | PrivateUnpinned string string
  | OutsidePins string string

datatype preflight_result =
    PreflightAllowed string
  | PreflightDenied egress_denial_reason preflight_detail

definition check_address :: "egress_endpoint \<Rightarrow> string \<Rightarrow> (egress_denial_reason \<times> preflight_detail) option" where
  "check_address ep ip_str =
     (case parse_ip ip_str of
        None \<Rightarrow> Some (PreflightFailed, ResolvedToInvalid (ep_host ep) ip_str)
      | Some ip \<Rightarrow>
          if is_private_or_loopback_or_link_local ip \<and> ep_allowed_ips ep = []
          then Some (PreflightFailed, PrivateUnpinned (ep_host ep) ip_str)
          else if is_private_or_loopback_or_link_local ip \<and>
                  \<not> list_ex (\<lambda>p. p = ip_str) (ep_allowed_ips ep)
          then Some (IpNotPinned, OutsidePins (ep_host ep) ip_str)
          else if ep_allowed_ips ep \<noteq> [] \<and> \<not> list_ex (\<lambda>p. p = ip_str) (ep_allowed_ips ep)
          then Some (IpNotPinned, OutsidePins (ep_host ep) ip_str)
          else None)"

fun check_addresses ::
    "egress_endpoint \<Rightarrow> string list \<Rightarrow> (egress_denial_reason \<times> preflight_detail) option" where
  "check_addresses ep [] = None"
| "check_addresses ep (ip # ips) =
     (case check_address ep ip of Some d \<Rightarrow> Some d | None \<Rightarrow> check_addresses ep ips)"

definition preflight_egress :: "egress_endpoint \<Rightarrow> string list \<Rightarrow> preflight_result" where
  "preflight_egress ep resolved_ips =
     (if resolved_ips = [] then PreflightDenied PreflightFailed (ResolvedToNothing (ep_host ep))
      else case check_addresses ep resolved_ips of
             Some (reason, detail) \<Rightarrow> PreflightDenied reason detail
           | None \<Rightarrow> PreflightAllowed (hd resolved_ips))"

section \<open>Validated documents\<close>

definition rule_wf :: "egress_rule \<Rightarrow> bool" where
  "rule_wf rule \<longleftrightarrow>
     starts_with ''/'' (ru_path_pattern rule) \<and>
     ''**'' \<notin> set (butlast (split_on CHR ''/'' (ru_path_pattern rule))) \<and>
     (\<forall>tools. ru_tool_names rule = Some tools \<longrightarrow> tools \<noteq> [] \<and> distinct tools)"

definition endpoint_policy_wf :: "egress_endpoint_policy \<Rightarrow> bool" where
  "endpoint_policy_wf p \<longleftrightarrow>
     pol_name p \<noteq> [] \<and> ep_host (pol_endpoint p) \<noteq> [] \<and> ep_port (pol_endpoint p) \<noteq> 0 \<and>
     list_all rule_wf (pol_rules p) \<and> distinct (pol_originating p) \<and>
     list_all (\<lambda>ip. parse_ip ip \<noteq> None) (ep_allowed_ips (pol_endpoint p))"

lemma card_set_length: "card (set xs) \<noteq> length xs \<longleftrightarrow> \<not> distinct xs"
  using card_distinct distinct_card by blast

lemma check_rule_None: "check_rule pi ri rule = None \<longleftrightarrow> rule_wf rule"
proof -
  have "set (drop 1 (rev xs)) = set (butlast xs)" for xs :: "string list"
    by (metis One_nat_def butlast_rev drop_0 drop_Suc rev_rev_ident set_rev)
  then show ?thesis
    unfolding check_rule_def rule_wf_def card_set_length
    by (auto simp: list_ex_iff split: option.splits)
qed

lemma check_rules_None: "check_rules pi ri rules = None \<longleftrightarrow> list_all rule_wf rules"
proof (induction pi ri rules rule: check_rules.induct)
  case (2 pi ri r rs)
  then show ?case using check_rule_None [of pi ri r] by (auto split: option.splits)
qed simp

lemma check_ips_None: "check_ips pi ai ips = None \<longleftrightarrow> list_all (\<lambda>ip. parse_ip ip \<noteq> None) ips"
  by (induction pi ai ips rule: check_ips.induct) auto

lemma check_policy_None: "check_policy pi p = None \<longleftrightarrow> endpoint_policy_wf p"
  unfolding check_policy_def endpoint_policy_wf_def card_set_length
  using check_rules_None [of pi 0 "pol_rules p"]
  by (auto simp: check_ips_None split: option.splits)

lemma check_policies_None: "check_policies pi ps = None \<longleftrightarrow> list_all endpoint_policy_wf ps"
proof (induction pi ps rule: check_policies.induct)
  case (2 pi p ps)
  then show ?case using check_policy_None [of pi p] by (auto split: option.splits)
qed simp

text \<open>
  C26: \<open>EgressPolicy::validate\<close> reports no problem exactly for the well-formed documents:
  named policies with a destination, rooted globs whose double star comes last, nonempty
  duplicate-free grants, readable address pins, and names that are unique as audit keys.
\<close>

theorem egress_validate_accepts_exactly:
  "egress_validate P = None \<longleftrightarrow> list_all endpoint_policy_wf P \<and> distinct (map pol_name P)"
proof -
  have "card (set (map pol_name P)) \<noteq> length P \<longleftrightarrow> \<not> distinct (map pol_name P)"
    using card_set_length [of "map pol_name P"] by simp
  then show ?thesis
    unfolding egress_validate_def
    using check_policies_None [of 0 P] by (auto split: option.splits)
qed

section \<open>Admission needs an explicit grant\<close>

fun first_covering :: "('a \<Rightarrow> bool) \<Rightarrow> 'a list \<Rightarrow> nat option" where
  "first_covering covers [] = None"
| "first_covering covers (r # rs) = (if covers r then Some 0 else map_option Suc (first_covering covers rs))"

lemma first_covering_Some:
  "first_covering covers rules = Some i \<longleftrightarrow>
     i < length rules \<and> covers (rules ! i) \<and> (\<forall>j < i. \<not> covers (rules ! j))"
proof (induction rules arbitrary: i)
  case (Cons r rs)
  then show ?case by (cases i) (auto simp: less_Suc_eq_0_disj)
qed simp

lemma scan_rules_first:
  "scan_rules name ri covers rules =
     (case first_covering covers rules of
        None \<Rightarrow> DenyEgress NoMatchingRule (Some name)
      | Some i \<Rightarrow> (case ru_mode (rules ! i) of Enforce \<Rightarrow> AllowEgress | Audit \<Rightarrow> AuditEgress name (ri + i)))"
  by (induction name ri covers rules rule: scan_rules.induct)
    (auto split: option.splits egress_rule_mode.splits)

text \<open>
  What a rule grants, read off its fields: the methods it lists (an empty list is any method),
  the paths its glob describes segment by segment, and the tools it names (no list is any
  request).  In a glob a star stands for one nonempty segment and a final double star for any
  rest, the empty one included.
\<close>

fun path_granted :: "string list \<Rightarrow> string list \<Rightarrow> bool" where
  "path_granted [] segs = (segs = [])"
| "path_granted (p # ps) segs =
     (if p = ''**'' \<and> ps = [] then True
      else case segs of
             [] \<Rightarrow> False
           | s # ss \<Rightarrow> (if p = ''*'' then s \<noteq> [] else s = p) \<and> path_granted ps ss)"

definition rule_grants :: "string \<Rightarrow> string \<Rightarrow> string option \<Rightarrow> egress_rule \<Rightarrow> bool" where
  "rule_grants m path tool rule \<longleftrightarrow>
     (ru_methods rule = [] \<or> m \<in> set (ru_methods rule)) \<and>
     path_granted (split_on CHR ''/'' (ru_path_pattern rule)) (split_on CHR ''/'' path) \<and>
     (ru_tool_names rule = None \<or> (\<exists>allowed tn. ru_tool_names rule = Some allowed \<and> tool = Some tn \<and> tn \<in> set allowed))"

lemma path_granted_open:
  "pat \<noteq> [] \<Longrightarrow> last pat = ''**'' \<Longrightarrow> path_granted pat segs \<longleftrightarrow>
     length (butlast pat) \<le> length segs \<and> list_all (\<lambda>(p, s). segment_matches p s) (zip (butlast pat) segs)"
proof (induction pat segs rule: path_granted.induct)
  case (2 p ps segs)
  then show ?case by (cases segs; cases "ps = []") (auto simp: segment_matches_def)
qed simp

lemma path_granted_closed:
  "pat \<noteq> [] \<longrightarrow> last pat \<noteq> ''**'' \<Longrightarrow> path_granted pat segs \<longleftrightarrow>
     length pat = length segs \<and> list_all (\<lambda>(p, s). segment_matches p s) (zip pat segs)"
proof (induction pat segs rule: path_granted.induct)
  case (2 p ps segs)
  then show ?case by (cases segs; cases "ps = []") (auto simp: segment_matches_def)
qed auto

lemma glob_matches_granted:
  "glob_matches pattern path \<longleftrightarrow> path_granted (split_on CHR ''/'' pattern) (split_on CHR ''/'' path)"
  using path_granted_open [of "split_on CHR ''/'' pattern" "split_on CHR ''/'' path"]
    path_granted_closed [of "split_on CHR ''/'' pattern" "split_on CHR ''/'' path"]
  by (auto simp: glob_matches_def Let_def)

lemma rule_covers_grants: "rule_covers m path tool = rule_grants m path tool"
  by (auto simp: fun_eq_iff rule_covers_def rule_grants_def glob_matches_granted list_ex_iff
      split: option.splits)

text \<open>
  C23: egress is denied by default.  A request gets past the evaluator exactly when the
  policy that governs its destination admits the originating component and has a rule that
  grants the method, the path and the tool; the first such rule decides between a silent
  and an audited admission.
\<close>

theorem egress_denied_by_default:
  "(\<nexists>reason name. evaluate_egress P host port protocol m path tool component = DenyEgress reason name) \<longleftrightarrow>
     (\<exists>p i. find_endpoint_policy P host port protocol = Some p \<and>
        (pol_originating p = [] \<or> component \<in> set (pol_originating p)) \<and>
        first_covering (rule_grants m path tool) (pol_rules p) = Some i \<and>
        evaluate_egress P host port protocol m path tool component =
          (case ru_mode (pol_rules p ! i) of Enforce \<Rightarrow> AllowEgress | Audit \<Rightarrow> AuditEgress (pol_name p) i))"
  unfolding evaluate_egress_def find_endpoint_policy_def scan_rules_first rule_covers_grants
  by (auto simp: list_ex_iff split: option.splits egress_rule_mode.splits)

section \<open>Canonical paths stay below the root\<close>

definition plain_segment :: "string \<Rightarrow> bool" where
  "plain_segment seg \<longleftrightarrow> seg \<noteq> [] \<and> seg \<noteq> ''.'' \<and> seg \<noteq> ''..'' \<and> CHR ''/'' \<notin> set seg"

lemma walk_keeps_plain:
  "list_all plain_segment segs \<Longrightarrow> CHR ''/'' \<notin> set seg \<Longrightarrow> list_all plain_segment (walk_segment seg segs)"
  by (auto simp: walk_segment_def plain_segment_def list_all_iff dest: in_set_butlastD)

lemma fold_walk_plain:
  assumes "\<forall>seg \<in> set todo. CHR ''/'' \<notin> set seg" "list_all plain_segment segs"
  shows "list_all plain_segment (fold walk_segment todo segs)"
  using assms by (induction todo arbitrary: segs) (simp_all add: walk_keeps_plain)

text \<open>
  a canonical path is rooted and free of empty, dot and dot-dot segments, whatever
  encodings the request used, and splitting it at slashes gives back exactly the segments
  that the path globs are matched against.
\<close>

lemma canonical_path_stays_rooted:
  assumes "canonicalize_path path allow = Ok q"
  shows "\<exists>segs. q = ''/'' @ join_with ''/'' segs \<and> list_all plain_segment segs \<and>
           split_on CHR ''/'' q = [] # (if segs = [] then [[]] else segs) \<and>
           (\<not> allow \<longrightarrow> \<not> contains_text ''%2f'' (to_ascii_lowercase path))"
proof -
  define segs where "segs = fold walk_segment (split_on CHR ''/'' (percent_decode path)) []"
  have q: "q = ''/'' @ join_with ''/'' segs"
    and slash: "\<not> allow \<longrightarrow> \<not> contains_text ''%2f'' (to_ascii_lowercase path)"
    using assms by (auto simp: canonicalize_path_def segs_def split: if_splits)
  have plain: "list_all plain_segment segs"
    unfolding segs_def by (rule fold_walk_plain) (auto dest: split_on_pieces)
  then have "\<forall>w \<in> set segs. CHR ''/'' \<notin> set w"
    by (auto simp: list_all_iff plain_segment_def)
  then have "split_on CHR ''/'' q = [] # (if segs = [] then [[]] else segs)"
    by (simp add: q split_join)
  then show ?thesis using q plain slash by blast
qed

lemma canonical_path_stays_rooted_witness:
  "canonicalize_path ''/a/%2e%2e/b//c'' False = Ok ''/b/c'' \<and>
   (\<exists>segs. ''/b/c'' = ''/'' @ join_with ''/'' segs \<and> list_all plain_segment segs \<and>
     split_on CHR ''/'' ''/b/c'' = [] # (if segs = [] then [[]] else segs) \<and>
     (\<not> False \<longrightarrow> \<not> contains_text ''%2f'' (to_ascii_lowercase ''/a/%2e%2e/b//c'')))"
proof -
  have q: "canonicalize_path ''/a/%2e%2e/b//c'' False = Ok ''/b/c''" by code_simp
  then show ?thesis using canonical_path_stays_rooted [OF q] by blast
qed

section \<open>Preflighted addresses\<close>

definition address_ok :: "egress_endpoint \<Rightarrow> string \<Rightarrow> bool" where
  "address_ok ep ip_str \<longleftrightarrow>
     (\<exists>ip. parse_ip ip_str = Some ip \<and>
        (if ep_allowed_ips ep = [] then \<not> is_private_or_loopback_or_link_local ip
         else ip_str \<in> set (ep_allowed_ips ep)))"

lemma check_address_None: "check_address ep ip = None \<longleftrightarrow> address_ok ep ip"
  by (auto simp: check_address_def address_ok_def list_ex_iff split: option.splits)

lemma check_addresses_None: "check_addresses ep ips = None \<longleftrightarrow> list_all (address_ok ep) ips"
  by (induction ips) (auto simp flip: check_address_None split: option.splits)

lemma preflight_allows_exactly:
  "preflight_egress ep ips = PreflightAllowed ip \<longleftrightarrow>
     ips \<noteq> [] \<and> ip = hd ips \<and> list_all (address_ok ep) ips"
  by (auto simp: preflight_egress_def simp flip: check_addresses_None split: option.splits)

text \<open>
  The V6 branch of the private-range test knows loopback, multicast and link-local addresses
  only: a unique-local address and an IPv4-mapped loopback pass the preflight of an endpoint
  without pins.
\<close>

lemma unique_local_passes_preflight:
  "ep_allowed_ips ep = [] \<Longrightarrow> preflight_egress ep [''fd00::1''] = PreflightAllowed ''fd00::1''"
proof -
  have "parse_ip ''fd00::1'' = Some (V6 [0xfd00, 0, 0, 0, 0, 0, 0, 1])" by code_simp
  moreover have "\<not> is_private_or_loopback_or_link_local (V6 [0xfd00, 0, 0, 0, 0, 0, 0, 1])" by simp
  moreover assume "ep_allowed_ips ep = []"
  ultimately show ?thesis by (simp add: preflight_allows_exactly address_ok_def)
qed

lemma mapped_loopback_passes_preflight:
  "ep_allowed_ips ep = [] \<Longrightarrow>
   preflight_egress ep [''::ffff:127.0.0.1''] = PreflightAllowed ''::ffff:127.0.0.1''"
proof -
  have "parse_ip ''::ffff:127.0.0.1'' = Some (V6 [0, 0, 0, 0, 0, 0xffff, 0x7f00, 1])" by code_simp
  moreover have "\<not> is_private_or_loopback_or_link_local (V6 [0, 0, 0, 0, 0, 0xffff, 0x7f00, 1])" by simp
  moreover assume "ep_allowed_ips ep = []"
  ultimately show ?thesis by (simp add: preflight_allows_exactly address_ok_def)
qed

end
