(* ===== verification/Connector_Transport.thy ===== *)
theory Connector_Transport
  imports Egress_Policy Json
begin

text \<open>
  The HTTP transport of the connectors (rusty-server connectors.rs,
  \<open>ReqwestConnectorTransport::send\<close>): a run's stand-in worlds answer first; otherwise every
  request, and every redirect it leads to, is evaluated against the egress policy, its host
  is resolved and preflighted, and the connection is pinned to the approved address.

  URL parsing, name resolution, the HTTP client and the stand-in worlds are code outside
  this repository or behind I/O: they are the fields of \<open>transport_env\<close>.  The model records
  every request put on the wire, so that the theorems can speak about all of them.
\<close>

section \<open>Requests and the outside world\<close>

datatype http_method = HttpGet | HttpPost | HttpPatch | HttpPut | HttpDelete

fun method_str :: "http_method \<Rightarrow> string" where
  "method_str HttpGet = ''GET''"
| "method_str HttpPost = ''POST''"
| "method_str HttpPatch = ''PATCH''"
| "method_str HttpPut = ''PUT''"
| "method_str HttpDelete = ''DELETE''"

record check_request =
  cr_method :: http_method
  cr_url :: string
  cr_headers :: "(string \<times> string) list"
  cr_max_response_bytes :: nat
  cr_body :: "string option"

record check_response =
  rp_status :: nat
  rp_body :: string

record url =
  ur_text :: string
  ur_host_str :: "string option"
  ur_port :: "16 word option"
  ur_path :: string

text \<open>A request as it leaves the process; the address is the one the socket is pinned to.\<close>

record wire_call =
  wc_url :: string
  wc_method :: http_method
  wc_headers :: "(string \<times> string) list"
  wc_body :: "string option"
  wc_pinned :: "(string \<times> 16 word) option"

type_synonym client_error = "bool \<times> string"

record wire_response =
  wr_status :: nat
  wr_location :: string
  wr_chunks :: "(client_error + string) list"

datatype transport_error =
    MalformedUrl string
  | EgressRefused egress_denial_reason "string option"
  | DnsFailed string
  | NoEndpointPolicy string "16 word"
  | PreflightRefused egress_denial_reason preflight_detail
  | PreflightNonAddress string
  | TransportFailed bool string
  | RedirectLimitExceeded
  | ResponseTooLarge nat
  | MalformedRedirect string
  | MalformedRelativeRedirect string
  | RedirectRefused egress_denial_reason "string option" string
  | AnswerDropped
  | WorldError string

record transport_env =
  te_parse_url :: "string \<Rightarrow> url option"
  te_join :: "url \<Rightarrow> string \<Rightarrow> url option"
  te_lookup :: "nat \<Rightarrow> string \<Rightarrow> 16 word \<Rightarrow> string list option"
  te_client :: "(string \<times> 16 word) option \<Rightarrow> client_error option"
  te_send :: "nat \<Rightarrow> wire_call \<Rightarrow> client_error + wire_response"
  te_world :: "string \<Rightarrow> string \<Rightarrow> check_request \<Rightarrow> (transport_error + check_response) option"

record connector_transport =
  ct_policy :: "egress_policy option"
  ct_component :: string
  ct_max_redirects :: nat
  ct_worlds :: bool
  ct_pinned_world :: "(string \<times> string) option"
  ct_faults :: "(string \<times> string) list"
  ct_user_agent :: string

definition connector_transport_new :: "egress_policy option \<Rightarrow> string \<Rightarrow> string \<Rightarrow> connector_transport" where
  "connector_transport_new policy component user_agent =
     \<lparr> ct_policy = policy, ct_component = component, ct_max_redirects = 10, ct_worlds = False,
       ct_pinned_world = None, ct_faults = [], ct_user_agent = user_agent \<rparr>"

definition ct_with_worlds :: "connector_transport \<Rightarrow> connector_transport" where
  "ct_with_worlds t = t\<lparr> ct_worlds := True \<rparr>"

definition ct_with_world :: "string \<Rightarrow> string \<Rightarrow> connector_transport \<Rightarrow> connector_transport" where
  "ct_with_world tenant world_id t = t\<lparr> ct_pinned_world := Some (tenant, world_id) \<rparr>"

section \<open>Stand-in worlds\<close>

definition DEFAULT_TENANT :: string where "DEFAULT_TENANT = ''default''"

definition named_worlds :: "connector_transport \<Rightarrow> json option \<Rightarrow> (string \<times> string) list" where
  "named_worlds t execution =
     (let tenant = (case Option.bind execution (\<lambda>e. Option.bind (json_get e ''tenant'') as_str) of
                      Some s \<Rightarrow> s | None \<Rightarrow> DEFAULT_TENANT);
          several = (case Option.bind execution (\<lambda>e. json_get e ''worlds'') of
                       Some (JArray ws) \<Rightarrow> map (\<lambda>w. (tenant, w)) (List.map_filter as_str ws)
                     | _ \<Rightarrow> []) in
      if several \<noteq> [] then several
      else case Option.bind execution (\<lambda>e. Option.bind (json_get e ''world'') as_str) of
             Some w \<Rightarrow> [(tenant, w)]
           | None \<Rightarrow> (case ct_pinned_world t of Some p \<Rightarrow> [p] | None \<Rightarrow> []))"

fun ask_worlds ::
    "transport_env \<Rightarrow> (string \<times> string) list \<Rightarrow> check_request \<Rightarrow>
     (transport_error + check_response) option" where
  "ask_worlds env [] req = None"
| "ask_worlds env ((tenant, w) # ws) req =
     (case te_world env tenant w req of Some answer \<Rightarrow> Some answer | None \<Rightarrow> ask_worlds env ws req)"

section \<open>Preflight and body\<close>

definition preflight ::
    "transport_env \<Rightarrow> nat \<Rightarrow> egress_policy \<Rightarrow> string \<Rightarrow> 16 word \<Rightarrow> transport_error + string" where
  "preflight env n policy host port =
     (case te_lookup env n host port of
        None \<Rightarrow> Err (DnsFailed host)
      | Some resolved \<Rightarrow>
     (case find_endpoint_policy policy host port Rest of
        None \<Rightarrow> Err (NoEndpointPolicy host port)
      | Some p \<Rightarrow>
     (case preflight_egress (pol_endpoint p) resolved of
        PreflightAllowed ip \<Rightarrow> Ok ip
      | PreflightDenied reason detail \<Rightarrow> Err (PreflightRefused reason detail))))"

fun read_body :: "nat \<Rightarrow> string \<Rightarrow> (client_error + string) list \<Rightarrow> transport_error + string" where
  "read_body ceiling body [] = Ok body"
| "read_body ceiling body (Inl (sent, detail) # chunks) = Err (TransportFailed sent detail)"
| "read_body ceiling body (Inr chunk # chunks) =
     (if ceiling < length body + length chunk then Err (ResponseTooLarge ceiling)
      else read_body ceiling (body @ chunk) chunks)"

definition finish_response ::
    "bool \<Rightarrow> check_request \<Rightarrow> wire_response \<Rightarrow> transport_error + check_response" where
  "finish_response faulted req response =
     rbind (read_body (cr_max_response_bytes req) [] (wr_chunks response)) (\<lambda>body.
       if faulted then Err AnswerDropped
       else Ok \<lparr> rp_status = wr_status response, rp_body = body \<rparr>)"

section \<open>The send loop\<close>

definition url_host :: "url \<Rightarrow> string" where
  "url_host u = (case ur_host_str u of Some h \<Rightarrow> h | None \<Rightarrow> [])"

definition url_port :: "url \<Rightarrow> 16 word" where
  "url_port u = (case ur_port u of Some p \<Rightarrow> p | None \<Rightarrow> 443)"

definition admit_request ::
    "transport_env \<Rightarrow> connector_transport \<Rightarrow> nat \<Rightarrow> url \<Rightarrow> http_method \<Rightarrow>
     transport_error + (string \<times> 16 word) option" where
  "admit_request env t n u m =
     (case ct_policy t of
        None \<Rightarrow> Ok None
      | Some policy \<Rightarrow>
     (case evaluate_egress policy (url_host u) (url_port u) Rest (method_str m) (ur_path u) None
             (ct_component t) of
        DenyEgress reason name \<Rightarrow> Err (EgressRefused reason name)
      | _ \<Rightarrow>
          rbind (preflight env n policy (url_host u) (url_port u)) (\<lambda>ip.
            if parse_ip ip = None then Err (PreflightNonAddress ip) else Ok (Some (ip, url_port u)))))"

definition build_call ::
    "connector_transport \<Rightarrow> check_request \<Rightarrow> url \<Rightarrow> (string \<times> 16 word) option \<Rightarrow> wire_call" where
  "build_call t req u pinned =
     \<lparr> wc_url = cr_url req, wc_method = cr_method req,
       wc_headers =
         [(''Host'', url_host u), (''User-Agent'', ct_user_agent t)] @ cr_headers req @
         (case cr_body req of None \<Rightarrow> [] | Some _ \<Rightarrow> [(''content-type'', ''application/json'')]),
       wc_body = cr_body req, wc_pinned = pinned \<rparr>"

definition redirect_target :: "transport_env \<Rightarrow> url \<Rightarrow> string \<Rightarrow> transport_error + url" where
  "redirect_target env u location =
     (if starts_with ''http://'' location \<or> starts_with ''https://'' location then
        (case te_parse_url env location of
           Some u' \<Rightarrow> Ok u' | None \<Rightarrow> Err (MalformedRedirect location))
      else
        (case te_join env u location of
           Some u' \<Rightarrow> Ok u' | None \<Rightarrow> Err (MalformedRelativeRedirect location)))"

definition admit_redirect ::
    "connector_transport \<Rightarrow> url \<Rightarrow> http_method \<Rightarrow> string \<Rightarrow> transport_error + unit" where
  "admit_redirect t u m location =
     (case ct_policy t of
        None \<Rightarrow> Ok ()
      | Some policy \<Rightarrow>
     (case evaluate_redirect policy (url_host u) (url_port u) Rest (method_str m) (ur_path u) None
             (ct_component t) of
        DenyEgress reason name \<Rightarrow> Err (RedirectRefused reason name location)
      | _ \<Rightarrow> Ok ()))"

definition method_of_str :: "http_method \<Rightarrow> string \<Rightarrow> http_method" where
  "method_of_str current s =
     (if s = ''GET'' then HttpGet else if s = ''POST'' then HttpPost else if s = ''PATCH'' then HttpPatch
      else if s = ''PUT'' then HttpPut else if s = ''DELETE'' then HttpDelete else current)"

text \<open>
  One round of the loop: the request is admitted, sent, and either answered or turned into
  the request that follows the redirect.
\<close>

datatype round_result =
    Answered "transport_error + check_response"
  | Follow check_request

definition handle_response ::
    "transport_env \<Rightarrow> connector_transport \<Rightarrow> bool \<Rightarrow> nat \<Rightarrow> check_request \<Rightarrow> url \<Rightarrow> wire_response \<Rightarrow>
     round_result" where
  "handle_response env t faulted redirect_count req u response =
     (if \<not> (300 \<le> wr_status response \<and> wr_status response < 400)
      then Answered (finish_response faulted req response)
      else if ct_max_redirects t \<le> redirect_count then Answered (Err RedirectLimitExceeded)
      else if wr_location response = [] then Answered (finish_response faulted req response)
      else (case redirect_target env u (wr_location response) of
              Inl e \<Rightarrow> Answered (Err e)
            | Inr u' \<Rightarrow>
           (case admit_redirect t u' (cr_method req) (wr_location response) of
              Inl e \<Rightarrow> Answered (Err e)
            | Inr _ \<Rightarrow>
                Follow (req\<lparr> cr_url := ur_text u',
                             cr_method := method_of_str (cr_method req) (method_str (cr_method req)) \<rparr>))))"

definition wire_send ::
    "transport_env \<Rightarrow> connector_transport \<Rightarrow> bool \<Rightarrow> nat \<Rightarrow> wire_call list \<Rightarrow> check_request \<Rightarrow> url \<Rightarrow>
     wire_call \<Rightarrow> round_result" where
  "wire_send env t faulted redirect_count sent req u call =
     (case te_send env (length sent) call of
        Inl (wire, detail) \<Rightarrow> Answered (Err (TransportFailed wire detail))
      | Inr response \<Rightarrow> handle_response env t faulted redirect_count req u response)"

definition send_round ::
    "transport_env \<Rightarrow> connector_transport \<Rightarrow> bool \<Rightarrow> nat \<Rightarrow> wire_call list \<Rightarrow> check_request \<Rightarrow>
     round_result \<times> wire_call list" where
  "send_round env t faulted redirect_count sent req =
     (case te_parse_url env (cr_url req) of
        None \<Rightarrow> (Answered (Err (MalformedUrl (cr_url req))), sent)
      | Some u \<Rightarrow>
     (case admit_request env t (length sent) u (cr_method req) of
        Inl e \<Rightarrow> (Answered (Err e), sent)
      | Inr pinned \<Rightarrow>
     (case (case pinned of Some _ \<Rightarrow> te_client env pinned | None \<Rightarrow> None) of
        Some (wire, detail) \<Rightarrow> (Answered (Err (TransportFailed wire detail)), sent)
      | None \<Rightarrow>
          (wire_send env t faulted redirect_count sent req u (build_call t req u pinned),
           sent @ [build_call t req u pinned]))))"

lemma handle_response_follow:
  "handle_response env t faulted k req u response = Follow req' \<Longrightarrow>
     k < ct_max_redirects t \<and> cr_max_response_bytes req' = cr_max_response_bytes req"
  by (auto simp: handle_response_def split: sum.splits if_splits)

lemma wire_send_follow:
  "wire_send env t faulted k sent req u call = Follow req' \<Longrightarrow>
     k < ct_max_redirects t \<and> cr_max_response_bytes req' = cr_max_response_bytes req"
  by (auto simp: wire_send_def dest: handle_response_follow split: sum.splits)

lemma send_round_cases:
  assumes "send_round env t faulted k sent req = (r, sent')"
  obtains (refused) e where "sent' = sent" "r = Answered (Err e)"
  | (called) u pinned where "te_parse_url env (cr_url req) = Some u"
      "admit_request env t (length sent) u (cr_method req) = Ok pinned"
      "sent' = sent @ [build_call t req u pinned]"
      "r = wire_send env t faulted k sent req u (build_call t req u pinned)"
proof (cases "te_parse_url env (cr_url req)")
  case None
  then show thesis using assms refused by (auto simp: send_round_def)
next
  case (Some u)
  show thesis
  proof (cases "admit_request env t (length sent) u (cr_method req)")
    case (Inl e)
    then show thesis using assms Some refused by (auto simp: send_round_def)
  next
    case (Inr pinned)
    then show thesis
      using assms Some refused called [OF Some Inr]
      by (cases "case pinned of Some _ \<Rightarrow> te_client env pinned | None \<Rightarrow> None")
        (auto simp: send_round_def)
  qed
qed

lemma send_round_follow_below:
  assumes "send_round env t faulted k sent req = (Follow req', sent')"
  shows "k < ct_max_redirects t \<and> cr_max_response_bytes req' = cr_max_response_bytes req"
  using assms by (cases rule: send_round_cases) (auto dest: wire_send_follow sym)

function send_loop ::
    "transport_env \<Rightarrow> connector_transport \<Rightarrow> bool \<Rightarrow> nat \<Rightarrow> wire_call list \<Rightarrow> check_request \<Rightarrow>
     (transport_error + check_response) \<times> wire_call list" where
  "send_loop env t faulted redirect_count sent req =
     (case send_round env t faulted redirect_count sent req of
        (Answered r, sent') \<Rightarrow> (r, sent')
      | (Follow req', sent') \<Rightarrow> send_loop env t faulted (redirect_count + 1) sent' req')"
  by pat_completeness auto
termination
  by (relation "measure (\<lambda>(env, t, f, k, sent, req). ct_max_redirects t - k)")
    (simp_all, metis diff_less_mono2 lessI send_round_follow_below)

declare send_loop.simps [simp del]

definition transport_send ::
    "transport_env \<Rightarrow> connector_transport \<Rightarrow> json option \<Rightarrow> check_request \<Rightarrow>
     (transport_error + check_response) \<times> wire_call list" where
  "transport_send env t execution req =
     (let faulted = list_ex (\<lambda>(m, p). m = method_str (cr_method req) \<and> contains_text p (cr_url req))
            (ct_faults t) in
      case (if ct_worlds t then ask_worlds env (named_worlds t execution) req else None) of
        Some answer \<Rightarrow> (answer, [])
      | None \<Rightarrow> send_loop env t faulted 0 [] req)"

section \<open>Every wire call is admitted\<close>

definition call_admitted :: "transport_env \<Rightarrow> connector_transport \<Rightarrow> egress_policy \<Rightarrow> wire_call \<Rightarrow> bool" where
  "call_admitted env t policy c \<longleftrightarrow>
     (\<exists>u p ip. te_parse_url env (wc_url c) = Some u \<and>
        (\<nexists>reason name. evaluate_egress policy (url_host u) (url_port u) Rest
            (method_str (wc_method c)) (ur_path u) None (ct_component t) = DenyEgress reason name) \<and>
        find_endpoint_policy policy (url_host u) (url_port u) Rest = Some p \<and>
        wc_pinned c = Some (ip, url_port u) \<and> address_ok (pol_endpoint p) ip)"

lemma preflight_Ok:
  "preflight env n policy host port = Ok ip \<Longrightarrow>
     \<exists>p. find_endpoint_policy policy host port Rest = Some p \<and> address_ok (pol_endpoint p) ip"
  by (auto simp: preflight_def preflight_allows_exactly list_all_iff
      split: option.splits preflight_result.splits)

lemma admit_request_Ok:
  assumes "admit_request env t n u m = Ok pinned" "ct_policy t = Some policy"
    "te_parse_url env (cr_url req) = Some u" "cr_method req = m"
  shows "call_admitted env t policy (build_call t req u pinned)"
proof -
  let ?d = "evaluate_egress policy (url_host u) (url_port u) Rest (method_str m) (ur_path u) None
    (ct_component t)"
  have allowed: "\<nexists>reason name. ?d = DenyEgress reason name"
    using assms(1,2) by (auto simp: admit_request_def)
  have "\<exists>ip. preflight env n policy (url_host u) (url_port u) = Ok ip \<and> pinned = Some (ip, url_port u)"
    using assms(1,2) allowed
    by (cases ?d) (auto simp: admit_request_def split: if_splits)
  then show ?thesis
    using allowed assms(3,4) preflight_Ok
    by (fastforce simp: call_admitted_def build_call_def)
qed

lemma send_round_admits:
  assumes "send_round env t faulted k sent req = (r, sent')" "ct_policy t = Some policy"
    "list_all (call_admitted env t policy) sent"
  shows "list_all (call_admitted env t policy) sent'"
  using assms(1)
proof (cases rule: send_round_cases)
  case (called u pinned)
  then show ?thesis using admit_request_Ok [OF _ assms(2)] assms(3) by auto
qed (use assms(3) in simp)

lemma send_loop_admits:
  "ct_policy t = Some policy \<Longrightarrow> list_all (call_admitted env t policy) sent \<Longrightarrow>
    list_all (call_admitted env t policy) (snd (send_loop env t faulted k sent req))"
proof (induction env t faulted k sent req rule: send_loop.induct)
  case (1 env t faulted k sent req)
  obtain r sent' where round: "send_round env t faulted k sent req = (r, sent')" by fastforce
  show ?case
  proof (cases r)
    case (Answered x)
    then show ?thesis
      using send_round_admits [OF round 1(2,3)] by (subst send_loop.simps) (simp add: round)
  next
    case (Follow req')
    then show ?thesis
      using send_round_admits [OF round 1(2,3)] 1(1) [OF round [symmetric] Follow 1(2)]
      by (subst send_loop.simps) (simp add: round)
  qed
qed

text \<open>
  C14: with an egress policy in force, no request leaves the process unadmitted.  Every
  call put on the wire, redirects included, goes to a URL that the policy does not deny for
  its method and path, and its socket is pinned to an address that passed the preflight of
  the endpoint that governs the destination.
\<close>

theorem every_wire_call_admitted:
  assumes "ct_policy t = Some policy"
  shows "list_all (call_admitted env t policy) (snd (transport_send env t execution req))"
  using send_loop_admits [OF assms, of env "[]"]
  by (auto simp: transport_send_def Let_def split: option.splits)

definition demo_url :: "string \<Rightarrow> url" where
  "demo_url s = \<lparr> ur_text = ''https://api.example'' @ s, ur_host_str = Some ''api.example'',
                  ur_port = None, ur_path = s \<rparr>"

definition demo_transport_env :: transport_env where
  "demo_transport_env =
     \<lparr> te_parse_url = (\<lambda>s. map_option demo_url (strip_prefix ''https://api.example'' s)),
       te_join = (\<lambda>u s. Some (demo_url s)),
       te_lookup = (\<lambda>n h p. Some [''93.184.216.34'']),
       te_client = (\<lambda>p. None),
       te_send = (\<lambda>n c. Inr (if n = 0
         then \<lparr> wr_status = 302, wr_location = ''/v2'', wr_chunks = [] \<rparr>
         else \<lparr> wr_status = 200, wr_location = [], wr_chunks = [Inr ''ok''] \<rparr>)),
       te_world = (\<lambda>t w r. None) \<rparr>"

definition demo_egress :: egress_policy where
  "demo_egress =
     [\<lparr> pol_name = ''api'',
        pol_endpoint = \<lparr> ep_host = ''api.example'', ep_port = 443, ep_protocol = Rest, ep_tls = True,
          ep_rewrite = \<lparr> rw_header_rewrite = False, rw_request_body_rewrite = False,
            rw_websocket_rewrite = False \<rparr>,
          ep_allowed_ips = [], ep_allow_encoded_slashes = False \<rparr>,
        pol_rules = [\<lparr> ru_methods = [''GET''], ru_path_pattern = ''/*'', ru_mode = Enforce,
          ru_tool_names = None \<rparr>],
        pol_originating = [''connector-check''] \<rparr>]"

definition demo_check :: check_request where
  "demo_check = \<lparr> cr_method = HttpGet, cr_url = ''https://api.example/v1'', cr_headers = [],
                  cr_max_response_bytes = 8, cr_body = None \<rparr>"

theorem every_wire_call_admitted_witness:
  "ct_policy (connector_transport_new (Some demo_egress) ''connector-check'' ''rusty'') = Some demo_egress \<and>
   transport_send demo_transport_env
     (connector_transport_new (Some demo_egress) ''connector-check'' ''rusty'') None demo_check =
     (Ok \<lparr> rp_status = 200, rp_body = ''ok'' \<rparr>,
      [build_call (connector_transport_new (Some demo_egress) ''connector-check'' ''rusty'') demo_check
         (demo_url ''/v1'') (Some (''93.184.216.34'', 443)),
       build_call (connector_transport_new (Some demo_egress) ''connector-check'' ''rusty'')
         (demo_check\<lparr> cr_url := ''https://api.example/v2'' \<rparr>)
         (demo_url ''/v2'') (Some (''93.184.216.34'', 443))]) \<and>
   list_all (call_admitted demo_transport_env
       (connector_transport_new (Some demo_egress) ''connector-check'' ''rusty'') demo_egress)
     (snd (transport_send demo_transport_env
       (connector_transport_new (Some demo_egress) ''connector-check'' ''rusty'') None demo_check))"
proof (intro conjI)
  let ?t = "connector_transport_new (Some demo_egress) ''connector-check'' ''rusty''"
  show p: "ct_policy ?t = Some demo_egress" by (simp add: connector_transport_new_def)
  show "list_all (call_admitted demo_transport_env ?t demo_egress)
      (snd (transport_send demo_transport_env ?t None demo_check))"
    by (rule every_wire_call_admitted [OF p])
qed code_simp

section \<open>The loop ends\<close>

lemma send_round_length:
  assumes "send_round env t faulted k sent req = (r, sent')"
  shows "length sent' \<le> length sent + 1"
  using assms by (cases rule: send_round_cases) auto

lemma send_loop_length:
  "length (snd (send_loop env t faulted k sent req)) \<le> length sent + (ct_max_redirects t - k) + 1"
proof (induction env t faulted k sent req rule: send_loop.induct)
  case (1 env t faulted k sent req)
  obtain r sent' where round: "send_round env t faulted k sent req = (r, sent')" by fastforce
  show ?case
  proof (cases r)
    case (Answered x)
    then show ?thesis
      using send_round_length [OF round] by (subst send_loop.simps) (simp add: round)
  next
    case (Follow req')
    have "k < ct_max_redirects t"
      using round Follow send_round_follow_below by blast
    moreover have "length (snd (send_loop env t faulted (k + 1) sent' req')) \<le>
        length sent' + (ct_max_redirects t - (k + 1)) + 1"
      by (rule 1 [OF round [symmetric] Follow])
    ultimately show ?thesis
      using send_round_length [OF round] Follow by (subst send_loop.simps) (simp add: round)
  qed
qed

text \<open>
  C17: sending always ends.  However the remote side redirects, the loop returns a result
  after at most \<open>max_redirects + 1\<close> calls on the wire (eleven for the constructor's default).
\<close>

theorem send_ends_within_redirect_limit:
  "\<exists>result calls. transport_send env t execution req = (result, calls) \<and>
     length calls \<le> ct_max_redirects t + 1"
proof -
  have "length (snd (send_loop env t f 0 [] req)) \<le> ct_max_redirects t + 1" for f
    using send_loop_length [of env t f 0 "[]" req] by simp
  then have "length (snd (transport_send env t execution req)) \<le> ct_max_redirects t + 1"
    by (simp add: transport_send_def Let_def split: option.split)
  then show ?thesis
    by (cases "transport_send env t execution req") simp
qed

section \<open>Response ceiling\<close>

lemma read_body_ceiling:
  "read_body ceiling body chunks = Ok r \<Longrightarrow> length body \<le> ceiling \<Longrightarrow> length r \<le> ceiling"
  by (induction ceiling body chunks rule: read_body.induct) (auto split: if_splits)

lemma finish_response_ceiling:
  "finish_response faulted req response = Ok x \<Longrightarrow> length (rp_body x) \<le> cr_max_response_bytes req"
  using read_body_ceiling [of "cr_max_response_bytes req" "[]" "wr_chunks response"]
  by (auto simp: finish_response_def split: if_splits)

lemma wire_send_ceiling:
  "wire_send env t faulted k sent req u call = Answered (Ok x) \<Longrightarrow>
     length (rp_body x) \<le> cr_max_response_bytes req"
  by (auto simp: wire_send_def handle_response_def dest: finish_response_ceiling
      split: sum.splits if_splits)

lemma send_round_ceiling:
  assumes "send_round env t faulted k sent req = (Answered (Ok x), sent')"
  shows "length (rp_body x) \<le> cr_max_response_bytes req"
  using assms
proof (cases rule: send_round_cases)
  case (called u pinned)
  show ?thesis by (rule wire_send_ceiling [OF called(4) [symmetric]])
qed simp

lemma send_loop_ceiling:
  "fst (send_loop env t faulted k sent req) = Ok x \<Longrightarrow> length (rp_body x) \<le> cr_max_response_bytes req"
proof (induction env t faulted k sent req rule: send_loop.induct)
  case (1 env t faulted k sent req)
  obtain r sent' where round: "send_round env t faulted k sent req = (r, sent')" by fastforce
  show ?case
  proof (cases r)
    case (Answered y)
    then have "y = Ok x" using 1(2) round send_loop.simps [of env t faulted k sent req] by simp
    then show ?thesis using send_round_ceiling round Answered by blast
  next
    case (Follow req')
    then have "fst (send_loop env t faulted (k + 1) sent' req') = Ok x"
      using 1(2) round send_loop.simps [of env t faulted k sent req] by simp
    then show ?thesis
      using 1(1) [OF round [symmetric] Follow] send_round_follow_below round Follow by metis
  qed
qed

end
