(* ===== verification/Middleware_Chain.thy ===== *)
theory Middleware_Chain
  imports Run_Journal Rust_Text
begin

text \<open>
  The interception layer (rusty-core middleware.rs): middleware chains with onion semantics
  around node runs, model calls and tool calls, the retrying form around model calls, and the
  four layers a journaled composition can name.

  A layer is a record of its hooks, one per method of the \<open>Middleware\<close> trait.  What a hook
  shares with the run is the journal, so a hook takes it and returns it; the call context it may
  rewrite and its verdict are part of the result.  The operation a chain wraps is an argument.
  The retry loop may run forever, so it is a partial function and \<open>None\<close> is not returning; its
  attempt counter is a \<open>u32\<close> and wraps.
\<close>

section \<open>Messages and calls\<close>

datatype role = SystemRole | UserRole | AssistantRole | ToolRole

record tool_call =
  tc_id :: string
  tc_name :: string
  tc_arguments :: json

record chat_message =
  cm_role :: role
  cm_content :: "string option"
  cm_tool_calls :: "tool_call list"
  cm_tool_call_id :: "string option"
  cm_name :: "string option"

definition system_message :: "string \<Rightarrow> chat_message" where
  "system_message content = \<lparr> cm_role = SystemRole, cm_content = Some content, cm_tool_calls = [],
     cm_tool_call_id = None, cm_name = None \<rparr>"

definition tool_result :: "string \<Rightarrow> string \<Rightarrow> chat_message" where
  "tool_result call_id content = \<lparr> cm_role = ToolRole, cm_content = Some content, cm_tool_calls = [],
     cm_tool_call_id = Some call_id, cm_name = None \<rparr>"

record chat_response =
  rs_message :: chat_message
  rs_model :: "string option"
  rs_usage :: "usage option"

record node_call =
  nc_thread_id :: string
  nc_node :: string
  nc_step :: nat
  nc_state :: channel_state

record model_call =
  mc_thread_id :: string
  mc_node :: string
  mc_messages :: "chat_message list"
  mc_tools :: "json list"

record tool_invocation =
  ti_thread_id :: string
  ti_node :: string
  ti_call :: tool_call
  ti_effect :: "effect option"

section \<open>Verdicts\<close>

datatype intercept_point = AtNodeRun | AtModelCall | AtToolCall

primrec point_name :: "intercept_point \<Rightarrow> string" where
  "point_name AtNodeRun = ''node_run''"
| "point_name AtModelCall = ''model_call''"
| "point_name AtToolCall = ''tool_call''"

record rejection =
  rj_middleware :: string
  rj_point :: intercept_point
  rj_reason :: string
  rj_detail :: "string option"

definition rejection_text :: "rejection \<Rightarrow> string" where
  "rejection_text r = ''rejected by middleware `'' @ rj_middleware r @ ''` at '' @
     point_name (rj_point r) @ '': '' @ rj_reason r"

definition into_error :: "rejection \<Rightarrow> rusty_error" where
  "into_error r =
     (case rj_point r of
        AtNodeRun \<Rightarrow> Node (NodeMessage (rejection_text r))
      | AtModelCall \<Rightarrow> Llm (rejection_text r)
      | AtToolCall \<Rightarrow> Tool (rejection_text r))"

datatype 'r decision = Continue | Reject rejection | ShortCircuit 'r

datatype model_error_decision =
    ContinueError
  | RetryAfter nat
  | Recovered chat_response
  | RejectError rejection

section \<open>Layers\<close>

record middleware =
  mw_name :: string
  mw_before_node :: "node_call \<Rightarrow> journal \<Rightarrow> node_call \<times> node_output decision \<times> journal"
  mw_after_node :: "node_call \<Rightarrow> node_output \<Rightarrow> journal \<Rightarrow> node_output \<times> node_output decision \<times> journal"
  mw_before_model :: "model_call \<Rightarrow> journal \<Rightarrow> model_call \<times> chat_response decision \<times> journal"
  mw_after_model :: "model_call \<Rightarrow> chat_response \<Rightarrow> journal \<Rightarrow> chat_response \<times> chat_response decision \<times> journal"
  mw_on_model_error :: "model_call \<Rightarrow> rusty_error \<Rightarrow> nat \<Rightarrow> journal \<Rightarrow> model_error_decision \<times> model_call \<times> journal"
  mw_before_tool :: "tool_invocation \<Rightarrow> journal \<Rightarrow> tool_invocation \<times> json decision \<times> journal"
  mw_after_tool :: "tool_invocation \<Rightarrow> json \<Rightarrow> journal \<Rightarrow> json \<times> json decision \<times> journal"

text \<open>The default bodies of the trait: every hook passes through.\<close>

definition pass_through :: "string \<Rightarrow> middleware" where
  "pass_through name = \<lparr> mw_name = name,
     mw_before_node = (\<lambda>c j. (c, Continue, j)), mw_after_node = (\<lambda>c r j. (r, Continue, j)),
     mw_before_model = (\<lambda>c j. (c, Continue, j)), mw_after_model = (\<lambda>c r j. (r, Continue, j)),
     mw_on_model_error = (\<lambda>c e attempt j. (ContinueError, c, j)),
     mw_before_tool = (\<lambda>c j. (c, Continue, j)), mw_after_tool = (\<lambda>c r j. (r, Continue, j)) \<rparr>"

section \<open>The onion\<close>

text \<open>
  \<open>enter\<close> is the inbound loop with its counter of entered layers, \<open>unwind\<close> the outbound loop
  over the entered layers in reverse.
\<close>

fun enter ::
    "('m \<Rightarrow> 'c \<Rightarrow> 's \<Rightarrow> 'c \<times> 'r decision \<times> 's) \<Rightarrow> 'm list \<Rightarrow> nat \<Rightarrow> 'c \<Rightarrow> 's \<Rightarrow>
     (rejection + 'r option \<times> nat) \<times> 'c \<times> 's" where
  "enter before [] n c s = (Ok (None, n), c, s)"
| "enter before (l # ls) n c s =
     (case before l c s of
        (c', Continue, s') \<Rightarrow> enter before ls (Suc n) c' s'
      | (c', Reject j, s') \<Rightarrow> (Err j, c', s')
      | (c', ShortCircuit out, s') \<Rightarrow> (Ok (Some out, n), c', s'))"

fun unwind ::
    "('m \<Rightarrow> 'c \<Rightarrow> 'r \<Rightarrow> 's \<Rightarrow> 'r \<times> 'r decision \<times> 's) \<Rightarrow> 'm list \<Rightarrow> 'c \<Rightarrow> 'r \<Rightarrow> 's \<Rightarrow>
     (rejection + 'r) \<times> 's" where
  "unwind after [] c r s = (Ok r, s)"
| "unwind after (l # ls) c r s =
     (case after l c r s of
        (r', Continue, s') \<Rightarrow> unwind after ls c r' s'
      | (r', Reject j, s') \<Rightarrow> (Err j, s')
      | (r', ShortCircuit out, s') \<Rightarrow> (Ok out, s'))"

definition leave ::
    "('m \<Rightarrow> 'c \<Rightarrow> 'r \<Rightarrow> 's \<Rightarrow> 'r \<times> 'r decision \<times> 's) \<Rightarrow> (rejection \<Rightarrow> 'e) \<Rightarrow> 'm list \<Rightarrow> 'c \<Rightarrow> 'r \<Rightarrow> 's \<Rightarrow>
     ('e + 'r) \<times> 's" where
  "leave after err entered c r s =
     (case unwind after (rev entered) c r s of
        (Inl j, s') \<Rightarrow> (Err (err j), s')
      | (Inr out, s') \<Rightarrow> (Ok out, s'))"

definition run_onion ::
    "('m \<Rightarrow> 'c \<Rightarrow> 's \<Rightarrow> 'c \<times> 'r decision \<times> 's) \<Rightarrow> ('m \<Rightarrow> 'c \<Rightarrow> 'r \<Rightarrow> 's \<Rightarrow> 'r \<times> 'r decision \<times> 's) \<Rightarrow>
     (rejection \<Rightarrow> 'e) \<Rightarrow> 'm list \<Rightarrow> ('c \<Rightarrow> 's \<Rightarrow> ('e + 'r) \<times> 's) \<Rightarrow> 'c \<Rightarrow> 's \<Rightarrow> ('e + 'r) \<times> 's" where
  "run_onion before after err layers op c s =
     (case enter before layers 0 c s of
        (Inl j, c', s') \<Rightarrow> (Err (err j), s')
      | (Inr (Some out, entered), c', s') \<Rightarrow> leave after err (take entered layers) c' out s'
      | (Inr (None, entered), c', s') \<Rightarrow>
          (case op c' s' of
             (Inl e, s'') \<Rightarrow> (Err e, s'')
           | (Inr r, s'') \<Rightarrow> leave after err layers c' r s''))"

definition run_node ::
    "middleware list \<Rightarrow> (node_call \<Rightarrow> journal \<Rightarrow> (rusty_error + node_output) \<times> journal) \<Rightarrow>
     node_call \<Rightarrow> journal \<Rightarrow> (rusty_error + node_output) \<times> journal" where
  "run_node layers op call j = run_onion mw_before_node mw_after_node into_error layers op call j"

definition run_model ::
    "middleware list \<Rightarrow> (model_call \<Rightarrow> journal \<Rightarrow> (rusty_error + chat_response) \<times> journal) \<Rightarrow>
     model_call \<Rightarrow> journal \<Rightarrow> (rusty_error + chat_response) \<times> journal" where
  "run_model layers op call j = run_onion mw_before_model mw_after_model into_error layers op call j"

text \<open>
  The operation of a tool call works on more than the journal: \<open>get\<close> and \<open>put\<close> reach the
  journal inside its world, and \<open>err\<close> is how its errors carry a rejection.
\<close>

definition run_tool ::
    "('w \<Rightarrow> journal) \<Rightarrow> (journal \<Rightarrow> 'w \<Rightarrow> 'w) \<Rightarrow> (rejection \<Rightarrow> 'e) \<Rightarrow> middleware list \<Rightarrow>
     (tool_invocation \<Rightarrow> 'w \<Rightarrow> ('e + json) \<times> 'w) \<Rightarrow> tool_invocation \<Rightarrow> 'w \<Rightarrow> ('e + json) \<times> 'w" where
  "run_tool get put err layers op call w =
     run_onion
       (\<lambda>m c w. let (c', d, j) = mw_before_tool m c (get w) in (c', d, put j w))
       (\<lambda>m c r w. let (r', d, j) = mw_after_tool m c r (get w) in (r', d, put j w))
       err layers op call w"

section \<open>Model calls with retries\<close>

fun ask_handlers ::
    "middleware list \<Rightarrow> model_call \<Rightarrow> rusty_error \<Rightarrow> nat \<Rightarrow> journal \<Rightarrow>
     model_error_decision \<times> model_call \<times> journal" where
  "ask_handlers [] c e attempt j = (ContinueError, c, j)"
| "ask_handlers (l # ls) c e attempt j =
     (case mw_on_model_error l c e attempt j of
        (ContinueError, c', j') \<Rightarrow> ask_handlers ls c' e attempt j'
      | answer \<Rightarrow> answer)"

partial_function (option) attempt_loop ::
    "middleware list \<Rightarrow> (model_call \<Rightarrow> journal \<Rightarrow> (rusty_error + chat_response) \<times> journal) \<Rightarrow>
     model_call \<Rightarrow> nat \<Rightarrow> journal \<Rightarrow> ((rusty_error + chat_response) \<times> model_call \<times> journal) option" where
  "attempt_loop layers op c attempt j =
     (case op c j of
        (Inr r, j') \<Rightarrow> Some (Ok r, c, j')
      | (Inl e, j') \<Rightarrow>
          (case ask_handlers layers c e attempt j' of
             (ContinueError, c', j'') \<Rightarrow> Some (Err e, c', j'')
           | (RetryAfter delay, c', j'') \<Rightarrow> attempt_loop layers op c' ((attempt + 1) mod 2 ^ 32) j''
           | (Recovered r, c', j'') \<Rightarrow> Some (Ok r, c', j'')
           | (RejectError rej, c', j'') \<Rightarrow> Some (Err (into_error rej), c', j'')))"

definition run_model_retry ::
    "middleware list \<Rightarrow> (model_call \<Rightarrow> journal \<Rightarrow> (rusty_error + chat_response) \<times> journal) \<Rightarrow>
     model_call \<Rightarrow> journal \<Rightarrow> ((rusty_error + chat_response) \<times> journal) option" where
  "run_model_retry layers op call j =
     (case enter mw_before_model layers 0 call j of
        (Inl rej, c', j') \<Rightarrow> Some (Err (into_error rej), j')
      | (Inr (Some out, entered), c', j') \<Rightarrow>
          Some (leave mw_after_model into_error (take entered layers) c' out j')
      | (Inr (None, entered), c', j') \<Rightarrow>
          (case attempt_loop layers op c' 0 j' of
             None \<Rightarrow> None
           | Some (Inl e, c'', j'') \<Rightarrow> Some (Err e, j'')
           | Some (Inr r, c'', j'') \<Rightarrow> Some (leave mw_after_model into_error layers c'' r j'')))"

text \<open>\<open>MiddlewareChatModel\<close>: an empty chain calls the inner model directly.\<close>

definition middleware_chat ::
    "middleware list \<Rightarrow> (chat_message list \<Rightarrow> json list \<Rightarrow> journal \<Rightarrow> (rusty_error + chat_response) \<times> journal) \<Rightarrow>
     string \<Rightarrow> string \<Rightarrow> chat_message list \<Rightarrow> json list \<Rightarrow> journal \<Rightarrow> ((rusty_error + chat_response) \<times> journal) option" where
  "middleware_chat chain inner thread_id node messages tools j =
     (if chain = [] then Some (inner messages tools j)
      else run_model_retry chain (\<lambda>c. inner (mc_messages c) (mc_tools c))
        \<lparr> mc_thread_id = thread_id, mc_node = node, mc_messages = messages, mc_tools = tools \<rparr> j)"

section \<open>The compiled-in layers\<close>

text \<open>
  The rendered text of an error in lower case (a derived \<open>Display\<close> and Unicode case folding) and
  the floating-point backoff, which only decides how long a retry sleeps, are functions of the
  environment.
\<close>

record layer_env =
  le_error_lowercase :: "rusty_error \<Rightarrow> string"
  le_backoff_ms :: "nat \<Rightarrow> json option \<Rightarrow> nat \<Rightarrow> nat"

definition request_logger :: middleware where
  "request_logger = pass_through ''request_logger''"

definition tool_call_blocklist :: "string list \<Rightarrow> string \<Rightarrow> middleware" where
  "tool_call_blocklist blocked reason = (pass_through ''tool_call_blocklist'')
     \<lparr> mw_before_tool := (\<lambda>c j.
         (c, if tc_name (ti_call c) \<in> set blocked
             then Reject \<lparr> rj_middleware = ''tool_call_blocklist'', rj_point = AtToolCall, rj_reason = reason,
                    rj_detail = Some (''tool `'' @ tc_name (ti_call c) @ ''` is blocked by policy'') \<rparr>
             else Continue, j)) \<rparr>"

record retry_handler =
  rh_ceiling :: nat
  rh_base_delay_ms :: nat
  rh_backoff_multiplier :: "json option"

text \<open>The default multiplier 2.0 is \<open>None\<close>.\<close>

definition retry_handler_new :: retry_handler where
  "retry_handler_new = \<lparr> rh_ceiling = 2, rh_base_delay_ms = 100, rh_backoff_multiplier = None \<rparr>"

definition retry_delay :: "layer_env \<Rightarrow> retry_handler \<Rightarrow> nat \<Rightarrow> nat" where
  "retry_delay env h attempt = le_backoff_ms env (rh_base_delay_ms h) (rh_backoff_multiplier h) attempt"

definition retry_layer :: "layer_env \<Rightarrow> retry_handler \<Rightarrow> middleware" where
  "retry_layer env h = (pass_through ''retry_handler'')
     \<lparr> mw_on_model_error := (\<lambda>c e attempt j.
         (if rh_ceiling h \<le> attempt then ContinueError
          else if llm_class e \<in> {LlmRateLimited, LlmTimeout, LlmServer} then RetryAfter (retry_delay env h attempt)
          else ContinueError, c, j)) \<rparr>"

definition is_overflow :: "layer_env \<Rightarrow> rusty_error \<Rightarrow> bool" where
  "is_overflow env e =
     (let msg = le_error_lowercase env e in
      contains_text ''context length'' msg \<or> contains_text ''token limit'' msg \<or>
      contains_text ''too large'' msg \<or> contains_text ''maximum context'' msg)"

text \<open>\<open>splice(1..len - 1, [summary])\<close>: the first and the last message stay.\<close>

definition compact_messages :: "chat_message list \<Rightarrow> chat_message list" where
  "compact_messages ms =
     (if length ms > 3
      then take 1 ms @ [system_message (''['' @ show_nat (length ms - 2) @
             '' earlier messages compacted due to context overflow]'')] @ drop (length ms - 1) ms
      else ms)"

definition overflow_recovery :: "layer_env \<Rightarrow> middleware" where
  "overflow_recovery env = (pass_through ''overflow_recovery'')
     \<lparr> mw_on_model_error := (\<lambda>c e attempt j.
         if \<not> is_overflow env e then (ContinueError, c, j)
         else (RetryAfter 0, c \<lparr> mc_messages := compact_messages (mc_messages c) \<rparr>, j)) \<rparr>"

section \<open>Compositions\<close>

record layer_config =
  lc_layer :: string
  lc_config :: "json option"

datatype composition_fault =
    TakesNoConfig string
  | BlocklistNeedsConfig
  | BlocklistMalformed
  | UnknownLayer string

text \<open>
  The derived reading of the blocklist's configuration, from an object or from a sequence of its
  fields: a list of strings, and an optional string that may be absent or null.
\<close>

definition read_strings :: "json \<Rightarrow> string list option" where
  "read_strings v = (case v of JArray vs \<Rightarrow> those (map as_str vs) | _ \<Rightarrow> None)"

definition read_reason :: "json option \<Rightarrow> string option option" where
  "read_reason v =
     (case v of
        None \<Rightarrow> Some None
      | Some JNull \<Rightarrow> Some None
      | Some (JString s) \<Rightarrow> Some (Some s)
      | Some _ \<Rightarrow> None)"

definition read_blocklist :: "json \<Rightarrow> (string list \<times> string option) option" where
  "read_blocklist v =
     (let read = (\<lambda>b r. Option.bind (Option.bind b read_strings) (\<lambda>blocked.
            map_option (\<lambda>reason. (blocked, reason)) (read_reason r)))
      in case v of
           JObject m \<Rightarrow> read (map_of m ''blocked'') (map_of m ''reason'')
         | JArray [b] \<Rightarrow> read (Some b) None
         | JArray [b, r] \<Rightarrow> read (Some b) (Some r)
         | _ \<Rightarrow> None)"

definition as_u64 :: "json \<Rightarrow> nat option" where
  "as_u64 v = (case v of JNumber (PosInt n) \<Rightarrow> Some n | _ \<Rightarrow> None)"

definition as_f64 :: "json \<Rightarrow> json option" where
  "as_f64 v = (case v of JNumber _ \<Rightarrow> Some v | _ \<Rightarrow> None)"

definition configured_retry :: "json option \<Rightarrow> retry_handler" where
  "configured_retry config =
     (let field = (\<lambda>k. Option.bind config (\<lambda>v. json_get v k)); h = retry_handler_new in
      \<lparr> rh_ceiling = (case Option.bind (field ''ceiling'') as_u64 of
            Some n \<Rightarrow> n mod 2 ^ 32 | None \<Rightarrow> rh_ceiling h),
        rh_base_delay_ms = (case Option.bind (field ''base_delay_ms'') as_u64 of
            Some n \<Rightarrow> n | None \<Rightarrow> rh_base_delay_ms h),
        rh_backoff_multiplier = (case Option.bind (field ''backoff_multiplier'') as_f64 of
            Some m \<Rightarrow> Some m | None \<Rightarrow> rh_backoff_multiplier h) \<rparr>)"

definition instantiate_layer :: "layer_env \<Rightarrow> layer_config \<Rightarrow> composition_fault + middleware" where
  "instantiate_layer env lc =
     (if lc_layer lc = ''request_logger'' then
        if lc_config lc \<noteq> None then Err (TakesNoConfig (lc_layer lc)) else Ok request_logger
      else if lc_layer lc = ''tool_call_blocklist'' then
        (case lc_config lc of
           None \<Rightarrow> Err BlocklistNeedsConfig
         | Some config \<Rightarrow>
             (case read_blocklist config of
                None \<Rightarrow> Err BlocklistMalformed
              | Some (blocked, reason) \<Rightarrow>
                  Ok (tool_call_blocklist blocked (case reason of None \<Rightarrow> ''tool_blocked'' | Some r \<Rightarrow> r))))
      else if lc_layer lc = ''retry_handler'' then Ok (retry_layer env (configured_retry (lc_config lc)))
      else if lc_layer lc = ''overflow_recovery'' then
        if lc_config lc \<noteq> None then Err (TakesNoConfig (lc_layer lc)) else Ok (overflow_recovery env)
      else Err (UnknownLayer (lc_layer lc)))"

fun instantiate_composition :: "layer_env \<Rightarrow> layer_config list \<Rightarrow> composition_fault + middleware list" where
  "instantiate_composition env [] = Ok []"
| "instantiate_composition env (lc # lcs) =
     rbind (instantiate_layer env lc) (\<lambda>l. rbind (instantiate_composition env lcs) (\<lambda>ls. Ok (l # ls)))"

section \<open>The onion is nesting\<close>

text \<open>
  The reference: a layer wraps what is inside it.  Its inbound hook decides whether the inside
  runs at all, and its outbound hook sees what came out, unless an inner outbound hook sealed the
  result.  Outbound hooks see the call as the innermost entered layer left it.
\<close>

fun nested ::
    "('m \<Rightarrow> 'c \<Rightarrow> 's \<Rightarrow> 'c \<times> 'r decision \<times> 's) \<Rightarrow> ('m \<Rightarrow> 'c \<Rightarrow> 'r \<Rightarrow> 's \<Rightarrow> 'r \<times> 'r decision \<times> 's) \<Rightarrow>
     (rejection \<Rightarrow> 'e) \<Rightarrow> 'm list \<Rightarrow> ('c \<Rightarrow> 's \<Rightarrow> ('e + 'r) \<times> 's) \<Rightarrow> 'c \<Rightarrow> 's \<Rightarrow>
     ('e + 'r \<times> bool \<times> 'c) \<times> 's" where
  "nested before after err [] op c s =
     (case op c s of (Inl e, s') \<Rightarrow> (Err e, s') | (Inr r, s') \<Rightarrow> (Ok (r, False, c), s'))"
| "nested before after err (l # ls) op c s =
     (case before l c s of
        (c', Reject j, s') \<Rightarrow> (Err (err j), s')
      | (c', ShortCircuit out, s') \<Rightarrow> (Ok (out, False, c'), s')
      | (c', Continue, s') \<Rightarrow>
          (case nested before after err ls op c' s' of
             (Inl e, s'') \<Rightarrow> (Err e, s'')
           | (Inr (r, True, final), s'') \<Rightarrow> (Ok (r, True, final), s'')
           | (Inr (r, False, final), s'') \<Rightarrow>
               (case after l final r s'' of
                  (r', Continue, t) \<Rightarrow> (Ok (r', False, final), t)
                | (r', Reject j, t) \<Rightarrow> (Err (err j), t)
                | (r', ShortCircuit out, t) \<Rightarrow> (Ok (out, True, final), t))))"

definition outcome :: "('e + 'r \<times> bool \<times> 'c) \<times> 's \<Rightarrow> ('e + 'r) \<times> 's" where
  "outcome x = (case x of (Inl e, s) \<Rightarrow> (Inl e, s) | (Inr (r, sealed, c), s) \<Rightarrow> (Inr r, s))"

text \<open>The outbound loop that also tells whether a hook sealed the result.\<close>

fun unwind_sealing ::
    "('m \<Rightarrow> 'c \<Rightarrow> 'r \<Rightarrow> 's \<Rightarrow> 'r \<times> 'r decision \<times> 's) \<Rightarrow> 'm list \<Rightarrow> 'c \<Rightarrow> 'r \<Rightarrow> 's \<Rightarrow>
     (rejection + 'r \<times> bool) \<times> 's" where
  "unwind_sealing after [] c r s = (Ok (r, False), s)"
| "unwind_sealing after (l # ls) c r s =
     (case after l c r s of
        (r', Continue, s') \<Rightarrow> unwind_sealing after ls c r' s'
      | (r', Reject j, s') \<Rightarrow> (Err j, s')
      | (r', ShortCircuit out, s') \<Rightarrow> (Ok (out, True), s'))"

definition sealed_leave ::
    "('m \<Rightarrow> 'c \<Rightarrow> 'r \<Rightarrow> 's \<Rightarrow> 'r \<times> 'r decision \<times> 's) \<Rightarrow> (rejection \<Rightarrow> 'e) \<Rightarrow> 'm list \<Rightarrow> 'c \<Rightarrow> 'r \<Rightarrow> 's \<Rightarrow>
     ('e + 'r \<times> bool \<times> 'c) \<times> 's" where
  "sealed_leave after err ls c r s =
     (case unwind_sealing after (rev ls) c r s of
        (Inl j, s') \<Rightarrow> (Err (err j), s')
      | (Inr (out, sealed), s') \<Rightarrow> (Ok (out, sealed, c), s'))"

lemma unwind_unseal:
  "unwind after ls c r s =
     (case unwind_sealing after ls c r s of (Inl j, t) \<Rightarrow> (Inl j, t) | (Inr (x, b), t) \<Rightarrow> (Inr x, t))"
  by (induction after ls c r s rule: unwind.induct) (auto split: prod.splits decision.splits)

lemma leave_unseal: "leave after err ls c r s = outcome (sealed_leave after err ls c r s)"
  by (auto simp: leave_def sealed_leave_def outcome_def unwind_unseal split: prod.splits sum.splits)

lemma unwind_sealing_snoc:
  "unwind_sealing after (ls @ [l]) c r s =
     (case unwind_sealing after ls c r s of
        (Inr (x, False), t) \<Rightarrow> unwind_sealing after [l] c x t
      | other \<Rightarrow> other)"
  by (induction after ls c r s rule: unwind_sealing.induct) (auto split: prod.splits decision.splits)

lemma sealed_leave_Cons:
  "sealed_leave after err (l # ls) c r s =
     (case sealed_leave after err ls c r s of
        (Inr (x, False, c'), t) \<Rightarrow>
          (case after l c' x t of
             (r', Continue, u) \<Rightarrow> (Ok (r', False, c'), u)
           | (r', Reject j, u) \<Rightarrow> (Err (err j), u)
           | (r', ShortCircuit out, u) \<Rightarrow> (Ok (out, True, c'), u))
      | other \<Rightarrow> other)"
  by (auto simp: sealed_leave_def unwind_sealing_snoc split: prod.splits sum.splits decision.splits bool.splits)

lemma sealed_leave_Nil [simp]: "sealed_leave after err [] c r s = (Ok (r, False, c), s)"
  by (simp add: sealed_leave_def)

lemma enter_shift:
  "enter before ls (Suc n) c s =
     (case enter before ls n c s of
        (Inr (x, k), c', s') \<Rightarrow> (Inr (x, Suc k), c', s')
      | (Inl j, c', s') \<Rightarrow> (Inl j, c', s'))"
  by (induction before ls n c s rule: enter.induct) (auto split: prod.splits decision.splits)

text \<open>The flat run with its seal, and that it obeys the equations of the nested one.\<close>

definition sealed_onion ::
    "('m \<Rightarrow> 'c \<Rightarrow> 's \<Rightarrow> 'c \<times> 'r decision \<times> 's) \<Rightarrow> ('m \<Rightarrow> 'c \<Rightarrow> 'r \<Rightarrow> 's \<Rightarrow> 'r \<times> 'r decision \<times> 's) \<Rightarrow>
     (rejection \<Rightarrow> 'e) \<Rightarrow> 'm list \<Rightarrow> ('c \<Rightarrow> 's \<Rightarrow> ('e + 'r) \<times> 's) \<Rightarrow> 'c \<Rightarrow> 's \<Rightarrow>
     ('e + 'r \<times> bool \<times> 'c) \<times> 's" where
  "sealed_onion before after err layers op c s =
     (case enter before layers 0 c s of
        (Inl j, c', s') \<Rightarrow> (Err (err j), s')
      | (Inr (Some out, n), c', s') \<Rightarrow> sealed_leave after err (take n layers) c' out s'
      | (Inr (None, n), c', s') \<Rightarrow>
          (case op c' s' of
             (Inl e, s'') \<Rightarrow> (Err e, s'')
           | (Inr r, s'') \<Rightarrow> sealed_leave after err layers c' r s''))"

lemma run_onion_unseal: "run_onion before after err layers op c s = outcome (sealed_onion before after err layers op c s)"
  by (auto simp: run_onion_def sealed_onion_def leave_unseal outcome_def split: prod.splits sum.splits option.splits)

lemma sealed_onion_nested: "sealed_onion before after err layers op c s = nested before after err layers op c s"
proof (induction layers arbitrary: c s)
  case (Cons l ls)
  obtain c' d s' where b: "before l c s = (c', d, s')"
    by (cases "before l c s") auto
  show ?case
  proof (cases d)
    case Continue
    have "nested before after err ls op c' s' = sealed_onion before after err ls op c' s'"
      by (simp add: Cons.IH)
    then show ?thesis using b Continue
      by (auto simp: sealed_onion_def enter_shift sealed_leave_Cons
          split: prod.splits sum.splits option.splits decision.splits bool.splits)
  qed (use b in \<open>simp_all add: sealed_onion_def\<close>)
qed (simp add: sealed_onion_def split: prod.splits sum.splits)

lemma run_onion_nested: "run_onion before after err layers op c s = outcome (nested before after err layers op c s)"
  by (simp add: run_onion_unseal sealed_onion_nested)

text \<open>
  C21: a middleware chain is a nest of layers.  At each of the three interception points the
  flat loops with their entered count compute what the nested reading says: a layer's inbound
  hook runs before everything inside it, a rejection ends the call at once, a substitute skips
  the inside and the operation and unwinds only the layers that were entered, outbound hooks run
  inside out on the success path only, and one of them can seal the result against the outer
  ones.  The operation runs at most once, and only when every inbound hook let the call through.
\<close>

theorem chain_is_nested:
  "run_node layers node_op node_call j =
     outcome (nested mw_before_node mw_after_node into_error layers node_op node_call j) \<and>
   run_model layers model_op model_call j =
     outcome (nested mw_before_model mw_after_model into_error layers model_op model_call j) \<and>
   run_tool get put err layers tool_op invocation w =
     outcome (nested
       (\<lambda>m c w. let (c', d, j) = mw_before_tool m c (get w) in (c', d, put j w))
       (\<lambda>m c r w. let (r', d, j) = mw_after_tool m c r (get w) in (r', d, put j w))
       err layers tool_op invocation w)"
  by (simp add: run_node_def run_model_def run_tool_def run_onion_nested)

section \<open>When a retried call returns\<close>

definition is_retry :: "model_error_decision \<Rightarrow> bool" where
  "is_retry d = (case d of RetryAfter _ \<Rightarrow> True | _ \<Rightarrow> False)"

definition gives_up_at :: "nat \<Rightarrow> middleware \<Rightarrow> bool" where
  "gives_up_at b l \<longleftrightarrow> (\<forall>c e a j. b \<le> a \<longrightarrow> \<not> is_retry (fst (mw_on_model_error l c e a j)))"

lemma ask_handlers_gives_up:
  "\<forall>l \<in> set ls. gives_up_at b l \<Longrightarrow> b \<le> a \<Longrightarrow> \<not> is_retry (fst (ask_handlers ls c e a j))"
proof (induction ls arbitrary: c j)
  case (Cons l ls)
  obtain d c' j' where m: "mw_on_model_error l c e a j = (d, c', j')"
    by (cases "mw_on_model_error l c e a j") auto
  have "\<not> is_retry d"
    using Cons.prems m unfolding gives_up_at_def by (metis fst_conv list.set_intros(1))
  then show ?case using m Cons by (cases d) (auto simp: is_retry_def)
qed (simp add: is_retry_def)

lemma attempt_loop_step:
  obtains (returned) y where "attempt_loop ls op c a j = Some y"
  | (retried) e d c' j' j'' where "ask_handlers ls c e a j' = (RetryAfter d, c', j'')"
      "attempt_loop ls op c a j = attempt_loop ls op c' ((a + 1) mod 2 ^ 32) j''"
proof -
  obtain x j' where op: "op c j = (x, j')" by (cases "op c j")
  show thesis
  proof (cases x)
    case (Inr r)
    then show thesis using op by (intro returned) (simp add: attempt_loop.simps)
  next
    case (Inl e)
    obtain d c' j'' where ask: "ask_handlers ls c e a j' = (d, c', j'')"
      by (cases "ask_handlers ls c e a j'") auto
    note unfolded = attempt_loop.simps [of ls op c a j, unfolded op Inl prod.case sum.case ask]
    show thesis
    proof (cases d)
      case (RetryAfter n)
      then show thesis using unfolded ask by (intro retried [of e j' n c' j'']) simp_all
    qed (use unfolded returned in simp_all)
  qed
qed

lemma attempt_loop_returns:
  assumes "\<forall>l \<in> set ls. gives_up_at b l" "b < 2 ^ 32" "a \<le> b"
  shows "\<exists>y. attempt_loop ls op c a j = Some y"
  using assms(3)
proof (induction "b - a" arbitrary: a c j)
  case 0
  then have "b \<le> a" by simp
  show ?case
  proof (cases rule: attempt_loop_step [of ls op c a j])
    case (retried e d c' j' j'')
    then show ?thesis
      using ask_handlers_gives_up [OF assms(1) \<open>b \<le> a\<close>, of c e j'] by (simp add: is_retry_def)
  qed blast
next
  case (Suc n)
  then have step: "n = b - (a + 1)" "a + 1 \<le> b" by auto
  moreover have "(a + 1) mod 2 ^ 32 = a + 1"
    by (rule mod_less) (use step(2) assms(2) in linarith)
  ultimately have "\<exists>y. attempt_loop ls op c' ((a + 1) mod 2 ^ 32) j' = Some y" for c' j'
    using Suc.hyps(1) [of "a + 1"] by simp
  then show ?case
    by (metis attempt_loop_step [of ls op c a j])
qed

lemma run_model_retry_returns:
  assumes "\<forall>l \<in> set ls. gives_up_at b l" "b < 2 ^ 32"
  shows "\<exists>y. run_model_retry ls op c j = Some y"
proof -
  have "attempt_loop ls op c 0 j \<noteq> None" for c j
    using attempt_loop_returns [OF assms, of 0 op c j] by simp
  then show ?thesis
    by (auto simp: run_model_retry_def simp del: not_None_eq split: prod.split sum.split option.split)
qed

lemma retry_layer_gives_up: "rh_ceiling h \<le> b \<Longrightarrow> gives_up_at b (retry_layer env h)"
  by (auto simp: gives_up_at_def retry_layer_def is_retry_def)

lemma configured_ceiling: "rh_ceiling (configured_retry config) \<le> 2 ^ 32 - 1"
  by (auto simp: configured_retry_def retry_handler_new_def Let_def split: option.splits)

lemma passive_gives_up: "mw_on_model_error l = (\<lambda>c e a j. (ContinueError, c, j)) \<Longrightarrow> gives_up_at b l"
  by (simp add: gives_up_at_def is_retry_def)

lemma layer_gives_up:
  assumes "instantiate_layer env lc = Ok l" "''overflow_recovery'' \<noteq> lc_layer lc"
  shows "gives_up_at (2 ^ 32 - 1) l"
proof -
  have "gives_up_at (2 ^ 32 - 1) request_logger" "gives_up_at (2 ^ 32 - 1) (tool_call_blocklist blocked reason)"
    for blocked reason
    by (rule passive_gives_up; simp add: request_logger_def tool_call_blocklist_def pass_through_def)+
  moreover have "gives_up_at (2 ^ 32 - 1) (retry_layer env (configured_retry config))" for config
    by (rule retry_layer_gives_up [OF configured_ceiling])
  ultimately show ?thesis
    using assms by (auto simp: instantiate_layer_def split: if_splits option.splits)
qed

lemma composition_gives_up:
  "instantiate_composition env lcs = Ok ls \<Longrightarrow> ''overflow_recovery'' \<notin> lc_layer ` set lcs \<Longrightarrow>
   \<forall>l \<in> set ls. gives_up_at (2 ^ 32 - 1) l"
proof (induction lcs arbitrary: ls)
  case (Cons lc lcs)
  then show ?case
    by (cases "instantiate_layer env lc"; cases "instantiate_composition env lcs")
      (auto intro: layer_gives_up [simplified])
qed simp

text \<open>
  C18: a model call through a composed chain returns.  Whatever the provider answers and however
  often it fails, a call through any composition that instantiates and does not name
  \<open>overflow_recovery\<close> comes back with a response or an error.
\<close>

theorem composed_model_call_returns:
  assumes "instantiate_composition env lcs = Ok chain" "''overflow_recovery'' \<notin> lc_layer ` set lcs"
  shows "\<exists>result j'. middleware_chat chain inner thread_id node messages tools j = Some (result, j')"
proof (cases "chain = []")
  case False
  have "\<forall>l \<in> set chain. gives_up_at (2 ^ 32 - 1) l"
    by (rule composition_gives_up [OF assms])
  then have "\<exists>y. run_model_retry chain op c j = Some y" for op c
    by (rule run_model_retry_returns) simp
  then show ?thesis using False by (fastforce simp: middleware_chat_def)
qed (cases "inner messages tools j", simp add: middleware_chat_def)

definition demo_layer_env :: layer_env where
  "demo_layer_env = \<lparr> le_error_lowercase = (\<lambda>_. ''too large''), le_backoff_ms = (\<lambda>base _ _. base) \<rparr>"

definition demo_composition :: "layer_config list" where
  "demo_composition = [\<lparr> lc_layer = ''request_logger'', lc_config = None \<rparr>,
     \<lparr> lc_layer = ''retry_handler'', lc_config = Some (JObject [(''ceiling'', JNumber (PosInt 3))]) \<rparr>]"

definition failing_model ::
    "chat_message list \<Rightarrow> json list \<Rightarrow> journal \<Rightarrow> (rusty_error + chat_response) \<times> journal" where
  "failing_model messages tools j = (Err (LlmFailure LlmServer ''down''), j)"

theorem composed_model_call_returns_witness:
  "instantiate_composition demo_layer_env demo_composition =
     Ok [request_logger, retry_layer demo_layer_env \<lparr> rh_ceiling = 3, rh_base_delay_ms = 100, rh_backoff_multiplier = None \<rparr>] \<and>
   (\<exists>result j'. middleware_chat
      [request_logger, retry_layer demo_layer_env \<lparr> rh_ceiling = 3, rh_base_delay_ms = 100, rh_backoff_multiplier = None \<rparr>]
      failing_model ''t'' ''n'' [system_message ''hello''] [] demo_journal = Some (result, j'))"
proof (rule conjI)
  show chain: "instantiate_composition demo_layer_env demo_composition =
     Ok [request_logger, retry_layer demo_layer_env \<lparr> rh_ceiling = 3, rh_base_delay_ms = 100, rh_backoff_multiplier = None \<rparr>]"
    by (simp add: demo_composition_def instantiate_layer_def configured_retry_def as_u64_def retry_handler_new_def)
  show "\<exists>result j'. middleware_chat
      [request_logger, retry_layer demo_layer_env \<lparr> rh_ceiling = 3, rh_base_delay_ms = 100, rh_backoff_multiplier = None \<rparr>]
      failing_model ''t'' ''n'' [system_message ''hello''] [] demo_journal = Some (result, j')"
    by (rule composed_model_call_returns [OF chain]) (simp add: demo_composition_def)
qed

text \<open>
  With \<open>overflow_recovery\<close> the hypothesis cannot be dropped.  The layer answers every overflow
  with another try, also when nothing is left to compact, so a provider that keeps refusing the
  request keeps the call from ever returning.
\<close>

definition full_window :: "model_call \<Rightarrow> journal \<Rightarrow> (rusty_error + chat_response) \<times> journal" where
  "full_window c j = (Err (Llm ''too large''), j)"

lemma overflow_always_retried:
  "\<exists>c'. ask_handlers [overflow_recovery demo_layer_env] c e a j = (RetryAfter 0, c', j)"
  by (simp add: overflow_recovery_def pass_through_def is_overflow_def demo_layer_env_def)

lemma overflow_attempts_forever: "attempt_loop [overflow_recovery demo_layer_env] full_window c a j = None"
proof (rule ccontr)
  assume "attempt_loop [overflow_recovery demo_layer_env] full_window c a j \<noteq> None"
  then obtain y where ret: "attempt_loop [overflow_recovery demo_layer_env] full_window c a j = Some y"
    by blast
  have "\<not> ([overflow_recovery demo_layer_env] = [overflow_recovery demo_layer_env] \<and> full_window = full_window)"
  proof (rule attempt_loop.raw_induct
      [where P = "\<lambda>ls op c a j y. \<not> (ls = [overflow_recovery demo_layer_env] \<and> op = full_window)", OF _ ret])
    fix f ls op c a j y
    assume IH: "\<And>ls op c a j y. f ls op c a j = Some y \<Longrightarrow> \<not> (ls = [overflow_recovery demo_layer_env] \<and> op = full_window)"
      and eq: "(case op c j of
        (Inl e, j') \<Rightarrow>
          (case ask_handlers ls c e a j' of
             (ContinueError, c', j'') \<Rightarrow> Some (Err e, c', j'')
           | (RetryAfter delay, c', j'') \<Rightarrow> f ls op c' ((a + 1) mod 2 ^ 32) j''
           | (Recovered r, c', j'') \<Rightarrow> Some (Ok r, c', j'')
           | (RejectError rej, c', j'') \<Rightarrow> Some (Err (into_error rej), c', j''))
      | (Inr r, j') \<Rightarrow> Some (Ok r, c, j')) = Some y"
    show "\<not> (ls = [overflow_recovery demo_layer_env] \<and> op = full_window)"
    proof
      assume here: "ls = [overflow_recovery demo_layer_env] \<and> op = full_window"
      obtain c' where "ask_handlers ls c (Llm ''too large'') a j = (RetryAfter 0, c', j)"
        using overflow_always_retried here by blast
      then have "f ls op c' ((a + 1) mod 2 ^ 32) j = Some y"
        using eq here by (simp add: full_window_def)
      from IH [OF this] here show False by blast
    qed
  qed
  then show False by simp
qed

end
