(* ===== verification/Effect_Kernel.thy ===== *)
theory Effect_Kernel
  imports Run_Journal
begin

text \<open>
  The effect kernel (effects.rs) and the effect receipts of the journal (journal.rs,
  record.rs): content-derived effect ids, the admission boundary that decides whether an effect
  may run, its one-shot approvals, the shadow boundary that executes nothing above a read, and
  the receipts that tell a recovered run an effect has already happened.

  Clones of an admission context share one approval ledger behind a lock, so parallel
  admissions are some sequence of calls of \<open>admit\<close> on one context value.
\<close>

section \<open>Effect ids and requests\<close>

definition EFFECT_ID_DOMAIN :: string where
  "EFFECT_ID_DOMAIN = ''rusty/effect-id/v1''"

definition effect_material :: "string \<Rightarrow> string \<Rightarrow> string \<Rightarrow> string option \<Rightarrow> string" where
  "effect_material scope kind input_hash key =
     join_lines [EFFECT_ID_DOMAIN, scope, kind, input_hash, case key of None \<Rightarrow> ''-'' | Some k \<Rightarrow> k]"

definition derive_effect_id :: "codec \<Rightarrow> string \<Rightarrow> string \<Rightarrow> string \<Rightarrow> string option \<Rightarrow> string" where
  "derive_effect_id cd scope kind input_hash key = sha256_hex cd (effect_material scope kind input_hash key)"

record effect_request =
  er_kind :: string
  er_effect :: effect
  er_input_hash :: string
  er_key :: "string option"

text \<open>\<open>None\<close> is the panic of the \<open>expect\<close> on a value that does not serialize.\<close>

definition request_new :: "codec \<Rightarrow> string \<Rightarrow> effect \<Rightarrow> json \<Rightarrow> string option \<Rightarrow> effect_request option" where
  "request_new cd kind eff input key =
     (case content_hash cd (Inline input) of
        Inl _ \<Rightarrow> None
      | Inr h \<Rightarrow> Some \<lparr> er_kind = kind, er_effect = eff, er_input_hash = h, er_key = key \<rparr>)"

definition request_id :: "codec \<Rightarrow> string \<Rightarrow> effect_request \<Rightarrow> string" where
  "request_id cd scope r = derive_effect_id cd scope (er_kind r) (er_input_hash r) (er_key r)"

section \<open>Admission\<close>

datatype effect_violation =
    DeclarationMismatch string effect effect
  | MissingIdempotencyKey string
  | MissingCompensation string
  | MissingApproval string string
  | ApprovalScopeMismatch string string string
  | ShadowRefused string effect string

record approval_token =
  tok_effect_id :: string
  tok_approved_by :: string

definition token_admits :: "approval_token \<Rightarrow> string \<Rightarrow> bool" where
  "token_admits t eid \<longleftrightarrow> tok_effect_id t = eid"

type_synonym compensation_handler = "json \<Rightarrow> string + json"

type_synonym compensation_registry = "(string \<times> compensation_handler) list"

definition register ::
  "string \<Rightarrow> compensation_handler \<Rightarrow> compensation_registry \<Rightarrow> compensation_handler option \<times> compensation_registry" where
  "register kind handler reg = (map_of reg kind, bt_insert kind handler reg)"

definition handler_for :: "compensation_registry \<Rightarrow> string \<Rightarrow> compensation_handler option" where
  "handler_for reg kind = map_of reg kind"

record shadow_refusal =
  sr_kind :: string
  sr_effect :: effect
  sr_effect_id :: string
  sr_input_hash :: string
  sr_served :: bool

text \<open>
  The shadow half of a context: the recorded world answers a refused call, and the sink is the
  list of the refusals reported to it.
\<close>

record shadow_boundary =
  sb_source :: "string \<Rightarrow> json \<Rightarrow> json option"
  sb_sink :: "shadow_refusal list"

record admission_context =
  ac_scope :: string
  ac_approvals :: "(string \<times> approval_token) list"
  ac_compensations :: compensation_registry
  ac_shadow :: "shadow_boundary option"

definition context_new :: "string \<Rightarrow> admission_context" where
  "context_new scope = \<lparr> ac_scope = scope, ac_approvals = [], ac_compensations = [], ac_shadow = None \<rparr>"

definition context_shadow :: "string \<Rightarrow> (string \<Rightarrow> json \<Rightarrow> json option) \<Rightarrow> admission_context" where
  "context_shadow scope source = (context_new scope) \<lparr> ac_shadow := Some \<lparr> sb_source = source, sb_sink = [] \<rparr> \<rparr>"

definition with_approvals :: "approval_token list \<Rightarrow> admission_context \<Rightarrow> admission_context" where
  "with_approvals tokens ctx = ctx \<lparr> ac_approvals := bt_of_list (map (\<lambda>t. (tok_effect_id t, t)) tokens) \<rparr>"

definition with_compensations :: "compensation_registry \<Rightarrow> admission_context \<Rightarrow> admission_context" where
  "with_compensations reg ctx = ctx \<lparr> ac_compensations := reg \<rparr>"

definition is_shadow :: "admission_context \<Rightarrow> bool" where
  "is_shadow ctx \<longleftrightarrow> ac_shadow ctx \<noteq> None"

definition approval_required :: "codec \<Rightarrow> admission_context \<Rightarrow> effect_request \<Rightarrow> string option" where
  "approval_required cd ctx r =
     (if er_effect r \<noteq> NonIdempotent \<or> is_shadow ctx then None
      else let eid = request_id cd (ac_scope ctx) r
        in if map_of (ac_approvals ctx) eid \<noteq> None then None else Some eid)"

record effect_permit =
  pm_effect_id :: string
  pm_compensation :: "compensation_handler option"
  pm_approval :: "approval_token option"

definition admit ::
  "codec \<Rightarrow> effect_request \<Rightarrow> admission_context \<Rightarrow> (effect_violation + effect_permit) \<times> admission_context" where
  "admit cd r ctx =
     (let eid = request_id cd (ac_scope ctx) r;
          permit = \<lparr> pm_effect_id = eid, pm_compensation = None, pm_approval = None \<rparr>
      in if is_shadow ctx \<and> er_effect r \<notin> {Pure, ReadOnly}
         then (Err (ShadowRefused (er_kind r) (er_effect r) eid), ctx)
         else case er_effect r of
           Pure \<Rightarrow> (Ok permit, ctx)
         | ReadOnly \<Rightarrow> (Ok permit, ctx)
         | Idempotent \<Rightarrow>
             if er_key r = None then (Err (MissingIdempotencyKey (er_kind r)), ctx) else (Ok permit, ctx)
         | Compensatable \<Rightarrow>
             (case handler_for (ac_compensations ctx) (er_kind r) of
                None \<Rightarrow> (Err (MissingCompensation (er_kind r)), ctx)
              | Some h \<Rightarrow> (Ok (permit \<lparr> pm_compensation := Some h \<rparr>), ctx))
         | NonIdempotent \<Rightarrow>
             (case map_of (ac_approvals ctx) eid of
                None \<Rightarrow> (Err (MissingApproval (er_kind r) eid), ctx)
              | Some t \<Rightarrow> (Ok (permit \<lparr> pm_approval := Some t \<rparr>),
                           ctx \<lparr> ac_approvals := bt_remove eid (ac_approvals ctx) \<rparr>)))"

definition serve_shadow ::
  "effect_request \<Rightarrow> json \<Rightarrow> effect_violation \<Rightarrow> admission_context \<Rightarrow> json option \<times> admission_context" where
  "serve_shadow r recorded violation ctx =
     (case ac_shadow ctx of
        None \<Rightarrow> (None, ctx)
      | Some boundary \<Rightarrow>
          (case violation of
             ShadowRefused kind eff eid \<Rightarrow>
               (let served = sb_source boundary kind recorded;
                    report = \<lparr> sr_kind = kind, sr_effect = eff, sr_effect_id = eid,
                      sr_input_hash = er_input_hash r, sr_served = (served \<noteq> None) \<rparr>
                in (served, ctx \<lparr> ac_shadow := Some (boundary \<lparr> sb_sink := sb_sink boundary @ [report] \<rparr>) \<rparr>))
           | _ \<Rightarrow> (None, ctx)))"

section \<open>The typed helpers\<close>

record typed_effect =
  te_declared :: effect
  te_kind :: string
  te_input_hash :: string
  te_key :: "string option"

definition from_typed :: "typed_effect \<Rightarrow> effect_request" where
  "from_typed e = \<lparr> er_kind = te_kind e, er_effect = te_declared e, er_input_hash = te_input_hash e,
     er_key = te_key e \<rparr>"

definition typed_id :: "codec \<Rightarrow> string \<Rightarrow> typed_effect \<Rightarrow> string" where
  "typed_id cd scope e = derive_effect_id cd scope (te_kind e) (te_input_hash e) (te_key e)"

definition check_declaration :: "typed_effect \<Rightarrow> effect \<Rightarrow> effect_violation + unit" where
  "check_declaration e marker =
     (if te_declared e \<noteq> marker then Err (DeclarationMismatch (te_kind e) marker (te_declared e)) else Ok ())"

definition admit_speculation :: "typed_effect \<Rightarrow> effect_violation + unit" where
  "admit_speculation e = check_declaration e Pure"

definition admit_retry :: "typed_effect \<Rightarrow> effect_violation + unit" where
  "admit_retry e =
     rbind (check_declaration e Idempotent) (\<lambda>_.
       if te_key e = None then Err (MissingIdempotencyKey (te_kind e)) else Ok ())"

definition admit_compensatable ::
  "typed_effect \<Rightarrow> compensation_registry \<Rightarrow> effect_violation + compensation_handler" where
  "admit_compensatable e reg =
     rbind (check_declaration e Compensatable) (\<lambda>_.
       case handler_for reg (te_kind e) of
         None \<Rightarrow> Err (MissingCompensation (te_kind e))
       | Some h \<Rightarrow> Ok h)"

definition admit_irreversible ::
  "codec \<Rightarrow> typed_effect \<Rightarrow> string \<Rightarrow> approval_token option \<Rightarrow> effect_violation + unit" where
  "admit_irreversible cd e scope approval =
     rbind (check_declaration e NonIdempotent) (\<lambda>_.
       let required = typed_id cd scope e in
       case approval of
         None \<Rightarrow> Err (MissingApproval (te_kind e) required)
       | Some t \<Rightarrow>
           if \<not> token_admits t required
           then Err (ApprovalScopeMismatch (te_kind e) required (tok_effect_id t))
           else Ok ())"

section \<open>Receipts\<close>

record effect_receipt =
  rc_provider :: string
  rc_provider_id :: string
  rc_idempotency_key :: string
  rc_task_id :: "string option"
  rc_effect_id :: "string option"

definition opt_string :: "string \<Rightarrow> string option \<Rightarrow> (string \<times> json) list" where
  "opt_string k v = (case v of None \<Rightarrow> [] | Some s \<Rightarrow> [(k, JString s)])"

definition receipt_to_value :: "effect_receipt \<Rightarrow> json" where
  "receipt_to_value r = JObject (opt_string ''effect_id'' (rc_effect_id r) @
     [(''idempotency_key'', JString (rc_idempotency_key r)), (''provider'', JString (rc_provider r)),
      (''provider_id'', JString (rc_provider_id r))] @ opt_string ''task_id'' (rc_task_id r))"

text \<open>An optional string field: absent and null read as \<open>None\<close>, any other non-string fails.\<close>

definition opt_field :: "json \<Rightarrow> string \<Rightarrow> string option option" where
  "opt_field v k =
     (case json_get v k of
        None \<Rightarrow> Some None
      | Some JNull \<Rightarrow> Some None
      | Some (JString s) \<Rightarrow> Some (Some s)
      | Some _ \<Rightarrow> None)"

definition receipt_from_value :: "json \<Rightarrow> effect_receipt option" where
  "receipt_from_value v =
     Option.bind (Option.bind (json_get v ''provider'') as_str) (\<lambda>p.
     Option.bind (Option.bind (json_get v ''provider_id'') as_str) (\<lambda>i.
     Option.bind (Option.bind (json_get v ''idempotency_key'') as_str) (\<lambda>k.
     Option.bind (opt_field v ''task_id'') (\<lambda>t.
     Option.bind (opt_field v ''effect_id'') (\<lambda>e.
     Some \<lparr> rc_provider = p, rc_provider_id = i, rc_idempotency_key = k, rc_task_id = t, rc_effect_id = e \<rparr>)))))"

definition record_effect_receipt :: "codec \<Rightarrow> effect_receipt \<Rightarrow> string option \<Rightarrow> journal \<Rightarrow> string \<times> journal" where
  "record_effect_receipt cd r parent j =
     record_event cd ((draft_new KEffectReceipt Idempotent)
       \<lparr> d_output := Some (receipt_to_value r), d_parent := parent \<rparr>) j"

definition receipt_of :: "journal_snapshot \<Rightarrow> run_event \<Rightarrow> effect_receipt option" where
  "receipt_of snap e =
     (if ev_kind e \<noteq> KEffectReceipt then None
      else Option.bind (Option.bind (ev_output e) (\<lambda>p. case p of
             Inline v \<Rightarrow> Some v
           | Artifact reference \<Rightarrow> map_of (js_artifacts snap) (ref_sha256 reference)))
           receipt_from_value)"

definition receipts :: "journal_snapshot \<Rightarrow> effect_receipt list" where
  "receipts snap = List.map_filter (receipt_of snap) (js_events snap)"

definition find_effect_receipt :: "journal_snapshot \<Rightarrow> string \<Rightarrow> effect_receipt option" where
  "find_effect_receipt snap key = find (\<lambda>r. rc_idempotency_key r = key) (receipts snap)"

definition find_effect_receipt_by_effect_id :: "journal_snapshot \<Rightarrow> string \<Rightarrow> effect_receipt option" where
  "find_effect_receipt_by_effect_id snap eid = find (\<lambda>r. rc_effect_id r = Some eid) (receipts snap)"

section \<open>Effect ids\<close>

definition one_line :: "string \<Rightarrow> bool" where
  "one_line s \<longleftrightarrow> CHR 0x0A \<notin> set s"

definition plain_key :: "string option \<Rightarrow> bool" where
  "plain_key k \<longleftrightarrow> (case k of None \<Rightarrow> True | Some s \<Rightarrow> one_line s \<and> s \<noteq> ''-'')"

lemma effect_material_inj:
  assumes "one_line s" "one_line k" "one_line h" "plain_key i" "one_line s'" "one_line k'" "one_line h'" "plain_key i'"
    "effect_material s k h i = effect_material s' k' h' i'"
  shows "s = s' \<and> k = k' \<and> h = h' \<and> i = i'"
proof -
  let ?slot = "\<lambda>i. case i of None \<Rightarrow> ''-'' | Some x \<Rightarrow> x"
  have "CHR 0x0A \<notin> set (?slot i)" "CHR 0x0A \<notin> set (?slot i')"
    using assms(4,8) by (auto simp: plain_key_def one_line_def split: option.splits)
  moreover have "CHR 0x0A \<notin> set EFFECT_ID_DOMAIN" by (simp add: EFFECT_ID_DOMAIN_def)
  ultimately have "[EFFECT_ID_DOMAIN, s, k, h, ?slot i] = [EFFECT_ID_DOMAIN, s', k', h', ?slot i']"
    using assms by (intro join_lines_inj) (auto simp: effect_material_def one_line_def)
  then show ?thesis using assms(4,8) by (auto simp: plain_key_def split: option.splits)
qed

text \<open>
  an effect id commits to one occurrence.  For single-line fields and keys other than a
  lone dash, two occurrences with the same id agree in scope, kind, input hash and key, or
  their id material is a collision of the hash function.
\<close>

lemma effect_id_commits:
  assumes "list_all one_line [s, k, h, s', k', h']" "plain_key i" "plain_key i'"
    "derive_effect_id cd s k h i = derive_effect_id cd s' k' h' i'"
  shows "(s, k, h, i) = (s', k', h', i') \<or>
    (effect_material s k h i \<noteq> effect_material s' k' h' i' \<and>
     sha256_hex cd (effect_material s k h i) = sha256_hex cd (effect_material s' k' h' i'))"
proof (cases "effect_material s k h i = effect_material s' k' h' i'")
  case True
  then show ?thesis using effect_material_inj [of s k h i s' k' h' i'] assms by simp
next
  case False
  then show ?thesis using assms(4) by (simp add: derive_effect_id_def)
qed

lemma effect_id_commits_witness:
  "let other = Some ''k2'' in
   plain_key other \<and> derive_effect_id demo_codec ''run'' ''charge'' ''h'' other =
     derive_effect_id demo_codec ''run'' ''charge'' ''h'' (Some (''k'' @ ''2'')) \<and>
   (''run'', ''charge'', ''h'', other) = (''run'', ''charge'', ''h'', Some (''k'' @ ''2''))"
proof -
  have a: "list_all one_line [''run'', ''charge'', ''h'', ''run'', ''charge'', ''h'']"
    "plain_key (Some ''k2'')" "plain_key (Some (''k'' @ ''2''))"
    by (simp_all add: one_line_def plain_key_def)
  from effect_id_commits [OF a, of demo_codec] a show ?thesis by simp
qed

text \<open>Without the side conditions ids collide: a key that is a dash reads like no key at all.\<close>

lemma dash_key_collides: "derive_effect_id cd s k h (Some ''-'') = derive_effect_id cd s k h None"
  by (simp add: derive_effect_id_def effect_material_def)

section \<open>One approval, one effect\<close>

fun admit_all ::
  "codec \<Rightarrow> effect_request list \<Rightarrow> admission_context \<Rightarrow> (effect_violation + effect_permit) list \<times> admission_context" where
  "admit_all cd [] ctx = ([], ctx)"
| "admit_all cd (r # rs) ctx =
     (let (x, ctx1) = admit cd r ctx; (xs, ctx2) = admit_all cd rs ctx1 in (x # xs, ctx2))"

definition spent :: "string \<Rightarrow> effect_violation + effect_permit \<Rightarrow> nat" where
  "spent eid x = (case x of Inr p \<Rightarrow> if pm_approval p \<noteq> None \<and> pm_effect_id p = eid then 1 else 0 | Inl _ \<Rightarrow> 0)"

definition held :: "string \<Rightarrow> admission_context \<Rightarrow> nat" where
  "held eid ctx = (if map_of (ac_approvals ctx) eid = None then 0 else 1)"

definition ledger_ok :: "admission_context \<Rightarrow> bool" where
  "ledger_ok ctx \<longleftrightarrow> bt_inv (ac_approvals ctx) \<and>
     (\<forall>eid t. map_of (ac_approvals ctx) eid = Some t \<longrightarrow> tok_effect_id t = eid)"

lemma admit_outcome:
  assumes "admit cd r ctx = (x, ctx')"
  obtains (keeps) "ctx' = ctx" "\<And>p. x = Inr p \<Longrightarrow> pm_approval p = None"
    | (spends) t p where "map_of (ac_approvals ctx) (request_id cd (ac_scope ctx) r) = Some t" "x = Inr p"
        "pm_effect_id p = request_id cd (ac_scope ctx) r" "pm_approval p = Some t" "er_effect r = NonIdempotent"
        "ctx' = ctx \<lparr> ac_approvals := bt_remove (request_id cd (ac_scope ctx) r) (ac_approvals ctx) \<rparr>"
proof (cases "is_shadow ctx \<and> er_effect r \<notin> {Pure, ReadOnly}")
  case True
  then show thesis using assms keeps by (auto simp: admit_def Let_def)
next
  case False
  show thesis
  proof (cases "er_effect r")
    case Compensatable
    then show thesis using assms False
      by (intro keeps) (auto simp: admit_def Let_def split: option.splits)
  next
    case NonIdempotent
    show thesis
    proof (cases "map_of (ac_approvals ctx) (request_id cd (ac_scope ctx) r)")
      case None
      then show thesis using assms False NonIdempotent by (intro keeps) (auto simp: admit_def Let_def)
    next
      case (Some t)
      then show thesis using assms False NonIdempotent by (intro spends [OF Some]) (auto simp: admit_def Let_def)
    qed
  qed (use assms False keeps in \<open>auto simp: admit_def Let_def split: if_splits\<close>)
qed

lemma admit_step:
  assumes "admit cd r ctx = (x, ctx')" "ledger_ok ctx"
  shows "ledger_ok ctx' \<and> spent eid x + held eid ctx' = held eid ctx"
  using assms(1)
proof (cases rule: admit_outcome)
  case keeps
  then show ?thesis using assms(2) by (auto simp: spent_def split: sum.splits)
next
  case (spends t p)
  then have "map_of (ac_approvals ctx') = (map_of (ac_approvals ctx)) (request_id cd (ac_scope ctx) r := None)"
    using assms(2) by (simp add: map_of_bt_remove ledger_ok_def)
  then show ?thesis using assms(2) spends
    by (auto simp: spent_def held_def ledger_ok_def)
qed

lemma with_approvals_ledger: "ledger_ok (with_approvals tokens ctx)"
proof -
  let ?m = "bt_of_list (map (\<lambda>t. (tok_effect_id t, t)) tokens)"
  have "tok_effect_id t = eid" if "map_of ?m eid = Some t" for eid t
  proof -
    have "(eid, t) \<in> set (map (\<lambda>t. (tok_effect_id t, t)) tokens)"
      using map_of_SomeD [OF that] bt_of_list_content(1) by blast
    then show ?thesis by auto
  qed
  moreover have "ac_approvals (with_approvals tokens ctx) = ?m" by (simp add: with_approvals_def)
  ultimately show ?thesis unfolding ledger_ok_def using bt_inv_of_list by metis
qed

text \<open>
  C38: an approval admits one irreversible effect, once.  Over any sequence of admissions
  against one ledger, for every effect id the permits that spent an approval for it and the
  approval still held at the end add up to the approval held at the start; so an id that was
  never approved is never permitted, and an approved one at most once.
\<close>

theorem approval_spent_once:
  assumes "admit_all cd rs (with_approvals tokens ctx) = (xs, ctx')"
  shows "sum_list (map (spent eid) xs) + held eid ctx' = (if eid \<in> tok_effect_id ` set tokens then 1 else 0)"
proof -
  have all: "ledger_ok c \<Longrightarrow> admit_all cd rs c = (ys, c') \<Longrightarrow> sum_list (map (spent eid) ys) + held eid c' = held eid c"
    for c ys c'
  proof (induction rs arbitrary: c ys)
    case (Cons r rs)
    obtain x c1 where x: "admit cd r c = (x, c1)" by (metis surj_pair)
    obtain zs where zs: "admit_all cd rs c1 = (zs, c')" "ys = x # zs"
      using Cons.prems(2) x by (auto split: prod.splits)
    show ?case using admit_step [OF x Cons.prems(1), of eid] Cons.IH [OF _ zs(1)] zs(2) by simp
  qed simp
  have "map_of (bt_of_list (map (\<lambda>t. (tok_effect_id t, t)) tokens)) eid = None \<longleftrightarrow> eid \<notin> tok_effect_id ` set tokens"
    by (simp add: map_of_eq_None_iff bt_of_list_content(2) image_image)
  then have "held eid (with_approvals tokens ctx) = (if eid \<in> tok_effect_id ` set tokens then 1 else 0)"
    by (simp add: held_def with_approvals_def)
  then show ?thesis using all [OF with_approvals_ledger assms] by simp
qed

definition charge :: effect_request where
  "charge = \<lparr> er_kind = ''charge'', er_effect = NonIdempotent, er_input_hash = ''h'', er_key = None \<rparr>"

theorem approval_spent_once_witness:
  "let eid = request_id demo_codec ''run'' charge;
       (xs, ctx) = admit_all demo_codec [charge, charge]
         (with_approvals [\<lparr> tok_effect_id = eid, tok_approved_by = ''ops'' \<rparr>] (context_new ''run''))
   in map is_ok xs = [True, False] \<and> sum_list (map (spent eid) xs) + held eid ctx = 1"
proof -
  let ?eid = "request_id demo_codec ''run'' charge"
  let ?t = "\<lparr> tok_effect_id = ?eid, tok_approved_by = ''ops'' \<rparr>"
  obtain xs ctx where a: "admit_all demo_codec [charge, charge] (with_approvals [?t] (context_new ''run'')) = (xs, ctx)"
    by (metis surj_pair)
  have "map is_ok xs = [True, False]"
    using a by (auto simp: admit_def Let_def with_approvals_def context_new_def is_shadow_def charge_def
        bt_of_list_def bt_insert_all_def)
  then show ?thesis using approval_spent_once [OF a, of ?eid] unfolding Let_def a by simp
qed

section \<open>What admission decides\<close>

text \<open>
  C39: the admission boundary decides exactly as declared.  Under a shadow only pure and
  read-only effects pass, whatever approvals, keys or handlers exist.  Otherwise those pass
  unconditionally, an idempotent effect needs its key, a compensatable one a handler for its
  kind, and an irreversible one passes exactly when asking \<open>approval_required\<close> beforehand
  answered that nothing is missing.  Every permit names the request's own effect id and carries
  what its class demanded and nothing else: the registered handler for a compensatable effect,
  the approval held for that id for an irreversible one.  Only that approval leaves the ledger;
  a refusal leaves the whole context as it was.
\<close>

theorem admission_decides:
  "(is_ok (fst (admit cd r ctx)) \<longleftrightarrow>
     (if is_shadow ctx then er_effect r = Pure \<or> er_effect r = ReadOnly
      else case er_effect r of
             Idempotent \<Rightarrow> er_key r \<noteq> None
           | Compensatable \<Rightarrow> handler_for (ac_compensations ctx) (er_kind r) \<noteq> None
           | NonIdempotent \<Rightarrow> approval_required cd ctx r = None
           | _ \<Rightarrow> True)) \<and>
   (case admit cd r ctx of
      (Inl _, ctx') \<Rightarrow> ctx' = ctx
    | (Inr permit, ctx') \<Rightarrow>
        permit = \<lparr> pm_effect_id = request_id cd (ac_scope ctx) r,
          pm_compensation = (if er_effect r = Compensatable then handler_for (ac_compensations ctx) (er_kind r) else None),
          pm_approval = (if er_effect r = NonIdempotent
            then map_of (ac_approvals ctx) (request_id cd (ac_scope ctx) r) else None) \<rparr> \<and>
        ctx' = (if er_effect r = NonIdempotent
          then ctx \<lparr> ac_approvals := bt_remove (request_id cd (ac_scope ctx) r) (ac_approvals ctx) \<rparr> else ctx))"
  by (cases "er_effect r")
     (simp_all add: admit_def Let_def approval_required_def split: option.splits)

text \<open>
  a shadow run executes nothing above a read and hides nothing.  Over any sequence of
  admissions under a shadow boundary every permit is for a pure or read-only request, no
  approval is consumed, and serving the refusal reports it to the sink with the id, the class
  and whether the recorded world answered.
\<close>

lemma shadow_executes_nothing:
  assumes "ac_shadow ctx = Some boundary" "admit_all cd rs ctx = (xs, ctx')"
  shows "ctx' = ctx \<and> length xs = length rs \<and>
    (\<forall>i < length rs. is_ok (xs ! i) \<longrightarrow> er_effect (rs ! i) \<in> {Pure, ReadOnly}) \<and>
    (\<forall>i < length rs. \<forall>v recorded. xs ! i = Inl v \<longrightarrow>
       (\<exists>report. serve_shadow (rs ! i) recorded v ctx =
          (sb_source boundary (er_kind (rs ! i)) recorded,
           ctx \<lparr> ac_shadow := Some (boundary \<lparr> sb_sink := sb_sink boundary @ [report] \<rparr>) \<rparr>) \<and>
          sr_effect report = er_effect (rs ! i) \<and>
          sr_effect_id report = request_id cd (ac_scope ctx) (rs ! i) \<and>
          (sr_served report \<longleftrightarrow> sb_source boundary (er_kind (rs ! i)) recorded \<noteq> None)))"
proof -
  have one: "admit cd r ctx = (if er_effect r \<in> {Pure, ReadOnly}
      then (Inr \<lparr> pm_effect_id = request_id cd (ac_scope ctx) r, pm_compensation = None, pm_approval = None \<rparr>, ctx)
      else (Inl (ShadowRefused (er_kind r) (er_effect r) (request_id cd (ac_scope ctx) r)), ctx))" for r
    using assms(1) by (cases "er_effect r") (simp_all add: admit_def is_shadow_def)
  have xs: "ctx' = ctx \<and> xs = map (\<lambda>r. fst (admit cd r ctx)) rs"
    using assms(2) by (induction rs arbitrary: xs) (auto simp: one split: prod.splits if_splits)
  then show ?thesis using assms(1) by (auto simp: one serve_shadow_def Let_def)
qed

lemma shadow_executes_nothing_witness:
  "fst (admit_all demo_codec [charge] (context_shadow ''run'' (\<lambda>_ _. None))) =
     [Inl (ShadowRefused ''charge'' NonIdempotent (request_id demo_codec ''run'' charge))]"
proof -
  let ?ctx = "context_shadow ''run'' (\<lambda>_ _. None)"
  have s: "ac_shadow ?ctx = Some \<lparr> sb_source = (\<lambda>_ _. None), sb_sink = [] \<rparr>" by (simp add: context_shadow_def)
  obtain xs c where x: "admit_all demo_codec [charge] ?ctx = (xs, c)" by (metis surj_pair)
  have "\<not> is_ok (xs ! 0)" using shadow_executes_nothing [OF s x] by (auto simp: charge_def)
  then show ?thesis
    using x by (auto simp: admit_def Let_def charge_def context_shadow_def context_new_def is_shadow_def)
qed

text \<open>The typed helpers agree with the runtime boundary on the request they bridge to.\<close>

lemma typed_helpers_agree:
  "admit_speculation e = Ok () \<Longrightarrow> is_ok (fst (admit cd (from_typed e) ctx))"
  "\<not> is_shadow ctx \<Longrightarrow> admit_retry e = Ok () \<Longrightarrow> is_ok (fst (admit cd (from_typed e) ctx))"
  "\<not> is_shadow ctx \<Longrightarrow> admit_compensatable e (ac_compensations ctx) = Ok h \<Longrightarrow>
     \<exists>p. fst (admit cd (from_typed e) ctx) = Ok p \<and> pm_compensation p = Some h"
  "\<not> is_shadow ctx \<Longrightarrow> admit_irreversible cd e (ac_scope ctx) (Some t) = Ok () \<Longrightarrow>
     is_ok (fst (admit cd (from_typed e) (with_approvals [t] ctx)))"
  by (auto simp: admit_speculation_def admit_retry_def admit_compensatable_def admit_irreversible_def
      check_declaration_def from_typed_def admit_def typed_id_def request_id_def token_admits_def
      with_approvals_def is_shadow_def bt_of_list_def bt_insert_all_def Let_def
      split: if_splits option.splits)

section \<open>Receipts survive\<close>

lemma receipt_roundtrip [simp]: "receipt_from_value (receipt_to_value r) = Some r"
  by (cases "rc_task_id r"; cases "rc_effect_id r")
     (simp_all add: receipt_from_value_def receipt_to_value_def opt_field_def opt_string_def)

definition record_all :: "codec \<Rightarrow> event_draft list \<Rightarrow> journal \<Rightarrow> journal" where
  "record_all cd ds j = foldl (\<lambda>j d. snd (record_event cd d j)) j ds"

lemma record_artifacts_grow:
  assumes "artifacts_ok cd (j_artifacts j)"
  shows "artifacts_ok cd (j_artifacts (snd (record_event cd d j))) \<and>
    map_of (j_artifacts j) \<subseteq>\<^sub>m map_of (j_artifacts (snd (record_event cd d j))) \<and>
    (\<exists>e. j_events (snd (record_event cd d j)) = j_events j @ [e])"
proof (rule record_event_cases [of cd j d])
  fix e inp arts1 outp arts2
  assume s: "store_payload_opt cd (j_artifacts j) (d_input d) = (inp, arts1)"
    "store_payload_opt cd arts1 (d_output d) = (outp, arts2)"
    and ev: "j_events (snd (record_event cd d j)) = j_events j @ [e]" "j_artifacts (snd (record_event cd d j)) = arts2"
  show ?thesis
    using store_payload_opt_artifacts [OF assms s(1)] store_payload_opt_artifacts [OF _ s(2)] ev map_le_trans
    by auto
qed

lemma record_all_grows:
  "artifacts_ok cd (j_artifacts j) \<Longrightarrow>
     map_of (j_artifacts j) \<subseteq>\<^sub>m map_of (j_artifacts (record_all cd ds j)) \<and>
     (\<exists>es. j_events (record_all cd ds j) = j_events j @ es)"
proof (induction ds arbitrary: j)
  case (Cons d ds)
  have step: "record_all cd (d # ds) j = record_all cd ds (snd (record_event cd d j))" by (simp add: record_all_def)
  show ?case
    using record_artifacts_grow [OF Cons.prems, of d] Cons.IH [of "snd (record_event cd d j)"] map_le_trans
    unfolding step by fastforce
qed (simp add: record_all_def)

lemma receipt_of_mono:
  assumes "map_of (js_artifacts s) \<subseteq>\<^sub>m map_of (js_artifacts s')" "payload_stored (js_artifacts s) (ev_output e)"
  shows "receipt_of s' e = receipt_of s e"
  using assms
  by (auto simp: receipt_of_def payload_stored_def map_le_def dom_def split: option.splits payload_ref.splits bind_splits)

lemma find_map_filter_append:
  "find P (List.map_filter f (xs @ ys)) =
     (case find P (List.map_filter f xs) of None \<Rightarrow> find P (List.map_filter f ys) | Some r \<Rightarrow> Some r)"
  by (induction xs) (auto simp: List.map_filter_simps split: option.splits)

lemma recorded_receipt_found:
  assumes "collision_free cd" "journal_inv cd j" "find P (receipts (snapshot j)) = None" "P r"
  shows "find P (receipts (snapshot (record_all cd ds (snd (record_effect_receipt cd r parent j))))) = Some r"
proof (rule record_event_cases [of cd j "(draft_new KEffectReceipt Idempotent)
    \<lparr> d_output := Some (receipt_to_value r), d_parent := parent \<rparr>"])
  let ?d = "(draft_new KEffectReceipt Idempotent) \<lparr> d_output := Some (receipt_to_value r), d_parent := parent \<rparr>"
  let ?j1 = "snd (record_event cd ?d j)"
  fix e inp arts1 outp arts2
  assume s: "store_payload_opt cd (j_artifacts j) (d_input ?d) = (inp, arts1)"
      "store_payload_opt cd arts1 (d_output ?d) = (outp, arts2)"
    and e: "ev_output e = outp" "ev_kind e = d_kind ?d"
    and ev: "j_events ?j1 = j_events j @ [e]" and ar: "j_artifacts ?j1 = arts2"
  have ok: "artifacts_ok cd (j_artifacts j)" using assms(2) by (simp add: journal_inv_def)
  have arts1: "arts1 = j_artifacts j" using s(1) by (simp add: draft_new_def)
  define J where "J = record_all cd ds ?j1"
  obtain es where es: "j_events J = j_events j @ e # es" "map_of arts2 \<subseteq>\<^sub>m map_of (j_artifacts J)"
    using record_all_grows [of cd ?j1 ds] record_artifacts_grow [OF ok, of ?d] unfolding J_def ev ar by fastforce
  have "map_option (resolve J) outp = Some (Some (receipt_to_value r))"
    using store_payload_opt_resolve [OF assms(1) ok s(2) [unfolded arts1] es(2)] by simp
  then obtain p where "outp = Some p" "resolve J p = Some (receipt_to_value r)" by auto
  then have new: "receipt_of (snapshot J) e = Some r"
    using e by (cases p) (simp_all add: receipt_of_def draft_new_def snapshot_def resolve_def)
  have "map_of (j_artifacts j) \<subseteq>\<^sub>m map_of (j_artifacts J)"
    using record_artifacts_grow [OF ok, of ?d] es(2) map_le_trans unfolding ar by blast
  then have old: "receipt_of (snapshot J) x = receipt_of (snapshot j) x" if "x \<in> set (j_events j)" for x
    using assms(2) that by (intro receipt_of_mono) (auto simp: snapshot_def journal_inv_def)
  have "receipts (snapshot J) = List.map_filter (receipt_of (snapshot J)) (j_events j @ e # es)"
    using es(1) by (simp add: receipts_def snapshot_def)
  moreover have "List.map_filter (receipt_of (snapshot J)) (j_events j) = receipts (snapshot j)"
    using old by (auto simp: receipts_def List.map_filter_def snapshot_def cong: map_cong filter_cong)
  ultimately show ?thesis
    using assms(3,4) new
    by (simp add: record_effect_receipt_def J_def [symmetric] find_map_filter_append List.map_filter_simps)
qed

text \<open>
  C40: a committed effect is never re-sent.  Once a receipt is journaled under a key and
  an effect id the journal did not know, every later snapshot of that journal, whatever is recorded after it,
  answers a lookup of the key with that receipt, and likewise a lookup of its effect id.
\<close>

theorem receipt_answers_recovery:
  assumes "collision_free cd" "journal_inv cd j"
    "find_effect_receipt (snapshot j) (rc_idempotency_key r) = None"
    "rc_effect_id r = Some eid" "find_effect_receipt_by_effect_id (snapshot j) eid = None"
    "later = snapshot (record_all cd ds (snd (record_effect_receipt cd r parent j)))"
  shows "find_effect_receipt later (rc_idempotency_key r) = Some r \<and>
    find_effect_receipt_by_effect_id later eid = Some r"
  using assms recorded_receipt_found [OF assms(1,2), where r = r]
  by (simp add: find_effect_receipt_def find_effect_receipt_by_effect_id_def)

lemma demo_collision_free: "collision_free demo_codec"
  by (simp add: collision_free_def demo_codec_def)

theorem receipt_answers_recovery_witness:
  "let r = \<lparr> rc_provider = ''p'', rc_provider_id = ''i'', rc_idempotency_key = ''k'', rc_task_id = None,
             rc_effect_id = Some ''e'' \<rparr>;
       j = journal_new demo_codec ''run'' ''t'' (LogicalClock 0 1)
   in find_effect_receipt (snapshot (record_all demo_codec [draft_new KToolCall Pure]
        (snd (record_effect_receipt demo_codec r None j)))) ''k'' = Some r"
proof -
  let ?r = "\<lparr> rc_provider = ''p'', rc_provider_id = ''i'', rc_idempotency_key = ''k'', rc_task_id = None,
             rc_effect_id = Some ''e'' \<rparr>"
  let ?j = "journal_new demo_codec ''run'' ''t'' (LogicalClock 0 1)"
  have "find_effect_receipt (snapshot ?j) (rc_idempotency_key ?r) = None"
    "find_effect_receipt_by_effect_id (snapshot ?j) ''e'' = None"
    by (simp_all add: find_effect_receipt_def find_effect_receipt_by_effect_id_def receipts_def snapshot_def
        journal_new_def List.map_filter_simps)
  from receipt_answers_recovery [OF demo_collision_free journal_inv_new this(1) _ this(2) refl] show ?thesis
    by (simp add: Let_def)
qed

end
