(* ===== verification/Tool_Dispatch.thy ===== *)
theory Tool_Dispatch
  imports Middleware_Chain Effect_Kernel "HOL-Library.AList"
begin

text \<open>
  Tool dispatch (rusty-core tool.rs): the registry with its live sources and the exact run
  allowlist, deny-only guards, placement in process or in a sandbox, the effect boundary, and the
  executor that runs single calls and batches through the middleware chain.

  A tool, a source, a guard and a sandbox backend are records of their trait's methods.  What
  they share with the run is the run's journal, the admission context and the log of tool bodies
  executed so far, which form the \<open>dispatch_world\<close>; a tool body and a source answer as a function
  of that log, so they can be any stateful implementation.  Panics are values, because the
  executor catches them.
\<close>

section \<open>Tools and their placement\<close>

datatype effect_class = ReadClass | ExecuteClass | EgressClass

datatype sandbox_need = NoSandbox | SandboxNeeded

datatype placement = InProcess | Sandboxed

datatype placement_error =
    InvalidDeclaration string effect_class sandbox_need
  | NoBackendAvailable string sandbox_need

record execution =
  ex_placement :: placement
  ex_tool :: string
  ex_arguments :: json
  ex_permit :: "effect_permit option"

text \<open>
  An entry of the log: where a body ran, on what, and under which permit (the one the dispatcher
  holds during the call).  What a tool body does: return, fail, or panic with an optional text
  payload.
\<close>

datatype call_result = CallOk json | CallErr rusty_error | CallPanic "string option"

record tool =
  tl_name :: string
  tl_description :: string
  tl_parameters_schema :: json
  tl_effect :: effect
  tl_carries_approval :: "tool_call \<Rightarrow> bool"
  tl_effect_class :: effect_class
  tl_sandbox_requirement :: sandbox_need
  tl_effect_request :: "codec \<Rightarrow> tool_call \<Rightarrow> effect_request option"
  tl_call :: "execution list \<Rightarrow> json \<Rightarrow> call_result"

text \<open>
  The default body of \<open>Tool::effect_request\<close>, over the tool's kind, class and key; a tool may
  provide its own.  \<open>None\<close> is the panic on a value that does not serialize.
\<close>

definition default_effect_request ::
    "string \<Rightarrow> effect \<Rightarrow> (json \<Rightarrow> string option) \<Rightarrow> codec \<Rightarrow> tool_call \<Rightarrow> effect_request option" where
  "default_effect_request kind eff key cd call =
     request_new cd kind eff
       (JObject (bt_of_list [(''arguments'', tc_arguments call), (''tool_call_id'', JString (tc_id call))]))
       (key (tc_arguments call))"

primrec effect_class_debug :: "effect_class \<Rightarrow> string" where
  "effect_class_debug ReadClass = ''Read''"
| "effect_class_debug ExecuteClass = ''Execute''"
| "effect_class_debug EgressClass = ''Egress''"

primrec sandbox_need_debug :: "sandbox_need \<Rightarrow> string" where
  "sandbox_need_debug NoSandbox = ''None''"
| "sandbox_need_debug SandboxNeeded = ''Required''"

primrec placement_error_text :: "placement_error \<Rightarrow> string" where
  "placement_error_text (InvalidDeclaration name cls need) =
     ''tool `'' @ name @ ''` declares effect class `'' @ effect_class_debug cls @
     ''` with sandbox requirement \"'' @ sandbox_need_debug need @
     ''\": Execute/Egress tools must require a sandbox''"
| "placement_error_text (NoBackendAvailable name need) =
     ''tool `'' @ name @ ''` requires sandbox \"'' @ sandbox_need_debug need @
     ''\" but no sandbox backend is available''"

definition resolve_placement :: "tool \<Rightarrow> bool \<Rightarrow> placement_error + placement" where
  "resolve_placement t sandbox_available =
     (let cls = tl_effect_class t; need = tl_sandbox_requirement t in
      if (cls = ExecuteClass \<or> cls = EgressClass) \<and> need = NoSandbox
      then Err (InvalidDeclaration (tl_name t) cls need)
      else if cls = ReadClass \<and> need = NoSandbox then Ok InProcess
      else if \<not> sandbox_available then Err (NoBackendAvailable (tl_name t) need)
      else Ok Sandboxed)"

definition declares_validly :: "tool \<Rightarrow> bool" where
  "declares_validly t \<longleftrightarrow>
     (case resolve_placement t False of Inl (InvalidDeclaration _ _ _) \<Rightarrow> False | _ \<Rightarrow> True)"

section \<open>The registry\<close>

record tool_registry =
  tr_tools :: "(string \<times> tool) list"
  tr_sources :: "(execution list \<Rightarrow> tool list) list"

definition registry_new :: tool_registry where
  "registry_new = \<lparr> tr_tools = [], tr_sources = [] \<rparr>"

text \<open>Registering panics (\<open>None\<close>) on an invalid declaration; the map is a \<open>HashMap\<close>.\<close>

definition register_shared :: "tool \<Rightarrow> tool_registry \<Rightarrow> tool_registry option" where
  "register_shared t reg =
     (if declares_validly t then Some (reg \<lparr> tr_tools := AList.update (tl_name t) t (tr_tools reg) \<rparr>)
      else None)"

definition unregister :: "string \<Rightarrow> tool_registry \<Rightarrow> tool option \<times> tool_registry" where
  "unregister name reg = (map_of (tr_tools reg) name, reg \<lparr> tr_tools := AList.delete name (tr_tools reg) \<rparr>)"

definition attach :: "(execution list \<Rightarrow> tool list) \<Rightarrow> tool_registry \<Rightarrow> tool_registry" where
  "attach source reg = reg \<lparr> tr_sources := tr_sources reg @ [source] \<rparr>"

definition source_tools :: "tool_registry \<Rightarrow> execution list \<Rightarrow> tool list" where
  "source_tools reg past = concat (map (\<lambda>source. source past) (tr_sources reg))"

definition registry_all :: "tool_registry \<Rightarrow> execution list \<Rightarrow> (string \<times> tool) list" where
  "registry_all reg past =
     bt_insert_all (tr_tools reg) (bt_of_list (map (\<lambda>t. (tl_name t, t)) (source_tools reg past)))"

definition registry_get :: "tool_registry \<Rightarrow> execution list \<Rightarrow> string \<Rightarrow> tool option" where
  "registry_get reg past name =
     (case map_of (tr_tools reg) name of
        Some t \<Rightarrow> Some t
      | None \<Rightarrow> find (\<lambda>t. tl_name t = name) (source_tools reg past))"

text \<open>How a call stops short of a result: an error, or a panic with its rendered payload.\<close>

datatype tool_stop = Failed rusty_error | Panicked string

definition tool_failed :: "string \<Rightarrow> tool_stop" where
  "tool_failed message = Failed (Tool message)"

fun select_tools ::
    "tool_registry \<Rightarrow> execution list \<Rightarrow> string list \<Rightarrow> string list \<Rightarrow> tool_registry \<Rightarrow> tool_stop + tool_registry" where
  "select_tools reg past seen [] selected = Ok selected"
| "select_tools reg past seen (name # names) selected =
     (if name \<in> set seen then Err (tool_failed (''tool allowlist contains duplicate `'' @ name @ ''`''))
      else case registry_get reg past name of
        None \<Rightarrow> Err (tool_failed (''tool allowlist names `'' @ name @ ''`, which is not registered''))
      | Some t \<Rightarrow>
          (case register_shared t selected of
             None \<Rightarrow> Err (Panicked (''tool `'' @ tl_name t @
               ''` declares an invalid placement: Execute/Egress tools must require a sandbox''))
           | Some selected' \<Rightarrow> select_tools reg past (name # seen) names selected'))"

definition restricted_to :: "tool_registry \<Rightarrow> execution list \<Rightarrow> string list \<Rightarrow> tool_stop + tool_registry" where
  "restricted_to reg past allowlist = select_tools reg past [] allowlist registry_new"

section \<open>Guards\<close>

record guarded_call =
  gc_tool :: string
  gc_arguments :: json
  gc_effect :: effect
  gc_scope :: string

record guard_denial =
  gd_guard :: string
  gd_reason :: string

record tool_guard =
  tg_name :: string
  tg_check :: "codec \<Rightarrow> guarded_call \<Rightarrow> journal \<Rightarrow> guard_denial option \<times> journal"

fun run_guards :: "codec \<Rightarrow> tool_guard list \<Rightarrow> guarded_call \<Rightarrow> journal \<Rightarrow> guard_denial list \<times> journal" where
  "run_guards cd [] c j = ([], j)"
| "run_guards cd (g # gs) c j =
     (let (d, j1) = tg_check g cd c j; (ds, j2) = run_guards cd gs c j1
      in (case d of None \<Rightarrow> ds | Some x \<Rightarrow> x # ds, j2))"

primrec effect_wire :: "effect \<Rightarrow> string" where
  "effect_wire Pure = ''pure''"
| "effect_wire ReadOnly = ''read_only''"
| "effect_wire Idempotent = ''idempotent''"
| "effect_wire Compensatable = ''compensatable''"
| "effect_wire NonIdempotent = ''non_idempotent''"

text \<open>\<open>GuardDenialRecord\<close> as the value it serializes to.\<close>

definition denial_record :: "tool_call \<Rightarrow> effect \<Rightarrow> string \<Rightarrow> guard_denial list \<Rightarrow> json" where
  "denial_record call eff scope denials =
     JObject (bt_of_list [(''tool'', JString (tc_name call)), (''effect'', JString (effect_wire eff)),
       (''scope'', JString scope),
       (''denials'', JArray (map (\<lambda>d. JObject (bt_of_list
          [(''guard'', JString (gd_guard d)), (''reason'', JString (gd_reason d))])) denials))])"

definition tool_call_request :: "tool_call \<Rightarrow> json" where
  "tool_call_request call =
     JObject (bt_of_list [(''tool'', JString (tc_name call)), (''arguments'', tc_arguments call)])"

definition on_node :: "string \<Rightarrow> event_draft \<Rightarrow> event_draft" where
  "on_node node d = (if node = [] then d else d \<lparr> d_node := Some node \<rparr>)"

definition denial_draft ::
    "tool_call \<Rightarrow> effect \<Rightarrow> string \<Rightarrow> string \<Rightarrow> guard_denial list \<Rightarrow> string \<Rightarrow> event_draft" where
  "denial_draft call eff scope node denials parent =
     on_node node ((draft_new (KOther ''tool_call_denied'') Pure)
       \<lparr> d_input := Some (tool_call_request call), d_output := Some (denial_record call eff scope denials),
         d_parent := Some parent \<rparr>)"

definition denial_text :: "tool_call \<Rightarrow> guard_denial list \<Rightarrow> string" where
  "denial_text call denials =
     ''tool guard denied `'' @ tc_name call @ ''`: '' @
     join_with ''; '' (map (\<lambda>d. ''guard `'' @ gd_guard d @ ''`: '' @ gd_reason d) denials)"

section \<open>The dispatcher\<close>

datatype enforcement_level = FullEnforcement | PartialEnforcement

record sandbox_result =
  sr_stdout :: string
  sr_stderr :: string
  sr_exit_code :: "int option"
  sr_timed_out :: bool
  sr_truncated :: bool
  sr_duration_ms :: nat

record sandbox =
  sx_enforcement :: enforcement_level
  sx_backend_id :: string
  sx_execute :: "execution list \<Rightarrow> string \<Rightarrow> string list \<Rightarrow> rusty_error + sandbox_result"

text \<open>
  Rendered errors, and what the system clock reads when a sandboxed call starts and ends, come
  from outside.
\<close>

record tool_env =
  tv_error_text :: "rusty_error \<Rightarrow> string"
  tv_started :: "execution list \<Rightarrow> nat"
  tv_finished :: "execution list \<Rightarrow> nat"

record dispatch_world =
  dw_journal :: journal
  dw_admission :: "admission_context option"
  dw_executed :: "execution list"

record tool_executor =
  te_registry :: tool_registry
  te_middleware :: "middleware list"
  te_guards :: "tool_guard list"
  te_guard_evidence :: "string option"
  te_thread_id :: string
  te_node :: string
  te_sandbox :: "sandbox option"

definition executor_new :: "tool_registry \<Rightarrow> tool_executor" where
  "executor_new reg = \<lparr> te_registry = reg, te_middleware = [], te_guards = [], te_guard_evidence = None,
     te_thread_id = [], te_node = [], te_sandbox = None \<rparr>"

definition record_into :: "codec \<Rightarrow> event_draft \<Rightarrow> dispatch_world \<Rightarrow> dispatch_world" where
  "record_into cd d w = w \<lparr> dw_journal := snd (record_event cd d (dw_journal w)) \<rparr>"

definition guard_stage ::
    "codec \<Rightarrow> tool_executor \<Rightarrow> tool \<Rightarrow> tool_call \<Rightarrow> dispatch_world \<Rightarrow> (tool_stop + unit) \<times> dispatch_world" where
  "guard_stage cd ex t call w =
     (if te_guards ex = [] then (Ok (), w)
      else
        let guarded = \<lparr> gc_tool = tc_name call, gc_arguments = tc_arguments call, gc_effect = tl_effect t,
              gc_scope = te_thread_id ex \<rparr>;
            (denials, j) = run_guards cd (te_guards ex) guarded (dw_journal w);
            w1 = w \<lparr> dw_journal := j \<rparr>
        in if denials = [] then (Ok (), w1)
           else (Err (tool_failed (denial_text call denials)),
             case te_guard_evidence ex of
               None \<Rightarrow> w1
             | Some parent \<Rightarrow>
                 record_into cd (denial_draft call (tl_effect t) (te_thread_id ex) (te_node ex) denials parent) w1))"

text \<open>The placement together with the backend it names.\<close>

definition place_call :: "tool_executor \<Rightarrow> tool \<Rightarrow> tool_call \<Rightarrow> tool_stop + sandbox option" where
  "place_call ex t call =
     (case resolve_placement t (te_sandbox ex \<noteq> None) of
        Inl e \<Rightarrow> Err (tool_failed (placement_error_text e))
      | Inr InProcess \<Rightarrow> Ok None
      | Inr Sandboxed \<Rightarrow>
          (case te_sandbox ex of
             None \<Rightarrow> Err (Panicked ''sandbox available verified by resolve_placement'')
           | Some backend \<Rightarrow>
               if tl_sandbox_requirement t = SandboxNeeded \<and> sx_enforcement backend = PartialEnforcement
               then Err (tool_failed (''tool `'' @ tc_name call @
                 ''` requires full sandbox enforcement but backend `'' @ sx_backend_id backend @ ''` reports partial''))
               else Ok (Some backend)))"

primrec effect_debug :: "effect \<Rightarrow> string" where
  "effect_debug Pure = ''Pure''"
| "effect_debug ReadOnly = ''ReadOnly''"
| "effect_debug Idempotent = ''Idempotent''"
| "effect_debug Compensatable = ''Compensatable''"
| "effect_debug NonIdempotent = ''NonIdempotent''"

fun violation_text :: "effect_violation \<Rightarrow> string" where
  "violation_text (DeclarationMismatch kind marker declared) =
     ''effect kind `'' @ kind @ ''` is marked with the '' @ effect_debug marker @
     '' marker trait but declares '' @ effect_debug declared @
     '': the marker and TypedEffect::EFFECT must agree''"
| "violation_text (MissingIdempotencyKey kind) =
     ''idempotent effect kind `'' @ kind @
     ''` has no idempotency key: a stable key is what the idempotency declaration means at the wire''"
| "violation_text (MissingCompensation kind) =
     ''compensatable effect kind `'' @ kind @
     ''` has no registered rollback handler: register one in a CompensationRegistry before executing it''"
| "violation_text (MissingApproval kind eid) =
     ''irreversible effect kind `'' @ kind @ ''` ('' @ eid @
     '') requires an explicit approval token scoped to its effect id''"
| "violation_text (ApprovalScopeMismatch kind required presented) =
     ''approval token for '' @ presented @ '' does not admit irreversible effect kind `'' @ kind @
     ''` ('' @ required @ '')''"
| "violation_text (ShadowRefused kind eff eid) =
     ''shadow admission refused '' @ effect_debug eff @ '' effect kind `'' @ kind @ ''` ('' @ eid @
     ''): a shadow admits Pure and ReadOnly effects only '' @ [CHR 0xE2, CHR 0x80, CHR 0x94] @
     '' the candidate'' @ [CHR 0x27] @ ''s effects never reach the world''"

datatype admission_answer = Admitted "effect_permit option" | Recorded json

definition admit_stage ::
    "codec \<Rightarrow> tool \<Rightarrow> tool_call \<Rightarrow> dispatch_world \<Rightarrow> (tool_stop + admission_answer) \<times> dispatch_world" where
  "admit_stage cd t call w =
     (case dw_admission w of
        None \<Rightarrow> (Ok (Admitted None), w)
      | Some ctx \<Rightarrow>
          (case tl_effect_request t cd call of
             None \<Rightarrow> (Err (Panicked ''a serde_json::Value always serializes''), w)
           | Some request \<Rightarrow>
               (case admit cd request ctx of
                  (Inr permit, ctx1) \<Rightarrow> (Ok (Admitted (Some permit)), w \<lparr> dw_admission := Some ctx1 \<rparr>)
                | (Inl violation, ctx1) \<Rightarrow>
                    (case serve_shadow request (tool_call_request call) violation ctx1 of
                       (Some recorded, ctx2) \<Rightarrow> (Ok (Recorded recorded), w \<lparr> dw_admission := Some ctx2 \<rparr>)
                     | (None, ctx2) \<Rightarrow>
                         (Err (tool_failed (''effect admission denied: '' @ violation_text violation)),
                          w \<lparr> dw_admission := Some ctx2 \<rparr>)))))"

definition panic_message :: "string option \<Rightarrow> string" where
  "panic_message payload = (case payload of Some s \<Rightarrow> s | None \<Rightarrow> ''<non-string payload>'')"

definition log_execution :: "placement \<Rightarrow> effect_permit option \<Rightarrow> tool_call \<Rightarrow> dispatch_world \<Rightarrow> dispatch_world" where
  "log_execution p permit call w = w \<lparr> dw_executed := dw_executed w @
     [\<lparr> ex_placement = p, ex_tool = tc_name call, ex_arguments = tc_arguments call,
       ex_permit = permit \<rparr>] \<rparr>"

definition call_in_process ::
    "effect_permit option \<Rightarrow> tool \<Rightarrow> tool_call \<Rightarrow> dispatch_world \<Rightarrow> (tool_stop + json) \<times> dispatch_world" where
  "call_in_process permit t call w =
     (case tl_call t (dw_executed w) (tc_arguments call) of
        CallOk v \<Rightarrow> Ok v
      | CallErr e \<Rightarrow> Err (Failed e)
      | CallPanic payload \<Rightarrow> Err (Panicked (panic_message payload)), log_execution InProcess permit call w)"

definition json_of_int :: "int \<Rightarrow> json" where
  "json_of_int i = JNumber (if i < 0 then NegInt i else PosInt (nat i))"

definition sandbox_result_value :: "sandbox_result \<Rightarrow> json" where
  "sandbox_result_value r = JObject (bt_of_list
     [(''stdout'', JString (sr_stdout r)), (''stderr'', JString (sr_stderr r)),
      (''exit_code'', case sr_exit_code r of None \<Rightarrow> JNull | Some i \<Rightarrow> json_of_int i),
      (''timed_out'', JBool (sr_timed_out r)), (''truncated'', JBool (sr_truncated r)),
      (''duration_ms'', JNumber (PosInt (sr_duration_ms r)))])"

definition sandbox_draft ::
    "tool_env \<Rightarrow> tool_executor \<Rightarrow> tool \<Rightarrow> tool_call \<Rightarrow> string \<Rightarrow> nat \<Rightarrow> rusty_error + json \<Rightarrow> event_draft" where
  "sandbox_draft env ex t call parent latency result =
     (let d = on_node (te_node ex) ((draft_new KToolCall (tl_effect t))
            \<lparr> d_input := Some (tool_call_request call), d_latency_ms := Some latency, d_parent := Some parent \<rparr>)
      in case result of
           Inr v \<Rightarrow> d \<lparr> d_output := Some v \<rparr>
         | Inl e \<Rightarrow> d \<lparr> d_status := StatusError,
                      d_output := Some (JObject [(''error'', JString (tv_error_text env e))]) \<rparr>)"

text \<open>With an evidence handle the journal's clock is read before and after the call.\<close>

definition read_clock :: "codec \<Rightarrow> nat \<Rightarrow> dispatch_world \<Rightarrow> nat \<times> dispatch_world" where
  "read_clock cd reading w =
     (let (now, c) = clock_now cd reading (j_clock (dw_journal w))
      in (now, w \<lparr> dw_journal := (dw_journal w) \<lparr> j_clock := c \<rparr> \<rparr>))"

definition call_sandboxed ::
    "codec \<Rightarrow> tool_env \<Rightarrow> tool_executor \<Rightarrow> sandbox \<Rightarrow> effect_permit option \<Rightarrow> tool \<Rightarrow> tool_call \<Rightarrow>
     dispatch_world \<Rightarrow> (tool_stop + json) \<times> dispatch_world" where
  "call_sandboxed cd env ex backend permit t call w =
     (let (started, w1) = (case te_guard_evidence ex of
            None \<Rightarrow> (0, w) | Some _ \<Rightarrow> read_clock cd (tv_started env (dw_executed w)) w)
      in case ser_value cd (tc_arguments call) of
           None \<Rightarrow> (Err (Failed (Serialization NotSerializable)), w1)
         | Some text \<Rightarrow>
             (let result = rbind (sx_execute backend (dw_executed w1) (tc_name call) [text])
                    (\<lambda>r. Ok (sandbox_result_value r));
                  w2 = log_execution Sandboxed permit call w1
              in (case result of Inl e \<Rightarrow> Err (Failed e) | Inr v \<Rightarrow> Ok v,
                  case te_guard_evidence ex of
                    None \<Rightarrow> w2
                  | Some parent \<Rightarrow>
                      (let (finished, w3) = read_clock cd (tv_finished env (dw_executed w2)) w2
                       in record_into cd (sandbox_draft env ex t call parent (finished - started) result) w3))))"

definition invoke ::
    "codec \<Rightarrow> tool_env \<Rightarrow> tool_executor \<Rightarrow> sandbox option \<Rightarrow> effect_permit option \<Rightarrow> tool \<Rightarrow> tool_call \<Rightarrow>
     dispatch_world \<Rightarrow> (tool_stop + json) \<times> dispatch_world" where
  "invoke cd env ex backend permit t call w =
     (case backend of
        None \<Rightarrow> call_in_process permit t call w
      | Some b \<Rightarrow> call_sandboxed cd env ex b permit t call w)"

definition dispatch_tool ::
    "codec \<Rightarrow> tool_env \<Rightarrow> tool_executor \<Rightarrow> tool_call \<Rightarrow> dispatch_world \<Rightarrow> (tool_stop + json) \<times> dispatch_world" where
  "dispatch_tool cd env ex call w =
     (case registry_get (te_registry ex) (dw_executed w) (tc_name call) of
        None \<Rightarrow> (Err (tool_failed (''unknown tool `'' @ tc_name call @ ''`'')), w)
      | Some t \<Rightarrow>
          (case guard_stage cd ex t call w of
             (Inl stop, w1) \<Rightarrow> (Err stop, w1)
           | (Inr _, w1) \<Rightarrow>
               (case place_call ex t call of
                  Inl stop \<Rightarrow> (Err stop, w1)
                | Inr backend \<Rightarrow>
                    (case admit_stage cd t call w1 of
                       (Inl stop, w2) \<Rightarrow> (Err stop, w2)
                     | (Inr (Recorded v), w2) \<Rightarrow> (Ok v, w2)
                     | (Inr (Admitted permit), w2) \<Rightarrow> invoke cd env ex backend permit t call w2))))"

section \<open>The executor\<close>

definition contain_panic :: "tool_call \<Rightarrow> (tool_stop + json) \<times> dispatch_world \<Rightarrow> (rusty_error + json) \<times> dispatch_world" where
  "contain_panic call x =
     (case x of
        (Inr v, w) \<Rightarrow> (Ok v, w)
      | (Inl (Failed e), w) \<Rightarrow> (Err e, w)
      | (Inl (Panicked message), w) \<Rightarrow>
          (Err (Tool (''tool `'' @ tc_name call @ ''` panicked: '' @ message)), w))"

definition execute_one ::
    "codec \<Rightarrow> tool_env \<Rightarrow> tool_executor \<Rightarrow> tool_call \<Rightarrow> dispatch_world \<Rightarrow> (rusty_error + json) \<times> dispatch_world" where
  "execute_one cd env ex call w =
     contain_panic call
       (if te_middleware ex = [] then dispatch_tool cd env ex call w
        else run_tool dw_journal (\<lambda>j w. w \<lparr> dw_journal := j \<rparr>) (Failed \<circ> into_error) (te_middleware ex)
          (\<lambda>inv. dispatch_tool cd env ex (ti_call inv))
          \<lparr> ti_thread_id = te_thread_id ex, ti_node = te_node ex, ti_call = call,
            ti_effect = map_option tl_effect (registry_get (te_registry ex) (dw_executed w) (tc_name call)) \<rparr> w)"

text \<open>
  The calls of a batch run concurrently; \<open>rank\<close> says in which order they are dispatched, and the
  joined results come back in call order.  Each dispatch is one step of the schedule.
\<close>

fun execute_in_order ::
    "codec \<Rightarrow> tool_env \<Rightarrow> tool_executor \<Rightarrow> (nat \<times> tool_call) list \<Rightarrow> dispatch_world \<Rightarrow>
     (nat \<times> (rusty_error + json)) list \<times> dispatch_world" where
  "execute_in_order cd env ex [] w = ([], w)"
| "execute_in_order cd env ex ((i, call) # rest) w =
     (let (r, w1) = execute_one cd env ex call w; (rs, w2) = execute_in_order cd env ex rest w1
      in ((i, r) # rs, w2))"

text \<open>How results are shown to the model is the argument \<open>show_value\<close>.\<close>

definition result_message :: "tool_env \<Rightarrow> (json \<Rightarrow> string) \<Rightarrow> tool_call \<Rightarrow> rusty_error + json \<Rightarrow> chat_message" where
  "result_message env show_value call r =
     tool_result (tc_id call) (case r of Inr v \<Rightarrow> show_value v | Inl e \<Rightarrow> ''ERROR: '' @ tv_error_text env e)"

definition execute_batch ::
    "codec \<Rightarrow> tool_env \<Rightarrow> (json \<Rightarrow> string) \<Rightarrow> (nat \<Rightarrow> nat) \<Rightarrow> tool_executor \<Rightarrow> tool_call list \<Rightarrow> dispatch_world \<Rightarrow>
     chat_message list \<times> dispatch_world" where
  "execute_batch cd env show_value rank ex calls w =
     (let (rs, w') = execute_in_order cd env ex (sort_key (rank \<circ> fst) (enumerate 0 calls)) w
      in (map2 (result_message env show_value) calls (map snd (sort_key fst rs)), w'))"

record approval_needed =
  an_call_id :: string
  an_tool :: string
  an_arguments :: json
  an_kind :: string
  an_effect_id :: string

text \<open>\<open>None\<close> is the panic of an effect request that does not serialize.\<close>

definition approval_for ::
    "codec \<Rightarrow> tool_executor \<Rightarrow> admission_context \<Rightarrow> execution list \<Rightarrow> tool_call \<Rightarrow> approval_needed option option" where
  "approval_for cd ex gate past call =
     (case registry_get (te_registry ex) past (tc_name call) of
        None \<Rightarrow> Some None
      | Some t \<Rightarrow>
          if tl_carries_approval t call then Some None
          else map_option (\<lambda>request.
            map_option (\<lambda>eid. \<lparr> an_call_id = tc_id call, an_tool = tc_name call, an_arguments = tc_arguments call,
                an_kind = er_kind request, an_effect_id = eid \<rparr>)
              (approval_required cd gate request)) (tl_effect_request t cd call))"

definition approvals_needed ::
    "codec \<Rightarrow> tool_executor \<Rightarrow> admission_context \<Rightarrow> execution list \<Rightarrow> tool_call list \<Rightarrow> approval_needed list option" where
  "approvals_needed cd ex gate past calls =
     map_option (List.map_filter id) (those (map (approval_for cd ex gate past) calls))"

end
