(* ===== verification/Dispatch_Safety.thy ===== *)
theory Dispatch_Safety
  imports Tool_Dispatch
begin

text \<open>
  What tool dispatch guarantees: the run allowlist is exact, a tool body runs only behind the
  guards, a fitting backend and the effect boundary, a batch spends every approval at most once,
  and it answers each of its calls in order whatever the schedule.
\<close>

section \<open>The allowlist\<close>

definition registry_ok :: "tool_registry \<Rightarrow> bool" where
  "registry_ok reg \<longleftrightarrow> distinct (map fst (tr_tools reg)) \<and> (\<forall>(k, t) \<in> set (tr_tools reg). tl_name t = k \<and> declares_validly t)"

lemma registry_ok_new: "registry_ok registry_new"
  by (simp add: registry_ok_def registry_new_def)

lemma set_update_subset: "set (AList.update k v al) \<subseteq> insert (k, v) (set al)"
  by (induction al) auto

lemma registry_ok_register:
  assumes "registry_ok reg" "register_shared t reg = Some reg'"
  shows "registry_ok reg'"
  using assms set_update_subset [of "tl_name t" t "tr_tools reg"]
  by (fastforce simp: registry_ok_def register_shared_def distinct_update split: if_splits)

lemma registry_ok_unregister: "registry_ok reg \<Longrightarrow> registry_ok (snd (unregister name reg))"
  by (auto simp: registry_ok_def unregister_def AList.delete_eq distinct_map_filter)

lemma registry_ok_attach: "registry_ok (attach source reg) \<longleftrightarrow> registry_ok reg"
  by (simp add: registry_ok_def attach_def)

lemma registry_get_name: "registry_ok reg \<Longrightarrow> registry_get reg past name = Some t \<Longrightarrow> tl_name t = name"
  by (auto simp: registry_get_def registry_ok_def find_Some_iff split: option.splits dest: map_of_SomeD)

lemma select_tools_exact:
  assumes "registry_ok reg" "select_tools reg past seen names sel = Ok sel'" "tr_sources sel = []"
  shows "distinct names \<and> set names \<inter> set seen = {} \<and>
    (\<forall>n \<in> set names. registry_get reg past n \<noteq> None) \<and> tr_sources sel' = [] \<and>
    map_of (tr_tools sel') = (\<lambda>n. if n \<in> set names then registry_get reg past n else map_of (tr_tools sel) n)"
  using assms(2,3)
proof (induction names arbitrary: seen sel)
  case (Cons name names)
  then obtain t sel1 where t: "name \<notin> set seen" "registry_get reg past name = Some t"
      "register_shared t sel = Some sel1" "select_tools reg past (name # seen) names sel1 = Ok sel'"
    by (auto split: if_splits option.splits)
  then have sel1: "sel1 = sel \<lparr> tr_tools := AList.update name t (tr_tools sel) \<rparr>"
    using registry_get_name [OF assms(1) t(2)] by (simp add: register_shared_def split: if_splits)
  then show ?case
    using Cons.IH [OF t(4)] Cons.prems(2) t(1,2) by (auto simp: update_conv' fun_eq_iff)
qed simp

text \<open>
  C24: the run allowlist is exact.  When restricting a registry to an allowlist succeeds, the
  allowlist has no duplicate, every name on it is a tool of the full registry, and the restricted
  registry offers each listed name exactly as the full registry did and no other name, now and
  later: it has no live sources left that could add a tool.
\<close>

theorem allowlist_is_exact:
  assumes "registry_ok reg" "restricted_to reg past allowlist = Ok selected"
  shows "distinct allowlist \<and> (\<forall>n \<in> set allowlist. registry_get reg past n \<noteq> None) \<and>
    registry_get selected later name = (if name \<in> set allowlist then registry_get reg past name else None)"
proof -
  have ex: "distinct allowlist \<and> (\<forall>n \<in> set allowlist. registry_get reg past n \<noteq> None) \<and> tr_sources selected = [] \<and>
      map_of (tr_tools selected) = (\<lambda>n. if n \<in> set allowlist then registry_get reg past n else None)"
    using select_tools_exact [OF assms(1) assms(2) [unfolded restricted_to_def]]
    by (auto simp: registry_new_def fun_eq_iff)
  then show ?thesis
    by (auto simp: registry_get_def [of selected] source_tools_def split: option.splits)
qed

definition demo_tool :: "string \<Rightarrow> effect \<Rightarrow> tool" where
  "demo_tool name eff = \<lparr> tl_name = name, tl_description = ''demo'', tl_parameters_schema = JObject [], tl_effect = eff,
     tl_carries_approval = (\<lambda>_. False), tl_effect_class = ReadClass, tl_sandbox_requirement = NoSandbox,
     tl_effect_request = default_effect_request name eff (\<lambda>_. None), tl_call = (\<lambda>past args. CallOk (JString ''done'')) \<rparr>"

definition demo_registry :: tool_registry where
  "demo_registry = \<lparr> tr_tools = [(''read'', demo_tool ''read'' ReadOnly)],
     tr_sources = [\<lambda>past. [demo_tool ''charge'' NonIdempotent]] \<rparr>"

theorem allowlist_is_exact_witness:
  "case restricted_to demo_registry [] [''charge''] of
     Inl _ \<Rightarrow> False
   | Inr selected \<Rightarrow> registry_get selected [] ''read'' = None \<and>
       registry_get selected [] ''charge'' = registry_get demo_registry [] ''charge'' \<and>
       registry_get demo_registry [] ''charge'' \<noteq> None"
proof -
  have ok: "registry_ok demo_registry"
    by (simp add: registry_ok_def demo_registry_def declares_validly_def resolve_placement_def demo_tool_def)
  have "\<exists>selected. restricted_to demo_registry [] [''charge''] = Ok selected"
    by (simp add: restricted_to_def demo_registry_def registry_get_def source_tools_def register_shared_def
        declares_validly_def resolve_placement_def demo_tool_def)
  then obtain selected where r: "restricted_to demo_registry [] [''charge''] = Ok selected" ..
  show ?thesis using allowlist_is_exact [OF ok r] by (simp add: r)
qed

text \<open>
  The schemas a model is shown and the tool a call reaches can differ: when two sources provide a
  tool of one name, listing keeps the last and lookup takes the first.
\<close>

lemma listing_disagrees_with_lookup:
  "let reg = \<lparr> tr_tools = [], tr_sources = [\<lambda>_. [demo_tool ''t'' ReadOnly], \<lambda>_. [demo_tool ''t'' NonIdempotent]] \<rparr>
   in map_option tl_effect (map_of (registry_all reg []) ''t'') = Some NonIdempotent \<and>
      map_option tl_effect (registry_get reg [] ''t'') = Some ReadOnly"
  by (simp add: registry_all_def registry_get_def source_tools_def bt_of_list_def bt_insert_all_def demo_tool_def)

section \<open>What stands before a tool body\<close>

text \<open>
  The specification of a legitimate run of a tool body, given the admission context and the log
  at the time: the registry offers the tool, no guard objects to the final call, anything that
  executes code, reaches the network or asks for a sandbox runs in one that enforces fully, and
  with an effect boundary in force the body runs under a permit admission granted for it.
\<close>

definition may_run ::
    "codec \<Rightarrow> tool_executor \<Rightarrow> admission_context option \<Rightarrow> execution list \<Rightarrow> execution \<Rightarrow> bool" where
  "may_run cd ex adm past x \<longleftrightarrow> (\<exists>t call j.
     tc_name call = ex_tool x \<and> tc_arguments call = ex_arguments x \<and>
     registry_get (te_registry ex) past (ex_tool x) = Some t \<and>
     fst (run_guards cd (te_guards ex) \<lparr> gc_tool = ex_tool x, gc_arguments = ex_arguments x,
       gc_effect = tl_effect t, gc_scope = te_thread_id ex \<rparr> j) = [] \<and>
     (if tl_effect_class t = ReadClass \<and> tl_sandbox_requirement t = NoSandbox then ex_placement x = InProcess
      else ex_placement x = Sandboxed \<and> (\<exists>b. te_sandbox ex = Some b \<and> sx_enforcement b = FullEnforcement)) \<and>
     (case adm of
        None \<Rightarrow> ex_permit x = None
      | Some ctx \<Rightarrow> (\<exists>request permit. tl_effect_request t cd call = Some request \<and>
          fst (admit cd request ctx) = Ok permit \<and> ex_permit x = Some permit)))"

definition uses_approval :: "string \<Rightarrow> execution \<Rightarrow> bool" where
  "uses_approval eid x \<longleftrightarrow>
     (case ex_permit x of None \<Rightarrow> False | Some p \<Rightarrow> pm_approval p \<noteq> None \<and> pm_effect_id p = eid)"

definition held_by :: "string \<Rightarrow> admission_context option \<Rightarrow> nat" where
  "held_by eid adm = (case adm of None \<Rightarrow> 0 | Some ctx \<Rightarrow> held eid ctx)"

definition adm_ok :: "admission_context option \<Rightarrow> bool" where
  "adm_ok adm \<longleftrightarrow> (case adm of None \<Rightarrow> True | Some ctx \<Rightarrow> ledger_ok ctx)"

lemma guard_stage_frame:
  assumes "guard_stage cd ex t call w = (x, w1)"
  shows "dw_executed w1 = dw_executed w" "dw_admission w1 = dw_admission w"
    "is_ok x \<Longrightarrow> \<exists>j. fst (run_guards cd (te_guards ex) \<lparr> gc_tool = tc_name call, gc_arguments = tc_arguments call,
       gc_effect = tl_effect t, gc_scope = te_thread_id ex \<rparr> j) = []"
  using assms
  by (auto simp: guard_stage_def record_into_def Let_def split: if_splits prod.splits option.splits intro: exI [of _ "dw_journal w"])

lemma place_call_fits:
  assumes "place_call ex t call = Ok backend"
  shows "if tl_effect_class t = ReadClass \<and> tl_sandbox_requirement t = NoSandbox then backend = None
    else \<exists>b. backend = Some b \<and> te_sandbox ex = Some b \<and> sx_enforcement b = FullEnforcement"
  using assms
  by (cases "tl_effect_class t"; cases "tl_sandbox_requirement t")
    (auto simp: place_call_def resolve_placement_def Let_def split: option.splits if_splits,
     (metis enforcement_level.exhaust)+)

lemma serve_shadow_ledger:
  assumes "serve_shadow r recorded v ctx = (answer, ctx')"
  shows "ledger_ok ctx' \<longleftrightarrow> ledger_ok ctx" "held eid ctx' = held eid ctx"
  using assms
  by (auto simp: serve_shadow_def Let_def ledger_ok_def held_def split: option.splits effect_violation.splits)

text \<open>How the admission context of a run may have moved on: approvals are only ever removed.\<close>

definition adm_follows :: "admission_context option \<Rightarrow> admission_context option \<Rightarrow> bool" where
  "adm_follows a b \<longleftrightarrow>
     (case (a, b) of
        (None, None) \<Rightarrow> True
      | (Some c, Some d) \<Rightarrow> ac_scope d = ac_scope c \<and> ac_compensations d = ac_compensations c \<and>
          is_shadow d = is_shadow c \<and> map_of (ac_approvals d) \<subseteq>\<^sub>m map_of (ac_approvals c)
      | _ \<Rightarrow> False)"

lemma adm_follows_refl [simp]: "adm_follows a a"
  by (cases a) (simp_all add: adm_follows_def)

lemma adm_follows_trans: "adm_follows a b \<Longrightarrow> adm_follows b c \<Longrightarrow> adm_follows a c"
  by (auto simp: adm_follows_def split: option.splits intro: map_le_trans)

lemma admit_follows:
  assumes "admit cd r ctx = (x, ctx')" "ledger_ok ctx"
  shows "adm_follows (Some ctx) (Some ctx')"
  using assms(1)
proof (cases rule: admit_outcome)
  case (spends t p)
  then have "map_of (ac_approvals ctx') = (map_of (ac_approvals ctx)) (request_id cd (ac_scope ctx) r := None)"
    using assms(2) by (simp add: map_of_bt_remove ledger_ok_def)
  then show ?thesis using spends by (auto simp: adm_follows_def is_shadow_def map_le_def)
qed simp

lemma serve_shadow_follows:
  "serve_shadow r recorded v ctx = (answer, ctx') \<Longrightarrow> adm_follows (Some ctx) (Some ctx')"
  by (auto simp: serve_shadow_def Let_def adm_follows_def is_shadow_def split: option.splits effect_violation.splits)

text \<open>Where the admission stage can lead.\<close>

lemma admit_stage_cases:
  assumes "admit_stage cd t call w = (x, w2)"
  obtains (unbounded) "dw_admission w = None" "x = Ok (Admitted None)" "w2 = w"
  | (refused) "\<And>p. x \<noteq> Ok (Admitted p)" "dw_executed w2 = dw_executed w"
      "\<And>eid. adm_ok (dw_admission w) \<Longrightarrow> adm_ok (dw_admission w2) \<and> adm_follows (dw_admission w) (dw_admission w2) \<and>
         held_by eid (dw_admission w2) \<le> held_by eid (dw_admission w)"
  | (granted) ctx request permit ctx1 where "dw_admission w = Some ctx" "tl_effect_request t cd call = Some request"
      "admit cd request ctx = (Ok permit, ctx1)" "x = Ok (Admitted (Some permit))" "w2 = w \<lparr> dw_admission := Some ctx1 \<rparr>"
proof (cases "dw_admission w")
  case None
  then show thesis using assms by (intro unbounded) (auto simp: admit_stage_def)
next
  case (Some ctx)
  show thesis
  proof (cases "tl_effect_request t cd call")
    case None
    then show thesis using assms Some by (intro refused) (auto simp: admit_stage_def)
  next
    case (Some request)
    obtain y ctx1 where a: "admit cd request ctx = (y, ctx1)" by (metis surj_pair)
    show thesis
    proof (cases y)
      case (Inr permit)
      then show thesis using assms a Some \<open>dw_admission w = Some ctx\<close>
        by (intro granted [of ctx request permit ctx1]) (auto simp: admit_stage_def)
    next
      case (Inl v)
      obtain answer ctx2 where s: "serve_shadow request (tool_call_request call) v ctx1 = (answer, ctx2)"
        by (metis surj_pair)
      have "ledger_ok ctx \<Longrightarrow> ledger_ok ctx2 \<and> adm_follows (Some ctx) (Some ctx2) \<and> held eid ctx2 \<le> held eid ctx" for eid
        using admit_step [OF a, of eid] serve_shadow_ledger [OF s] adm_follows_trans [OF admit_follows [OF a] serve_shadow_follows [OF s]]
        by auto
      then show thesis using assms a s Inl Some \<open>dw_admission w = Some ctx\<close>
        by (intro refused) (auto simp: admit_stage_def held_by_def adm_ok_def split: option.splits)
    qed
  qed
qed

lemma invoke_logs:
  assumes "invoke cd env ex backend permit t call w = (r, w')"
  shows "dw_admission w' = dw_admission w"
    "dw_executed w' = dw_executed w \<or>
     dw_executed w' = dw_executed w @ [\<lparr> ex_placement = (if backend = None then InProcess else Sandboxed),
       ex_tool = tc_name call, ex_arguments = tc_arguments call, ex_permit = permit \<rparr>]"
  using assms
  by (auto simp: invoke_def call_in_process_def call_sandboxed_def log_execution_def record_into_def read_clock_def Let_def
      split: option.splits prod.splits)

section \<open>One call, through the middleware\<close>

text \<open>One step of a run of the executor: at most one body runs, legitimately, and approvals add up.\<close>

definition step_ok :: "codec \<Rightarrow> tool_executor \<Rightarrow> dispatch_world \<Rightarrow> dispatch_world \<Rightarrow> bool" where
  "step_ok cd ex w w' \<longleftrightarrow> adm_ok (dw_admission w') \<and> adm_follows (dw_admission w) (dw_admission w') \<and>
     (\<exists>xs. dw_executed w' = dw_executed w @ xs \<and> length xs \<le> 1 \<and>
       (\<forall>x \<in> set xs. may_run cd ex (dw_admission w) (dw_executed w) x) \<and>
       (\<forall>eid. length (filter (uses_approval eid) xs) + held_by eid (dw_admission w') \<le> held_by eid (dw_admission w)))"

lemma step_ok_quiet:
  "adm_ok (dw_admission w') \<Longrightarrow> adm_follows (dw_admission w) (dw_admission w') \<Longrightarrow> dw_executed w' = dw_executed w \<Longrightarrow>
   (\<And>eid. held_by eid (dw_admission w') \<le> held_by eid (dw_admission w)) \<Longrightarrow> step_ok cd ex w w'"
  by (auto simp: step_ok_def intro!: exI [of _ "[]"])

definition entry :: "sandbox option \<Rightarrow> effect_permit option \<Rightarrow> tool_call \<Rightarrow> execution" where
  "entry backend permit call = \<lparr> ex_placement = (if backend = None then InProcess else Sandboxed),
     ex_tool = tc_name call, ex_arguments = tc_arguments call, ex_permit = permit \<rparr>"

lemma step_ok_invoke:
  assumes inv: "invoke cd env ex backend permit t call w2 = (r, w')"
    and w2: "dw_executed w2 = dw_executed w" "adm_ok (dw_admission w2)" "adm_follows (dw_admission w) (dw_admission w2)"
    and legit: "may_run cd ex (dw_admission w) (dw_executed w) (entry backend permit call)"
    and spent: "\<And>eid. (if uses_approval eid (entry backend permit call) then 1 else 0) +
      held_by eid (dw_admission w2) \<le> held_by eid (dw_admission w)"
  shows "step_ok cd ex w w'"
proof -
  note logs = invoke_logs [OF inv]
  from logs(2) consider "dw_executed w' = dw_executed w" | "dw_executed w' = dw_executed w @ [entry backend permit call]"
    using w2(1) by (auto simp: entry_def)
  then show ?thesis
  proof cases
    case 1
    have "held_by eid (dw_admission w') \<le> held_by eid (dw_admission w)" for eid
      using spent [of eid] logs(1) by simp
    then show ?thesis using 1 w2 logs(1) by (intro step_ok_quiet) simp_all
  next
    case 2
    have "length (filter (uses_approval eid) [entry backend permit call]) + held_by eid (dw_admission w')
        \<le> held_by eid (dw_admission w)" for eid
      using spent [of eid] logs(1) by (simp split: if_splits)
    then show ?thesis unfolding step_ok_def
      using 2 w2 logs(1) legit by (intro conjI exI [of _ "[entry backend permit call]"]) simp_all
  qed
qed

lemma dispatch_step:
  assumes "dispatch_tool cd env ex call w = (r, w')" "adm_ok (dw_admission w)"
  shows "step_ok cd ex w w'"
proof (cases "registry_get (te_registry ex) (dw_executed w) (tc_name call)")
  case None
  then show ?thesis using assms by (intro step_ok_quiet) (auto simp: dispatch_tool_def)
next
  case (Some t)
  obtain g w1 where g: "guard_stage cd ex t call w = (g, w1)" by (metis surj_pair)
  note frame = guard_stage_frame [OF g]
  consider (stopped) "w' = w1" | (placed) backend where "is_ok g" "place_call ex t call = Ok backend"
    using assms(1) Some g by (cases g; cases "place_call ex t call") (auto simp: dispatch_tool_def)
  then show ?thesis
  proof cases
    case stopped
    then show ?thesis using assms frame by (intro step_ok_quiet) auto
  next
    case placed
    obtain x w2 where a: "admit_stage cd t call w1 = (x, w2)" by (metis surj_pair)
    have rest: "(case x of Inl stop \<Rightarrow> (Err stop, w2) | Inr (Recorded v) \<Rightarrow> (Ok v, w2)
        | Inr (Admitted permit) \<Rightarrow> invoke cd env ex backend permit t call w2) = (r, w')"
      using assms(1) Some g placed a by (cases g) (auto simp: dispatch_tool_def split: sum.splits)
    have legit: "may_run cd ex (dw_admission w) (dw_executed w) (entry backend permit call)"
      if "case dw_admission w of None \<Rightarrow> permit = None
        | Some ctx \<Rightarrow> \<exists>request p. tl_effect_request t cd call = Some request \<and> fst (admit cd request ctx) = Ok p \<and> permit = Some p"
      for permit
      using Some frame(3) [OF placed(1)] place_call_fits [OF placed(2)] that
      by (auto simp: may_run_def entry_def split: if_splits option.splits intro!: exI [of _ t] exI [of _ call])
    show ?thesis
      using a
    proof (cases rule: admit_stage_cases)
      case unbounded
      have "\<not> uses_approval eid (entry backend None call)" for eid
        by (simp add: uses_approval_def entry_def)
      then show ?thesis using rest unbounded frame assms(2) legit [of None]
        by (intro step_ok_invoke [of cd env ex backend None t call w2 r]) auto
    next
      case refused
      then have "w' = w2" using rest by (auto split: sum.splits admission_answer.splits)
      then show ?thesis using refused frame assms(2) by (intro step_ok_quiet) auto
    next
      case (granted ctx request permit ctx1)
      have "ledger_ok ctx" using granted(1) assms(2) frame by (simp add: adm_ok_def)
      then have step: "ledger_ok ctx1 \<and> spent eid (Inr permit) + held eid ctx1 = held eid ctx" for eid
        by (rule admit_step [OF granted(3)])
      have "(if uses_approval eid (entry backend (Some permit) call) then 1 else 0) + held eid ctx1 \<le> held eid ctx" for eid
        using step [of eid] by (simp add: uses_approval_def entry_def spent_def)
      then show ?thesis
        using rest granted frame step admit_follows [OF granted(3) \<open>ledger_ok ctx\<close>] legit [of "Some permit"]
        by (intro step_ok_invoke [of cd env ex backend "Some permit" t call w2 r])
          (auto simp: adm_ok_def held_by_def)
    qed
  qed
qed

text \<open>
  A chain whose hooks keep a view \<open>v\<close> of the world runs the operation at most once, on a world
  with the same view, and nothing else touches what the view shows.
\<close>

lemma nested_runs_once:
  assumes "\<And>l c s. v (snd (snd (before l c s))) = v s" "\<And>l c r s. v (snd (snd (after l c r s))) = v s"
    "nested before after err ls op c s = (x, s')"
  shows "v s' = v s \<or> (\<exists>c1 s1 y s2. v s1 = v s \<and> op c1 s1 = (y, s2) \<and> v s' = v s2)"
  using assms(3)
proof (induction ls arbitrary: c s x s')
  case Nil
  then show ?case by (cases "op c s") (auto split: sum.splits)
next
  case (Cons l ls)
  obtain c1 d s1 where b: "before l c s = (c1, d, s1)" by (metis surj_pair)
  then have s1: "v s1 = v s" using assms(1) [of l c s] by simp
  show ?case
  proof (cases d)
    case Continue
    obtain y s2 where n: "nested before after err ls op c1 s1 = (y, s2)" by (metis surj_pair)
    have "v s' = v s2"
    proof (cases y)
      case (Inr z)
      obtain r sealed final where z: "z = (r, sealed, final)" by (metis surj_pair)
      obtain r' e t where a: "after l final r s2 = (r', e, t)" by (metis surj_pair)
      then have "v t = v s2" using assms(2) [of l final r s2] by simp
      then show ?thesis using Cons.prems b Continue n Inr z a
        by (cases sealed; cases e) auto
    qed (use Cons.prems b Continue n in auto)
    then show ?thesis using Cons.IH [OF n] s1 by auto
  qed (use Cons.prems b s1 in auto)
qed

lemma execute_one_step:
  assumes "execute_one cd env ex call w = (r, w')" "adm_ok (dw_admission w)"
  shows "step_ok cd ex w w'"
proof (cases "te_middleware ex = []")
  case True
  then obtain x where "dispatch_tool cd env ex call w = (x, w')"
    using assms(1) by (auto simp: execute_one_def contain_panic_def split: prod.splits sum.splits tool_stop.splits)
  then show ?thesis using dispatch_step assms(2) by blast
next
  case False
  let ?v = "\<lambda>w. (dw_admission w, dw_executed w)"
  let ?before = "\<lambda>m c w. let (c', d, j) = mw_before_tool m c (dw_journal w) in (c', d, w \<lparr> dw_journal := j \<rparr>)"
  let ?after = "\<lambda>m c r w. let (r', d, j) = mw_after_tool m c r (dw_journal w) in (r', d, w \<lparr> dw_journal := j \<rparr>)"
  obtain inv x where n: "nested ?before ?after (Failed \<circ> into_error) (te_middleware ex)
      (\<lambda>inv. dispatch_tool cd env ex (ti_call inv)) inv w = (x, w')"
    using assms(1) False
    by (auto simp: execute_one_def contain_panic_def run_tool_def run_onion_nested outcome_def
        split: prod.splits sum.splits tool_stop.splits)
  have "?v w' = ?v w \<or> (\<exists>(c1 :: tool_invocation) s1 y s2. ?v s1 = ?v w \<and> dispatch_tool cd env ex (ti_call c1) s1 = (y, s2) \<and> ?v w' = ?v s2)"
    by (rule nested_runs_once [where v = ?v, OF _ _ n]) (auto split: prod.splits)
  then show ?thesis
  proof
    assume "?v w' = ?v w"
    then show ?thesis using assms(2) by (intro step_ok_quiet) auto
  next
    assume "\<exists>(c1 :: tool_invocation) s1 y s2. ?v s1 = ?v w \<and> dispatch_tool cd env ex (ti_call c1) s1 = (y, s2) \<and> ?v w' = ?v s2"
    then obtain c1 :: tool_invocation and s1 y s2 where "?v s1 = ?v w" "dispatch_tool cd env ex (ti_call c1) s1 = (y, s2)" "?v w' = ?v s2"
      by blast
    then show ?thesis using dispatch_step [of cd env ex "ti_call c1" s1 y s2] assms(2) by (simp add: step_ok_def)
  qed
qed

section \<open>Batches\<close>

text \<open>A log in which every entry was legitimate when it was made.\<close>

definition log_ok :: "codec \<Rightarrow> tool_executor \<Rightarrow> admission_context option \<Rightarrow> execution list \<Rightarrow> execution list \<Rightarrow> bool" where
  "log_ok cd ex adm0 past xs \<longleftrightarrow>
     (\<forall>k < length xs. \<exists>adm. adm_follows adm0 adm \<and> may_run cd ex adm (past @ take k xs) (xs ! k))"

lemma log_ok_Nil [simp]: "log_ok cd ex adm0 past []"
  by (simp add: log_ok_def)

lemma log_ok_append:
  assumes "log_ok cd ex a past xs" "adm_follows a b" "log_ok cd ex b (past @ xs) ys"
  shows "log_ok cd ex a past (xs @ ys)"
  unfolding log_ok_def
proof (intro allI impI)
  fix k
  assume "k < length (xs @ ys)"
  show "\<exists>adm. adm_follows a adm \<and> may_run cd ex adm (past @ take k (xs @ ys)) ((xs @ ys) ! k)"
  proof (cases "k < length xs")
    case True
    then show ?thesis using assms(1) by (auto simp: log_ok_def nth_append)
  next
    case False
    then obtain adm where "adm_follows b adm" "may_run cd ex adm ((past @ xs) @ take (k - length xs) ys) (ys ! (k - length xs))"
      using assms(3) \<open>k < length (xs @ ys)\<close> unfolding log_ok_def
      by (metis add_diff_inverse_nat length_append nat_add_left_cancel_less)
    then show ?thesis using False adm_follows_trans [OF assms(2)] by (auto simp: nth_append)
  qed
qed

lemma log_ok_step: "step_ok cd ex w w' \<Longrightarrow> \<exists>xs. dw_executed w' = dw_executed w @ xs \<and> length xs \<le> 1 \<and>
    log_ok cd ex (dw_admission w) (dw_executed w) xs \<and>
    (\<forall>eid. length (filter (uses_approval eid) xs) + held_by eid (dw_admission w') \<le> held_by eid (dw_admission w))"
  unfolding step_ok_def log_ok_def by (metis (no_types, lifting) One_nat_def adm_follows_refl append.right_neutral less_one
      less_le_trans list.size(3) nth_mem take0)

lemma execute_in_order_log:
  assumes "execute_in_order cd env ex cs w = (rs, w')" "adm_ok (dw_admission w)"
  shows "\<exists>xs. dw_executed w' = dw_executed w @ xs \<and> length xs \<le> length cs \<and>
    log_ok cd ex (dw_admission w) (dw_executed w) xs \<and>
    (\<forall>eid. length (filter (uses_approval eid) xs) + held_by eid (dw_admission w') \<le> held_by eid (dw_admission w))"
  using assms
proof (induction cs arbitrary: w rs)
  case (Cons c cs)
  obtain r w1 where one: "execute_one cd env ex (snd c) w = (r, w1)" by (metis surj_pair)
  obtain rs' where rest: "execute_in_order cd env ex cs w1 = (rs', w')"
    using Cons.prems(1) one by (cases c) (auto split: prod.splits)
  have ok: "step_ok cd ex w w1" by (rule execute_one_step [OF one Cons.prems(2)])
  obtain xs where xs: "dw_executed w1 = dw_executed w @ xs" "length xs \<le> 1" "log_ok cd ex (dw_admission w) (dw_executed w) xs"
      "\<And>eid. length (filter (uses_approval eid) xs) + held_by eid (dw_admission w1) \<le> held_by eid (dw_admission w)"
    using log_ok_step [OF ok] by blast
  have "adm_ok (dw_admission w1)" and follows: "adm_follows (dw_admission w) (dw_admission w1)"
    using ok by (simp_all add: step_ok_def)
  then obtain ys where ys: "dw_executed w' = dw_executed w1 @ ys" "length ys \<le> length cs"
      "log_ok cd ex (dw_admission w1) (dw_executed w1) ys"
      "\<And>eid. length (filter (uses_approval eid) ys) + held_by eid (dw_admission w') \<le> held_by eid (dw_admission w1)"
    using Cons.IH [OF rest] by blast
  have "log_ok cd ex (dw_admission w) (dw_executed w) (xs @ ys)"
    using log_ok_append [OF xs(3) follows] ys(3) xs(1) by simp
  moreover have "length (filter (uses_approval eid) (xs @ ys)) + held_by eid (dw_admission w') \<le> held_by eid (dw_admission w)" for eid
    using xs(4) [of eid] ys(4) [of eid] by simp
  ultimately show ?case using xs(1,2) ys(1,2) by (intro exI [of _ "xs @ ys"]) simp
qed simp

text \<open>
  C19: a batch of tool calls runs nothing that was not admitted.  Whatever the middleware, the
  tools, the guards and the schedule do, the bodies a batch runs are at most one per call; each
  ran when the registry offered it, no guard objected to the final call, its placement was the
  one it declares, in a fully enforcing sandbox where it needs one, and the effect boundary
  granted the permit it ran under.  For every effect id, the bodies that ran on an approval of it
  and the approval still held at the end are no more than the approval held at the start.
\<close>

theorem batch_runs_only_admitted:
  assumes "adm_ok (dw_admission w)"
  shows "\<exists>xs. dw_executed (snd (execute_batch cd env show_value rank ex calls w)) = dw_executed w @ xs \<and>
    length xs \<le> length calls \<and> log_ok cd ex (dw_admission w) (dw_executed w) xs \<and>
    (\<forall>eid. length (filter (uses_approval eid) xs) +
        held_by eid (dw_admission (snd (execute_batch cd env show_value rank ex calls w))) \<le> held_by eid (dw_admission w))"
proof -
  obtain rs w' where e: "execute_in_order cd env ex (sort_key (rank \<circ> fst) (enumerate 0 calls)) w = (rs, w')"
    by (metis surj_pair)
  then have "snd (execute_batch cd env show_value rank ex calls w) = w'"
    by (simp add: execute_batch_def)
  then show ?thesis using execute_in_order_log [OF e assms] by simp
qed

definition dispatch_codec :: codec where
  "dispatch_codec = demo_codec \<lparr> ser_value := (\<lambda>v. Some ''v'') \<rparr>"

definition demo_tool_env :: tool_env where
  "demo_tool_env = \<lparr> tv_error_text = (\<lambda>_. ''refused''), tv_started = (\<lambda>_. 0), tv_finished = (\<lambda>_. 0) \<rparr>"

definition charge_call :: tool_call where
  "charge_call = \<lparr> tc_id = ''c1'', tc_name = ''charge'', tc_arguments = JObject [] \<rparr>"

definition charge_id :: string where
  "charge_id = (case tl_effect_request (demo_tool ''charge'' NonIdempotent) dispatch_codec charge_call of
     None \<Rightarrow> [] | Some r \<Rightarrow> request_id dispatch_codec ''run'' r)"

definition demo_dispatch_world :: dispatch_world where
  "demo_dispatch_world = \<lparr> dw_journal = demo_journal,
     dw_admission = Some (with_approvals [\<lparr> tok_effect_id = charge_id, tok_approved_by = ''ops'' \<rparr>] (context_new ''run'')),
     dw_executed = [] \<rparr>"

text \<open>The same irreversible call twice on one approval: it runs once.\<close>

theorem batch_runs_only_admitted_witness:
  "let (msgs, w') = execute_batch dispatch_codec demo_tool_env (\<lambda>_. ''done'') id (executor_new demo_registry)
         [charge_call, charge_call] demo_dispatch_world
   in map cm_content msgs = [Some ''done'', Some ''ERROR: refused''] \<and>
      length (filter (uses_approval charge_id) (dw_executed w')) \<le> 1"
proof -
  let ?b = "execute_batch dispatch_codec demo_tool_env (\<lambda>_. ''done'') id (executor_new demo_registry)
      [charge_call, charge_call] demo_dispatch_world"
  have msgs: "map cm_content (fst ?b) = [Some ''done'', Some ''ERROR: refused'']" by code_simp
  have "adm_ok (dw_admission demo_dispatch_world)"
    using with_approvals_ledger by (simp add: adm_ok_def demo_dispatch_world_def)
  from batch_runs_only_admitted [OF this, where cd = dispatch_codec and env = demo_tool_env and show_value = "\<lambda>_. ''done''"
      and rank = id and ex = "executor_new demo_registry" and calls = "[charge_call, charge_call]"]
  obtain xs where "dw_executed (snd ?b) = dw_executed demo_dispatch_world @ xs"
    "length (filter (uses_approval charge_id) xs) \<le> held_by charge_id (dw_admission demo_dispatch_world)"
    by (meson add_leD1)
  moreover have "held_by charge_id (dw_admission demo_dispatch_world) \<le> 1"
    by (simp add: held_by_def demo_dispatch_world_def held_def)
  ultimately have "length (filter (uses_approval charge_id) (dw_executed (snd ?b))) \<le> 1"
    by (simp add: demo_dispatch_world_def)
  then show ?thesis using msgs by (simp add: case_prod_beta)
qed

lemma execute_in_order_results:
  "execute_in_order cd env ex cs w = (rs, w') \<Longrightarrow>
   list_all2 (\<lambda>(i, call) (k, r). k = i \<and> (\<exists>w1 w2. execute_one cd env ex call w1 = (r, w2))) cs rs"
proof (induction cs arbitrary: w rs)
  case (Cons c cs)
  obtain r w1 where one: "execute_one cd env ex (snd c) w = (r, w1)" by (metis surj_pair)
  obtain rs' where "execute_in_order cd env ex cs w1 = (rs', w')" "rs = (fst c, r) # rs'"
    using Cons.prems one by (cases c) (auto split: prod.splits)
  then show ?case using Cons.IH [of w1 rs'] one by (cases c) auto
qed simp

lemma execute_in_order_indices: "execute_in_order cd env ex cs w = (rs, w') \<Longrightarrow> map fst rs = map fst cs"
  by (induction cs arbitrary: w rs) (auto split: prod.splits)

lemma sorted_by_index:
  assumes "mset (map fst rs) = mset [0..<n]"
  shows "map fst (sort_key fst rs) = [0..<n]"
proof -
  have "sorted (map fst (sort_key fst rs))" by simp
  moreover have "mset (map fst (sort_key fst rs)) = mset [0..<n]"
    using assms by simp
  ultimately show ?thesis
    by (metis properties_for_sort sorted_upt)
qed

text \<open>
  C20: a batch answers each of its calls, in call order.  Whatever order the concurrent calls are
  dispatched in and however they fail or panic, the batch returns one tool message per call, the
  i-th carrying the id of the i-th call and the result or the error of its own dispatch.
\<close>

theorem batch_answers_in_order:
  "list_all2 (\<lambda>call m. cm_role m = ToolRole \<and> cm_tool_call_id m = Some (tc_id call) \<and>
      (\<exists>r w1 w2. execute_one cd env ex call w1 = (r, w2) \<and> m = result_message env show_value call r))
    calls (fst (execute_batch cd env show_value rank ex calls w))"
proof -
  let ?cs = "sort_key (rank \<circ> fst) (enumerate 0 calls)"
  obtain rs w' where e: "execute_in_order cd env ex ?cs w = (rs, w')" by (metis surj_pair)
  note all = execute_in_order_results [OF e]
  have "mset (map fst rs) = mset [0..<length calls]"
  proof -
    have "mset (map fst rs) = image_mset fst (mset (enumerate 0 calls))"
      unfolding execute_in_order_indices [OF e] by simp
    then show ?thesis by (simp only: mset_map [symmetric] map_fst_enumerate add_0)
  qed
  then have idx: "map fst (sort_key fst rs) = [0..<length calls]" by (rule sorted_by_index)
  then have len: "length (sort_key fst rs) = length calls" by (metis diff_zero length_map length_upt)
  have "\<exists>w1 w2. execute_one cd env ex (calls ! i) w1 = (snd (sort_key fst rs ! i), w2)" if "i < length calls" for i
  proof -
    have "sort_key fst rs ! i \<in> set rs" using that len by (metis nth_mem set_sort)
    moreover have fst_i: "fst (sort_key fst rs ! i) = i"
      using idx that len by (metis add_0 diff_zero nth_map nth_upt)
    ultimately obtain k where k: "k < length rs" "rs ! k = sort_key fst rs ! i" by (metis in_set_conv_nth)
    have "?cs ! k \<in> set (enumerate 0 calls)"
      using list_all2_lengthD [OF all] k(1) by (metis nth_mem set_sort)
    then show ?thesis
      using list_all2_nthD2 [OF all k(1)] k(2) fst_i
      by (auto simp: in_set_enumerate_eq split: prod.splits)
  qed
  then show ?thesis
    using e len by (auto simp: execute_batch_def list_all2_conv_all_nth result_message_def tool_result_def) blast
qed

end
