(* ===== verification/Run_Inbox.thy ===== *)
theory Run_Inbox
  imports Run_Journal
begin

text \<open>
  The durable per-run inbox (inbox.rs): steering, follow-up and staged queues, a buffer of
  sends that have not settled yet, a latched cancellation, and the replay mode that re-delivers
  the mutations a recorded journal attests.

  The inbox is shared and mutable; an operation takes the inbox and returns it updated.  The
  JSON form of the messages and of the cancellation record is the one serde derives from the
  struct definitions.  Sequence numbers are natural numbers; the \<open>u64\<close> counter does not wrap
  before the queue bounds stop a run.
\<close>

section \<open>Messages\<close>

datatype inbox_target = NextStep | NextTurn
datatype inbox_kind = Steering | FollowUp | Injected
datatype cancel_cause = CauseUser | CauseParent | CauseHook | CauseDisposed

record inbox_message =
  im_seq :: nat
  im_kind :: inbox_kind
  im_sender :: string
  im_content :: json

datatype consumption_point = StepBoundary | TurnStart | TurnExtension

record dropped_messages =
  dr_steering :: nat
  dr_followups :: nat
  dr_staged :: nat
  dr_pending :: nat

record run_cancellation =
  rc_cause :: cancel_cause
  rc_keep_inbox :: bool
  rc_dropped :: dropped_messages

record inbox_snapshot =
  is_steering :: "inbox_message list"
  is_followups :: "inbox_message list"
  is_staged :: "inbox_message list"
  is_next_seq :: nat
  is_pending_delivery :: "inbox_message list"

record inbox_bounds =
  max_pending :: nat
  max_steering :: nat
  max_followups :: nat
  max_staged :: nat

definition default_bounds :: inbox_bounds where
  "default_bounds = \<lparr> max_pending = 1024, max_steering = 256, max_followups = 256, max_staged = 256 \<rparr>"

definition DEFAULT_SENDER :: string where
  "DEFAULT_SENDER = ''user''"

subsection \<open>JSON form\<close>

fun kind_str :: "inbox_kind \<Rightarrow> string" where
  "kind_str Steering = ''steering''"
| "kind_str FollowUp = ''follow_up''"
| "kind_str Injected = ''injected''"

definition kind_of_str :: "string \<Rightarrow> inbox_kind option" where
  "kind_of_str s = (if s = ''steering'' then Some Steering else if s = ''follow_up'' then Some FollowUp
     else if s = ''injected'' then Some Injected else None)"

fun cause_str :: "cancel_cause \<Rightarrow> string" where
  "cause_str CauseUser = ''user''"
| "cause_str CauseParent = ''parent''"
| "cause_str CauseHook = ''hook''"
| "cause_str CauseDisposed = ''disposed''"

definition cause_of_str :: "string \<Rightarrow> cancel_cause option" where
  "cause_of_str s = (if s = ''user'' then Some CauseUser else if s = ''parent'' then Some CauseParent
     else if s = ''hook'' then Some CauseHook else if s = ''disposed'' then Some CauseDisposed else None)"

definition json_nat :: "nat \<Rightarrow> json" where
  "json_nat n = JNumber (PosInt n)"

fun as_nat :: "json \<Rightarrow> nat option" where
  "as_nat (JNumber (PosInt n)) = Some n"
| "as_nat _ = None"

fun as_bool :: "json \<Rightarrow> bool option" where
  "as_bool (JBool b) = Some b"
| "as_bool _ = None"

definition message_to_value :: "inbox_message \<Rightarrow> json" where
  "message_to_value m = JObject [(''content'', im_content m), (''kind'', JString (kind_str (im_kind m))),
     (''sender'', JString (im_sender m)), (''seq'', json_nat (im_seq m))]"

definition message_from_value :: "json \<Rightarrow> inbox_message option" where
  "message_from_value v =
     Option.bind (Option.bind (json_get v ''seq'') as_nat) (\<lambda>sq.
     Option.bind (Option.bind (Option.bind (json_get v ''kind'') as_str) kind_of_str) (\<lambda>k.
     Option.bind (Option.bind (json_get v ''sender'') as_str) (\<lambda>sender.
     Option.bind (json_get v ''content'') (\<lambda>content.
     Some \<lparr> im_seq = sq, im_kind = k, im_sender = sender, im_content = content \<rparr>))))"

definition cancellation_to_value :: "run_cancellation \<Rightarrow> json" where
  "cancellation_to_value c = JObject [(''cause'', JString (cause_str (rc_cause c))),
     (''dropped'', JObject [(''followups'', json_nat (dr_followups (rc_dropped c))),
        (''pending'', json_nat (dr_pending (rc_dropped c))),
        (''staged'', json_nat (dr_staged (rc_dropped c))),
        (''steering'', json_nat (dr_steering (rc_dropped c)))]),
     (''keep_inbox'', JBool (rc_keep_inbox c))]"

definition dropped_from_value :: "json \<Rightarrow> dropped_messages option" where
  "dropped_from_value v =
     Option.bind (Option.bind (json_get v ''steering'') as_nat) (\<lambda>a.
     Option.bind (Option.bind (json_get v ''followups'') as_nat) (\<lambda>b.
     Option.bind (Option.bind (json_get v ''staged'') as_nat) (\<lambda>c.
     Option.bind (Option.bind (json_get v ''pending'') as_nat) (\<lambda>d.
     Some \<lparr> dr_steering = a, dr_followups = b, dr_staged = c, dr_pending = d \<rparr>))))"

definition cancellation_from_value :: "json \<Rightarrow> run_cancellation option" where
  "cancellation_from_value v =
     Option.bind (Option.bind (Option.bind (json_get v ''cause'') as_str) cause_of_str) (\<lambda>cause.
     Option.bind (Option.bind (json_get v ''keep_inbox'') as_bool) (\<lambda>keep.
     Option.bind (Option.bind (json_get v ''dropped'') dropped_from_value) (\<lambda>dropped.
     Some \<lparr> rc_cause = cause, rc_keep_inbox = keep, rc_dropped = dropped \<rparr>)))"

fun point_str :: "consumption_point \<Rightarrow> string" where
  "point_str StepBoundary = ''step_boundary''"
| "point_str TurnStart = ''turn_start''"
| "point_str TurnExtension = ''turn_extension''"

definition consumption_to_value :: "consumption_point \<Rightarrow> nat \<Rightarrow> inbox_message list \<Rightarrow> json" where
  "consumption_to_value point st messages = JObject [(''messages'', JArray (map message_to_value messages)),
     (''point'', JString (point_str point)), (''step'', json_nat st)]"

lemma message_roundtrip [simp]: "message_from_value (message_to_value m) = Some m"
  by (cases "im_kind m")
     (simp_all add: message_from_value_def message_to_value_def json_nat_def kind_of_str_def)

lemma cancellation_roundtrip [simp]: "cancellation_from_value (cancellation_to_value c) = Some c"
  by (cases "rc_cause c")
     (simp_all add: cancellation_from_value_def cancellation_to_value_def dropped_from_value_def
        json_nat_def cause_of_str_def)

section \<open>The inbox\<close>

datatype scheduled_point = PointIntake nat inbox_message | PointCancel nat cancel_cause bool

datatype intake_source = Live | Replaying "scheduled_point list"

record inbox =
  ib_pending :: "inbox_message list"
  ib_steering :: "inbox_message list"
  ib_followups :: "inbox_message list"
  ib_staged :: "inbox_message list"
  ib_next_seq :: nat
  ib_cancel :: "(cancel_cause \<times> bool) option"
  ib_source :: intake_source
  ib_bounds :: inbox_bounds

definition inbox_with_bounds :: "inbox_bounds \<Rightarrow> inbox" where
  "inbox_with_bounds bounds = \<lparr> ib_pending = [], ib_steering = [], ib_followups = [], ib_staged = [],
     ib_next_seq = 0, ib_cancel = None, ib_source = Live, ib_bounds = bounds \<rparr>"

definition inbox_new :: inbox where
  "inbox_new = inbox_with_bounds default_bounds"

definition resolve_payload :: "journal_snapshot \<Rightarrow> payload_ref \<Rightarrow> json option" where
  "resolve_payload snap payload =
     (case payload of
        Inline value \<Rightarrow> Some value
      | Artifact reference \<Rightarrow> map_of (js_artifacts snap) (ref_sha256 reference))"

fun replay_points ::
  "journal_snapshot \<Rightarrow> run_event list \<Rightarrow> scheduled_point list \<Rightarrow> rusty_error + scheduled_point list" where
  "replay_points snap [] points = Ok points"
| "replay_points snap (event # es) points =
     (if ev_kind event = KInboxIntake then
        (case Option.bind (ev_output event) (resolve_payload snap) of
           None \<Rightarrow> Err (Replay (IntakeUnresolvable (ev_id event)))
         | Some value \<Rightarrow>
             (case message_from_value value of
                None \<Rightarrow> Err (Replay (IntakeMalformed (ev_id event)))
              | Some message \<Rightarrow> replay_points snap es (points @ [PointIntake (ev_seq event) message])))
      else if ev_kind event = KRunCancelled then
        (case Option.bind (ev_output event) (resolve_payload snap) of
           None \<Rightarrow> Err (Replay (CancelUnresolvable (ev_id event)))
         | Some value \<Rightarrow>
             (case cancellation_from_value value of
                None \<Rightarrow> Err (Replay (CancelMalformed (ev_id event)))
              | Some c \<Rightarrow>
                  replay_points snap es (points @ [PointCancel (ev_seq event) (rc_cause c) (rc_keep_inbox c)])))
      else replay_points snap es points)"

definition inbox_replaying :: "journal_snapshot \<Rightarrow> rusty_error + inbox" where
  "inbox_replaying snap =
     rbind (replay_points snap (js_events snap) []) (\<lambda>points. Ok (inbox_new \<lparr> ib_source := Replaying points \<rparr>))"

fun kind_of_send :: "inbox_target \<Rightarrow> bool \<Rightarrow> inbox_kind" where
  "kind_of_send NextStep True = Steering"
| "kind_of_send NextStep False = Injected"
| "kind_of_send NextTurn _ = FollowUp"

fun queue_of :: "inbox_kind \<Rightarrow> inbox \<Rightarrow> inbox_message list" where
  "queue_of Steering ib = ib_steering ib"
| "queue_of FollowUp ib = ib_followups ib"
| "queue_of Injected ib = ib_staged ib"

fun bound_of :: "inbox_kind \<Rightarrow> inbox_bounds \<Rightarrow> nat" where
  "bound_of Steering b = max_steering b"
| "bound_of FollowUp b = max_followups b"
| "bound_of Injected b = max_staged b"

definition inbox_send ::
  "string \<Rightarrow> inbox_target \<Rightarrow> bool \<Rightarrow> json \<Rightarrow> inbox \<Rightarrow> (rusty_error + nat) \<times> inbox" where
  "inbox_send sender target wakeup content ib =
     (let kind = kind_of_send target wakeup in
      case ib_source ib of
        Replaying _ \<Rightarrow> (Err (Replay ReplayingInboxSend), ib)
      | Live \<Rightarrow>
          let occupied = length (filter (\<lambda>m. im_kind m = kind) (ib_pending ib)) + length (queue_of kind ib);
              bound = bound_of kind (ib_bounds ib)
          in if bound \<le> occupied then (Err (Graph (InboxQueueFull bound)), ib)
             else if max_pending (ib_bounds ib) \<le> length (ib_pending ib)
             then (Err (Graph (InboxPendingFull (length (ib_pending ib)) (max_pending (ib_bounds ib)))), ib)
             else (Ok (ib_next_seq ib),
               ib \<lparr> ib_next_seq := ib_next_seq ib + 1,
                    ib_pending := ib_pending ib @ [\<lparr> im_seq = ib_next_seq ib, im_kind = kind,
                      im_sender = sender, im_content = content \<rparr>] \<rparr>))"

definition inbox_steer :: "json \<Rightarrow> inbox \<Rightarrow> (rusty_error + nat) \<times> inbox" where
  "inbox_steer content ib = inbox_send DEFAULT_SENDER NextStep True content ib"

definition inbox_followup :: "json \<Rightarrow> inbox \<Rightarrow> (rusty_error + nat) \<times> inbox" where
  "inbox_followup content ib = inbox_send DEFAULT_SENDER NextTurn False content ib"

definition inbox_inject :: "json \<Rightarrow> inbox \<Rightarrow> (rusty_error + nat) \<times> inbox" where
  "inbox_inject content ib = inbox_send DEFAULT_SENDER NextStep False content ib"

definition inbox_cancel :: "cancel_cause \<Rightarrow> bool \<Rightarrow> inbox \<Rightarrow> inbox" where
  "inbox_cancel cause keep ib =
     (case ib_cancel ib of None \<Rightarrow> ib \<lparr> ib_cancel := Some (cause, keep) \<rparr> | Some _ \<Rightarrow> ib)"

definition inbox_len :: "inbox \<Rightarrow> nat" where
  "inbox_len ib = length (ib_steering ib) + length (ib_followups ib) + length (ib_staged ib)"

definition inbox_is_empty :: "inbox \<Rightarrow> bool" where
  "inbox_is_empty ib \<longleftrightarrow> inbox_len ib = 0"

definition inbox_snapshot_of :: "inbox \<Rightarrow> inbox_snapshot option" where
  "inbox_snapshot_of ib =
     (if ib_next_seq ib = 0 then None
      else Some \<lparr> is_steering = ib_steering ib, is_followups = ib_followups ib, is_staged = ib_staged ib,
        is_next_seq = ib_next_seq ib, is_pending_delivery = [] \<rparr>)"

definition inbox_is_fresh :: "inbox \<Rightarrow> bool" where
  "inbox_is_fresh ib \<longleftrightarrow> ib_next_seq ib = 0 \<and> ib_pending ib = []"

definition inbox_seed :: "inbox_snapshot \<Rightarrow> inbox \<Rightarrow> inbox" where
  "inbox_seed snap ib =
     (if \<not> inbox_is_fresh ib then ib
      else ib \<lparr> ib_steering := is_steering snap, ib_followups := is_followups snap,
                ib_staged := is_staged snap, ib_next_seq := is_next_seq snap \<rparr>)"

definition settle_next :: "inbox \<Rightarrow> nat \<Rightarrow> (inbox_message \<times> inbox) option" where
  "settle_next ib len =
     (case ib_source ib of
        Live \<Rightarrow> (case ib_pending ib of [] \<Rightarrow> None | m # ms \<Rightarrow> Some (m, ib \<lparr> ib_pending := ms \<rparr>))
      | Replaying points \<Rightarrow>
          (case points of
             PointIntake sq m # ps \<Rightarrow>
               if sq \<le> len then Some (m, ib \<lparr> ib_source := Replaying ps \<rparr>) else None
           | _ \<Rightarrow> None))"

fun push_queue :: "inbox_message \<Rightarrow> inbox \<Rightarrow> inbox" where
  "push_queue m ib =
     (case im_kind m of
        Steering \<Rightarrow> ib \<lparr> ib_steering := ib_steering ib @ [m] \<rparr>
      | FollowUp \<Rightarrow> ib \<lparr> ib_followups := ib_followups ib @ [m] \<rparr>
      | Injected \<Rightarrow> ib \<lparr> ib_staged := ib_staged ib @ [m] \<rparr>)"

definition intake_draft :: "inbox_message \<Rightarrow> string option \<Rightarrow> event_draft" where
  "intake_draft m parent =
     (draft_new KInboxIntake Pure) \<lparr> d_output := Some (message_to_value m), d_parent := parent \<rparr>"

definition unsettled :: "inbox \<Rightarrow> nat" where
  "unsettled ib = length (ib_pending ib) + (case ib_source ib of Live \<Rightarrow> 0 | Replaying ps \<Rightarrow> length ps)"

function settle_loop ::
  "codec \<Rightarrow> string option \<Rightarrow> string option \<Rightarrow> inbox \<Rightarrow> journal \<Rightarrow> string option \<times> inbox \<times> journal" where
  "settle_loop cd parent last_event ib j =
     (case settle_next ib (journal_len j) of
        None \<Rightarrow> (last_event, ib, j)
      | Some (m, ib') \<Rightarrow>
          (case record_event cd (intake_draft m (case last_event of Some e \<Rightarrow> Some e | None \<Rightarrow> parent)) j of
             (eid, j') \<Rightarrow> settle_loop cd parent (Some eid) (push_queue m ib') j'))"
  by pat_completeness auto
termination
  by (relation "measure (\<lambda>(cd, parent, l, ib, j). unsettled ib)")
     (auto simp: settle_next_def unsettled_def split: intake_source.splits list.splits
        scheduled_point.splits if_splits inbox_kind.splits)

declare settle_loop.simps [simp del]

definition settle :: "codec \<Rightarrow> string option \<Rightarrow> inbox \<Rightarrow> journal \<Rightarrow> string option \<times> inbox \<times> journal" where
  "settle cd parent ib j = settle_loop cd parent None ib j"

definition take_cancel :: "nat \<Rightarrow> inbox \<Rightarrow> (cancel_cause \<times> bool) option \<times> inbox" where
  "take_cancel len ib =
     (case ib_source ib of
        Live \<Rightarrow> (ib_cancel ib, ib \<lparr> ib_cancel := None \<rparr>)
      | Replaying points \<Rightarrow>
          (case points of
             PointCancel sq cause keep # ps \<Rightarrow>
               if sq \<le> len then (Some (cause, keep), ib \<lparr> ib_source := Replaying ps \<rparr>) else (None, ib)
           | _ \<Rightarrow> (None, ib)))"

definition drain_steering :: "inbox \<Rightarrow> inbox_message list \<times> inbox" where
  "drain_steering ib = (ib_steering ib, ib \<lparr> ib_steering := [] \<rparr>)"

definition drain_followups :: "inbox \<Rightarrow> inbox_message list \<times> inbox" where
  "drain_followups ib = (ib_followups ib, ib \<lparr> ib_followups := [] \<rparr>)"

definition drain_staged :: "inbox \<Rightarrow> inbox_message list \<times> inbox" where
  "drain_staged ib = (ib_staged ib, ib \<lparr> ib_staged := [] \<rparr>)"

definition inbox_clear :: "inbox \<Rightarrow> dropped_messages \<times> inbox" where
  "inbox_clear ib =
     (\<lparr> dr_steering = length (ib_steering ib), dr_followups = length (ib_followups ib),
        dr_staged = length (ib_staged ib), dr_pending = length (ib_pending ib) \<rparr>,
      ib \<lparr> ib_steering := [], ib_followups := [], ib_staged := [], ib_pending := [] \<rparr>)"


section \<open>Settling\<close>

text \<open>The journal side of settling a batch, and the queue side.\<close>

fun record_intakes ::
  "codec \<Rightarrow> string option \<Rightarrow> string option \<Rightarrow> inbox_message list \<Rightarrow> journal \<Rightarrow> string option \<times> journal" where
  "record_intakes cd parent l [] j = (l, j)"
| "record_intakes cd parent l (m # ms) j =
     (case record_event cd (intake_draft m (case l of Some e \<Rightarrow> Some e | None \<Rightarrow> parent)) j of
        (eid, j') \<Rightarrow> record_intakes cd parent (Some eid) ms j')"

definition enqueue :: "inbox_message list \<Rightarrow> inbox \<Rightarrow> inbox" where
  "enqueue ms ib = ib \<lparr> ib_steering := ib_steering ib @ filter (\<lambda>m. im_kind m = Steering) ms,
     ib_followups := ib_followups ib @ filter (\<lambda>m. im_kind m = FollowUp) ms,
     ib_staged := ib_staged ib @ filter (\<lambda>m. im_kind m = Injected) ms \<rparr>"

lemma enqueue_Nil [simp]: "enqueue [] ib = ib"
  by (simp add: enqueue_def)

lemma enqueue_Cons: "enqueue (m # ms) ib = enqueue ms (push_queue m ib)"
  by (cases "im_kind m") (simp_all add: enqueue_def)

lemma push_queue_pending [simp]:
  "ib_pending (push_queue m ib) = ib_pending ib" "ib_source (push_queue m ib) = ib_source ib"
  "push_queue m (ib \<lparr> ib_pending := ps \<rparr>) = (push_queue m ib) \<lparr> ib_pending := ps \<rparr>"
  "push_queue m (ib \<lparr> ib_source := src \<rparr>) = (push_queue m ib) \<lparr> ib_source := src \<rparr>"
  by (cases "im_kind m"; simp)+

declare push_queue.simps [simp del]

lemma queue_of_enqueue: "queue_of k (enqueue ms ib) = queue_of k ib @ filter (\<lambda>m. im_kind m = k) ms"
  by (cases k) (simp_all add: enqueue_def)

lemma enqueue_simps [simp]:
  "ib_pending (enqueue ms ib) = ib_pending ib" "ib_source (enqueue ms ib) = ib_source ib"
  "ib_next_seq (enqueue ms ib) = ib_next_seq ib" "ib_bounds (enqueue ms ib) = ib_bounds ib"
  "ib_cancel (enqueue ms ib) = ib_cancel ib"
  by (simp_all add: enqueue_def)

lemma settle_loop_live:
  "ib_source ib = Live \<Longrightarrow> settle_loop cd parent l ib j =
     (case record_intakes cd parent l (ib_pending ib) j of
        (l', j') \<Rightarrow> (l', enqueue (ib_pending ib) (ib \<lparr> ib_pending := [] \<rparr>), j'))"
proof (induction "ib_pending ib" arbitrary: ib l j)
  case Nil
  then have "ib = ib \<lparr> ib_pending := [] \<rparr>" by simp
  then show ?case using Nil by (simp add: settle_loop.simps settle_next_def flip: Nil.hyps)
next
  case (Cons m ms)
  obtain eid j' where r: "record_event cd (intake_draft m (case l of Some e \<Rightarrow> Some e | None \<Rightarrow> parent)) j = (eid, j')"
    by (metis surj_pair)
  let ?ib = "push_queue m (ib \<lparr> ib_pending := ms \<rparr>)"
  have "settle_next ib (journal_len j) = Some (m, ib \<lparr> ib_pending := ms \<rparr>)"
    using Cons.prems Cons.hyps(2) [symmetric] by (simp add: settle_next_def)
  then have "settle_loop cd parent l ib j = settle_loop cd parent (Some eid) ?ib j'"
    by (simp add: settle_loop.simps [of cd parent l ib j] r)
  then show ?case
    using Cons.hyps(1) [of ?ib "Some eid" j'] Cons.prems Cons.hyps(2) [symmetric] r
    by (simp add: enqueue_Cons)
qed

text \<open>The schedule a recording leaves behind for a batch settled at journal length \<open>n\<close>.\<close>

fun schedule_at :: "nat \<Rightarrow> inbox_message list \<Rightarrow> scheduled_point list" where
  "schedule_at n [] = []"
| "schedule_at n (m # ms) = PointIntake n m # schedule_at (Suc n) ms"

fun not_due :: "nat \<Rightarrow> scheduled_point list \<Rightarrow> bool" where
  "not_due n (PointIntake sq m # ps) \<longleftrightarrow> n < sq"
| "not_due n _ \<longleftrightarrow> True"

lemma record_event_len: "journal_len (snd (record_event cd d j)) = Suc (journal_len j)"
  by (rule record_event_cases [of cd j d]) (simp add: journal_len_def)

lemma not_due_iff: "not_due n ps \<longleftrightarrow> (case ps of PointIntake sq m # _ \<Rightarrow> n < sq | _ \<Rightarrow> True)"
  by (cases "(n, ps)" rule: not_due.cases) auto

lemma record_intakes_len: "journal_len (snd (record_intakes cd parent l ms j)) = journal_len j + length ms"
proof (induction ms arbitrary: l j)
  case (Cons m ms)
  obtain eid j' where r: "record_event cd (intake_draft m (case l of Some e \<Rightarrow> Some e | None \<Rightarrow> parent)) j = (eid, j')"
    by (metis surj_pair)
  then show ?case using Cons.IH [of "Some eid" j'] record_event_len [of cd _ j] by (metis (no_types, lifting)
      add_Suc_shift case_prod_conv length_Cons record_intakes.simps(2) snd_conv)
qed simp

lemma settle_loop_replay:
  "ib_source ib = Replaying (schedule_at (journal_len j) ms @ rest) \<Longrightarrow>
   not_due (journal_len j + length ms) rest \<Longrightarrow>
   settle_loop cd parent l ib j =
     (case record_intakes cd parent l ms j of
        (l', j') \<Rightarrow> (l', enqueue ms (ib \<lparr> ib_source := Replaying rest \<rparr>), j'))"
proof (induction ms arbitrary: ib l j)
  case Nil
  then have "ib = ib \<lparr> ib_source := Replaying rest \<rparr>" by simp
  then show ?case
    using Nil by (cases rest; cases "hd rest") (simp_all add: settle_loop.simps settle_next_def)
next
  case (Cons m ms)
  obtain eid j' where r: "record_event cd (intake_draft m (case l of Some e \<Rightarrow> Some e | None \<Rightarrow> parent)) j = (eid, j')"
    by (metis surj_pair)
  have len: "journal_len j' = Suc (journal_len j)" using record_event_len [of cd _ j] r by (metis snd_conv)
  let ?ib = "push_queue m (ib \<lparr> ib_source := Replaying (schedule_at (Suc (journal_len j)) ms @ rest) \<rparr>)"
  have "settle_loop cd parent l ib j = settle_loop cd parent (Some eid) ?ib j'"
    using Cons.prems(1) by (simp add: settle_loop.simps [of cd parent l ib j] settle_next_def r)
  then show ?case
    using Cons.IH [of ?ib j' "Some eid"] Cons.prems r by (simp add: len enqueue_Cons)
qed


subsection \<open>The recorded schedule\<close>

lemma replay_points_append:
  "replay_points snap (xs @ ys) ps = rbind (replay_points snap xs ps) (replay_points snap ys)"
  by (induction snap xs ps rule: replay_points.induct) (simp_all split: option.split)

lemma replay_points_mono:
  assumes mono: "\<And>p v. resolve_payload s p = Some v \<Longrightarrow> resolve_payload s' p = Some v"
  shows "replay_points s es ps = Inr qs \<Longrightarrow> replay_points s' es ps = Inr qs"
proof (induction es arbitrary: ps)
  case (Cons e es)
  have m: "Option.bind (ev_output e) (resolve_payload s') = Some v"
    if "Option.bind (ev_output e) (resolve_payload s) = Some v" for v
    using that mono by (cases "ev_output e") auto
  show ?case
  proof (cases "ev_kind e = KInboxIntake \<or> ev_kind e = KRunCancelled")
    case True
    then obtain v where "Option.bind (ev_output e) (resolve_payload s) = Some v"
      using Cons.prems by (auto split: option.splits)
    then show ?thesis using True Cons m [of v] by (auto split: option.splits)
  qed (use Cons in auto)
qed simp

lemma resolve_payload_snapshot: "resolve_payload (snapshot j) p = resolve j p"
  by (cases p) (simp_all add: resolve_payload_def resolve_def snapshot_def)

lemma record_resolve_mono:
  assumes "journal_inv cd j"
  shows "resolve j p = Some v \<Longrightarrow> resolve (snd (record_event cd d j)) p = Some v"
proof (rule record_event_cases [of cd j d])
  fix e inp arts1 outp arts2
  assume s1: "store_payload_opt cd (j_artifacts j) (d_input d) = (inp, arts1)"
    and s2: "store_payload_opt cd arts1 (d_output d) = (outp, arts2)"
    and ar: "j_artifacts (snd (record_event cd d j)) = arts2" and r: "resolve j p = Some v"
  have ok: "artifacts_ok cd (j_artifacts j)" using assms by (simp add: journal_inv_def)
  note a1 = store_payload_opt_artifacts [OF ok s1]
  note a2 = store_payload_opt_artifacts [OF a1 [THEN conjunct1] s2]
  have "map_of (j_artifacts j) \<subseteq>\<^sub>m map_of arts2" using a1 a2 map_le_trans by blast
  then show ?thesis using r by (auto simp: resolve_def ar map_le_def dom_def split: payload_ref.splits)
qed

lemma record_intake_point:
  assumes "codec_total cd" "collision_free cd" "journal_inv cd j"
    "replay_points (snapshot j) (j_events j) [] = Ok past"
    "j' = snd (record_event cd (intake_draft m parent) j)"
  shows "replay_points (snapshot j') (j_events j') [] = Ok (past @ [PointIntake (journal_len j) m])"
proof (rule record_event_cases [of cd j "intake_draft m parent"])
  fix e inp arts1 outp arts2
  let ?d = "intake_draft m parent"
  assume s1: "store_payload_opt cd (j_artifacts j) (d_input ?d) = (inp, arts1)"
    and s2: "store_payload_opt cd arts1 (d_output ?d) = (outp, arts2)"
    and ev: "j_events (snd (record_event cd ?d j)) = j_events j @ [e]"
    and ar: "j_artifacts (snd (record_event cd ?d j)) = arts2"
    and e: "event_at j (length (j_events j)) e" "ev_output e = outp" "ev_kind e = d_kind ?d"
  have ok: "artifacts_ok cd (j_artifacts j)" using assms(3) by (simp add: journal_inv_def)
  note a1 = store_payload_opt_artifacts [OF ok s1, THEN conjunct1]
  have "map_option (resolve j') outp = map_option Some (d_output ?d)"
    using store_payload_opt_resolve [OF assms(2) a1 s2] ar assms(5) by simp
  then have res: "Option.bind (ev_output e) (resolve_payload (snapshot j')) = Some (message_to_value m)"
    using e by (auto simp: intake_draft_def resolve_payload_snapshot)
  have "replay_points (snapshot j') (j_events j) [] = Ok past"
    using assms(4,5) record_resolve_mono [OF assms(3)] replay_points_mono
    by (metis resolve_payload_snapshot)
  then show ?thesis
    using res e unfolding assms(5) ev
    by (simp add: replay_points_append intake_draft_def draft_new_def event_at_def journal_len_def)
qed

lemma record_intakes_schedule:
  assumes "codec_total cd" "collision_free cd"
  shows "journal_inv cd j \<Longrightarrow> replay_points (snapshot j) (j_events j) [] = Ok past \<Longrightarrow>
    record_intakes cd parent l ms j = (l', j') \<Longrightarrow>
    replay_points (snapshot j') (j_events j') [] = Ok (past @ schedule_at (journal_len j) ms)"
proof (induction ms arbitrary: l j past)
  case (Cons m ms)
  let ?d = "intake_draft m (case l of Some e \<Rightarrow> Some e | None \<Rightarrow> parent)"
  obtain eid j1 where r: "record_event cd ?d j = (eid, j1)" by (metis surj_pair)
  have inv: "journal_inv cd j1" using journal_inv_record [OF assms(1) Cons.prems(1), of ?d] r by simp
  have len: "journal_len j1 = Suc (journal_len j)" using record_event_len [of cd ?d j] r by simp
  have "replay_points (snapshot j1) (j_events j1) [] = Ok (past @ [PointIntake (journal_len j) m])"
    using record_intake_point [OF assms Cons.prems(1,2)] r by (metis snd_conv)
  from Cons.IH [OF inv this, of "Some eid"] show ?case using Cons.prems(3) r len by simp
qed simp

section \<open>Histories\<close>

text \<open>
  All ways a live inbox can be used, in any order and interleaving: sends (accepted or
  refused), settling, draining, cancellation, the clear of a cancellation that does not keep
  the inbox, and the seeding of a resumed run's inbox from the snapshot a checkpoint stamped.
  The relation records the messages accepted so far, the ones that left the inbox (handed to
  the run or dropped by a clear) in the order they left, and the ones that were accepted but
  still unsettled when the snapshot a resume seeds from was taken: no queue holds those, so the
  snapshot does not either.  A seeding history continues the one the snapshot was taken in;
  what the suspended process did to its inbox afterwards is not part of it.
\<close>

datatype departure = Delivered (departed: inbox_message) | Dropped (departed: inbox_message)

inductive inbox_history ::
  "inbox \<Rightarrow> inbox_message list \<Rightarrow> departure list \<Rightarrow> inbox_message list \<Rightarrow> bool" where
  hist_start: "inbox_history (inbox_with_bounds b) [] [] []"
| hist_send: "inbox_history ib sent gone lost \<Longrightarrow> inbox_send s t w c ib = (Ok n, ib') \<Longrightarrow>
    inbox_history ib' (sent @ [last (ib_pending ib')]) gone lost"
| hist_refused: "inbox_history ib sent gone lost \<Longrightarrow> inbox_send s t w c ib = (Err e, ib') \<Longrightarrow>
    inbox_history ib' sent gone lost"
| hist_settle: "inbox_history ib sent gone lost \<Longrightarrow> settle cd parent ib j = (l, ib', j') \<Longrightarrow>
    inbox_history ib' sent gone lost"
| hist_steering: "inbox_history ib sent gone lost \<Longrightarrow> drain_steering ib = (ms, ib') \<Longrightarrow>
    inbox_history ib' sent (gone @ map Delivered ms) lost"
| hist_followups: "inbox_history ib sent gone lost \<Longrightarrow> drain_followups ib = (ms, ib') \<Longrightarrow>
    inbox_history ib' sent (gone @ map Delivered ms) lost"
| hist_staged: "inbox_history ib sent gone lost \<Longrightarrow> drain_staged ib = (ms, ib') \<Longrightarrow>
    inbox_history ib' sent (gone @ map Delivered ms) lost"
| hist_cancel: "inbox_history ib sent gone lost \<Longrightarrow>
    inbox_history (inbox_cancel cause keep ib) sent gone lost"
| hist_take_cancel: "inbox_history ib sent gone lost \<Longrightarrow> take_cancel len ib = (r, ib') \<Longrightarrow>
    inbox_history ib' sent gone lost"
| hist_clear: "inbox_history ib sent gone lost \<Longrightarrow> inbox_clear ib = (counts, ib') \<Longrightarrow>
    inbox_history ib' sent
      (gone @ map Dropped (ib_steering ib @ ib_followups ib @ ib_staged ib @ ib_pending ib)) lost"
| hist_seed: "inbox_history ib sent gone lost \<Longrightarrow> inbox_snapshot_of ib = Some snap \<Longrightarrow>
    inbox_history fresh [] [] [] \<Longrightarrow> ib_bounds fresh = ib_bounds ib \<Longrightarrow>
    inbox_history (inbox_seed snap fresh) sent gone (lost @ ib_pending ib)"
| hist_seed_used: "inbox_history ib sent gone lost \<Longrightarrow> sent \<noteq> [] \<Longrightarrow>
    inbox_history (inbox_seed snap ib) sent gone lost"

definition of_kind :: "inbox_kind \<Rightarrow> inbox_message list \<Rightarrow> inbox_message list" where
  "of_kind k ms = filter (\<lambda>m. im_kind m = k) ms"

lemma of_kind_simps [simp]:
  "of_kind k [] = []" "of_kind k (xs @ ys) = of_kind k xs @ of_kind k ys"
  "of_kind k (of_kind k' xs) = (if k = k' then of_kind k xs else [])"
  by (auto simp: of_kind_def filter_empty_conv)

definition without :: "inbox_message list \<Rightarrow> inbox_message list \<Rightarrow> inbox_message list" where
  "without lost ms = filter (\<lambda>m. m \<notin> set lost) ms"

definition inbox_inv ::
  "inbox \<Rightarrow> inbox_message list \<Rightarrow> departure list \<Rightarrow> inbox_message list \<Rightarrow> bool" where
  "inbox_inv ib sent gone lost \<longleftrightarrow>
     ib_source ib = Live \<and>
     map im_seq sent = [0..<ib_next_seq ib] \<and> set lost \<subseteq> set sent \<and>
     (\<forall>k. of_kind k (queue_of k ib) = queue_of k ib \<and>
          of_kind k (without lost sent) =
            of_kind k (map departed gone) @ queue_of k ib @ of_kind k (ib_pending ib) \<and>
          length (queue_of k ib) + length (of_kind k (ib_pending ib)) \<le> bound_of k (ib_bounds ib)) \<and>
     length (ib_pending ib) \<le> max_pending (ib_bounds ib)"

lemma queue_of_updates [simp]:
  "queue_of k (ib \<lparr> ib_steering := xs \<rparr>) = (if k = Steering then xs else queue_of k ib)"
  "queue_of k (ib \<lparr> ib_followups := xs \<rparr>) = (if k = FollowUp then xs else queue_of k ib)"
  "queue_of k (ib \<lparr> ib_staged := xs \<rparr>) = (if k = Injected then xs else queue_of k ib)"
  "queue_of k (ib \<lparr> ib_pending := ps \<rparr>) = queue_of k ib"
  "queue_of k (ib \<lparr> ib_next_seq := n \<rparr>) = queue_of k ib"
  "queue_of k (ib \<lparr> ib_cancel := c \<rparr>) = queue_of k ib"
  by (cases k; simp)+

lemma without_send:
  assumes "map im_seq sent = [0..<n]" "set lost \<subseteq> set sent" "im_seq m = n"
  shows "without lost (sent @ [m]) = without lost sent @ [m]"
proof -
  have "im_seq ` set sent = {0..<n}" using assms(1) by (metis list.set_map set_upt)
  then have "m \<notin> set sent" using assms(3) by fastforce
  then show ?thesis using assms(2) by (auto simp: without_def)
qed

lemma inv_send_ok:
  assumes "inbox_inv ib sent gone lost" "inbox_send s t w c ib = (Ok n, ib')"
  shows "inbox_inv ib' (sent @ [last (ib_pending ib')]) gone lost"
proof -
  let ?k = "kind_of_send t w"
  let ?m = "\<lparr> im_seq = ib_next_seq ib, im_kind = ?k, im_sender = s, im_content = c \<rparr>"
  have live: "ib_source ib = Live" using assms(1) by (simp add: inbox_inv_def)
  have room: "length (of_kind ?k (ib_pending ib)) + length (queue_of ?k ib) < bound_of ?k (ib_bounds ib)"
    "length (ib_pending ib) < max_pending (ib_bounds ib)"
    and ib': "ib' = ib \<lparr> ib_next_seq := ib_next_seq ib + 1, ib_pending := ib_pending ib @ [?m] \<rparr>"
    using assms(2) live by (auto simp: inbox_send_def Let_def of_kind_def split: if_splits)
  have "of_kind k [?m] = (if k = ?k then [?m] else [])" for k by (simp add: of_kind_def)
  moreover have "without lost (sent @ [?m]) = without lost sent @ [?m]"
    using assms(1) by (intro without_send [of sent "ib_next_seq ib"]) (simp_all add: inbox_inv_def)
  ultimately show ?thesis using assms(1) room by (auto simp: ib' inbox_inv_def)
qed

lemma inv_settle:
  assumes "inbox_inv ib sent gone lost" "settle cd parent ib j = (l, ib', j')"
  shows "inbox_inv ib' sent gone lost"
proof -
  have "ib' = enqueue (ib_pending ib) (ib \<lparr> ib_pending := [] \<rparr>)"
    using assms by (auto simp: settle_def settle_loop_live inbox_inv_def split: prod.splits)
  moreover have "queue_of k ib' = queue_of k ib @ of_kind k (ib_pending ib)" for k
    using calculation by (simp add: queue_of_enqueue of_kind_def)
  ultimately show ?thesis using assms(1) by (auto simp: inbox_inv_def)
qed

lemma inv_queues:
  assumes "inbox_inv ib sent gone lost"
  shows "of_kind k (ib_steering ib) = (if k = Steering then ib_steering ib else [])"
    "of_kind k (ib_followups ib) = (if k = FollowUp then ib_followups ib else [])"
    "of_kind k (ib_staged ib) = (if k = Injected then ib_staged ib else [])"
proof -
  have a: "of_kind k (queue_of k ib) = queue_of k ib" for k using assms by (simp add: inbox_inv_def)
  have q: "of_kind k (queue_of k' ib) = (if k = k' then queue_of k ib else [])" for k k'
    using of_kind_simps(3) [of k k' "queue_of k' ib"] unfolding a by (cases "k = k'") (simp_all add: a)
  show "of_kind k (ib_steering ib) = (if k = Steering then ib_steering ib else [])"
    "of_kind k (ib_followups ib) = (if k = FollowUp then ib_followups ib else [])"
    "of_kind k (ib_staged ib) = (if k = Injected then ib_staged ib else [])"
    using q [of k Steering] q [of k FollowUp] q [of k Injected] by (auto split: if_splits)
qed

lemma map_departed [simp]: "map departed (map Delivered ms) = ms" "map departed (map Dropped ms) = ms"
  by (simp_all add: comp_def)

lemma inv_drain:
  assumes "inbox_inv ib sent gone lost"
  shows "drain_steering ib = (ms, ib') \<Longrightarrow> inbox_inv ib' sent (gone @ map Delivered ms) lost"
    and "drain_followups ib = (ms, ib') \<Longrightarrow> inbox_inv ib' sent (gone @ map Delivered ms) lost"
    and "drain_staged ib = (ms, ib') \<Longrightarrow> inbox_inv ib' sent (gone @ map Delivered ms) lost"
proof -
  have len: "length (of_kind k (ib_pending ib)) \<le> bound_of k (ib_bounds ib)" for k
    using assms unfolding inbox_inv_def by (meson add_leD2)
  show "drain_steering ib = (ms, ib') \<Longrightarrow> inbox_inv ib' sent (gone @ map Delivered ms) lost"
    "drain_followups ib = (ms, ib') \<Longrightarrow> inbox_inv ib' sent (gone @ map Delivered ms) lost"
    "drain_staged ib = (ms, ib') \<Longrightarrow> inbox_inv ib' sent (gone @ map Delivered ms) lost"
    using assms len [of Steering] len [of FollowUp] len [of Injected]
    by (auto simp: drain_steering_def drain_followups_def drain_staged_def inbox_inv_def
        inv_queues [OF assms] simp del: map_map)
qed

lemma inv_clear:
  assumes "inbox_inv ib sent gone lost" "inbox_clear ib = (counts, ib')"
  shows "inbox_inv ib' sent
    (gone @ map Dropped (ib_steering ib @ ib_followups ib @ ib_staged ib @ ib_pending ib)) lost"
proof -
  have ib': "ib' = ib \<lparr> ib_steering := [], ib_followups := [], ib_staged := [], ib_pending := [] \<rparr>"
    using assms(2) by (simp add: inbox_clear_def)
  let ?ms = "ib_steering ib @ ib_followups ib @ ib_staged ib @ ib_pending ib"
  have "queue_of k ib' = []" for k by (cases k) (simp_all add: ib')
  moreover have "of_kind k ?ms = queue_of k ib @ of_kind k (ib_pending ib)" for k
    by (cases k) (simp_all add: inv_queues [OF assms(1)])
  then have "of_kind k (map departed (gone @ map Dropped ?ms)) =
      of_kind k (map departed gone) @ queue_of k ib @ of_kind k (ib_pending ib)" for k
    by (simp only: map_append map_departed of_kind_simps)
  ultimately show ?thesis
    using assms(1) by (simp add: inbox_inv_def ib' del: map_append map_map)
qed

text \<open>Messages that were unsettled at the snapshot are the tail of what the history accounts for.\<close>

lemma without_tail:
  assumes "inbox_inv ib sent gone lost"
  shows "of_kind k (without (lost @ ib_pending ib) sent) = of_kind k (map departed gone) @ queue_of k ib"
proof -
  let ?xs = "of_kind k (map departed gone) @ queue_of k ib" and ?p = "of_kind k (ib_pending ib)"
  have eq: "of_kind k (without lost sent) = ?xs @ ?p" using assms by (simp add: inbox_inv_def)
  have "map im_seq sent = [0..<ib_next_seq ib]" using assms by (simp add: inbox_inv_def)
  then have "distinct sent" by (metis distinct_map distinct_upt)
  then have d: "distinct (?xs @ ?p)" unfolding eq [symmetric] by (simp add: of_kind_def without_def)
  have kinds: "\<forall>m \<in> set (?xs @ ?p). im_kind m = k" unfolding eq [symmetric] by (simp add: of_kind_def)
  have "of_kind k (without (lost @ ib_pending ib) sent) = filter (\<lambda>m. m \<notin> set (ib_pending ib)) (of_kind k (without lost sent))"
    unfolding of_kind_def without_def filter_filter by (rule filter_cong) auto
  also have "\<dots> = filter (\<lambda>m. m \<notin> set ?p) (?xs @ ?p)"
    unfolding eq
  proof (rule filter_cong [OF refl])
    fix m assume "m \<in> set (?xs @ ?p)"
    then have "im_kind m = k" using kinds by blast
    then show "(m \<notin> set (ib_pending ib)) = (m \<notin> set ?p)" by (simp add: of_kind_def)
  qed
  also have "\<dots> = filter (\<lambda>m. m \<notin> set ?p) ?xs @ filter (\<lambda>m. m \<notin> set ?p) ?p"
    by (rule filter_append)
  also have "filter (\<lambda>m. m \<notin> set ?p) ?xs = ?xs"
    by (rule filter_True) (use d in auto)
  also have "filter (\<lambda>m. m \<notin> set ?p) ?p = []" by (auto simp: filter_empty_conv)
  finally show ?thesis by simp
qed

lemma inv_fresh:
  assumes "inbox_inv ib [] gone lost"
  shows "inbox_is_fresh ib" "ib_pending ib = []" "ib_source ib = Live"
proof -
  have "of_kind k (ib_pending ib) = []" for k using assms by (simp add: inbox_inv_def without_def)
  then have "\<forall>m \<in> set (ib_pending ib). im_kind m \<noteq> k" for k by (auto simp: of_kind_def filter_empty_conv)
  then show p: "ib_pending ib = []" by (metis all_not_in_conv set_empty)
  show "inbox_is_fresh ib" "ib_source ib = Live"
    using assms p upt_eq_Nil_conv [of 0 "ib_next_seq ib"] by (auto simp: inbox_inv_def inbox_is_fresh_def)
qed

lemma inv_pending_sent:
  assumes "inbox_inv ib sent gone lost"
  shows "set (ib_pending ib) \<subseteq> set sent"
proof
  fix m assume "m \<in> set (ib_pending ib)"
  then have "m \<in> set (of_kind (im_kind m) (ib_pending ib))" by (simp add: of_kind_def)
  then have "m \<in> set (of_kind (im_kind m) (without lost sent))" using assms by (simp add: inbox_inv_def)
  then show "m \<in> set sent" by (simp add: of_kind_def without_def)
qed

lemma inv_seed:
  assumes inv: "inbox_inv ib sent gone lost" and snap: "inbox_snapshot_of ib = Some snap"
    and fresh: "inbox_inv fresh [] [] []" and bounds: "ib_bounds fresh = ib_bounds ib"
  shows "inbox_inv (inbox_seed snap fresh) sent gone (lost @ ib_pending ib)"
proof -
  let ?ib = "inbox_seed snap fresh"
  have e: "?ib = fresh \<lparr> ib_steering := ib_steering ib, ib_followups := ib_followups ib,
      ib_staged := ib_staged ib, ib_next_seq := ib_next_seq ib \<rparr>"
    using snap inv_fresh(1) [OF fresh] by (auto simp: inbox_seed_def inbox_snapshot_of_def split: if_splits)
  have q: "queue_of k ?ib = queue_of k ib" for k by (cases k) (simp_all add: e)
  have "length (queue_of k ib) \<le> bound_of k (ib_bounds ib)" for k
    using inv unfolding inbox_inv_def by (meson add_leD1)
  moreover have "ib_pending ?ib = []" "ib_source ?ib = Live" "ib_bounds ?ib = ib_bounds ib"
    "ib_next_seq ?ib = ib_next_seq ib"
    using inv_fresh [OF fresh] bounds by (simp_all add: e)
  ultimately show ?thesis
    using inv inv_pending_sent [OF inv] without_tail [OF inv] by (simp add: inbox_inv_def q)
qed

lemma inv_seed_used:
  assumes "inbox_inv ib sent gone lost" "sent \<noteq> []"
  shows "inbox_inv (inbox_seed snap ib) sent gone lost"
proof -
  have "map im_seq sent = [0..<ib_next_seq ib]" using assms(1) by (simp add: inbox_inv_def)
  then have "ib_next_seq ib \<noteq> 0" using assms(2) by (metis list.map_disc_iff upt_0)
  then show ?thesis using assms(1) by (simp add: inbox_seed_def inbox_is_fresh_def)
qed

lemma inbox_history_inv: "inbox_history ib sent gone lost \<Longrightarrow> inbox_inv ib sent gone lost"
proof (induction rule: inbox_history.induct)
  case (hist_start b)
  have "queue_of k (inbox_with_bounds b) = []" for k by (cases k) (simp_all add: inbox_with_bounds_def)
  then show ?case by (simp add: inbox_inv_def inbox_with_bounds_def without_def)
next
  case (hist_refused ib sent gone lost s t w c e ib')
  then have "ib' = ib" by (auto simp: inbox_send_def Let_def split: intake_source.splits if_splits)
  then show ?case using hist_refused by simp
next
  case (hist_cancel ib sent gone lost cause keep)
  then show ?case by (auto simp: inbox_cancel_def inbox_inv_def split: option.splits)
next
  case (hist_take_cancel ib sent gone lost len r ib')
  then show ?case by (auto simp: take_cancel_def inbox_inv_def)
qed (blast intro: inv_send_ok inv_settle inv_drain inv_clear inv_seed inv_seed_used)+


section \<open>Properties of the inbox\<close>


definition demo_message :: inbox_message where
  "demo_message = \<lparr> im_seq = 0, im_kind = Steering, im_sender = ''user'', im_content = JNull \<rparr>"

definition demo_follow :: inbox_message where
  "demo_follow = \<lparr> im_seq = 1, im_kind = FollowUp, im_sender = ''user'', im_content = JNull \<rparr>"

lemma demo_steer: "inbox_steer JNull inbox_new =
   (Ok 0, inbox_new \<lparr> ib_next_seq := 1, ib_pending := [demo_message] \<rparr>)"
  by (simp add: inbox_steer_def inbox_send_def inbox_new_def inbox_with_bounds_def default_bounds_def
      DEFAULT_SENDER_def demo_message_def Let_def)

lemma demo_followup: "inbox_followup JNull (inbox_new \<lparr> ib_next_seq := 1 \<rparr>) =
   (Ok 1, inbox_new \<lparr> ib_next_seq := 2, ib_pending := [demo_follow] \<rparr>)"
  by (simp add: inbox_followup_def inbox_send_def inbox_new_def inbox_with_bounds_def default_bounds_def
      DEFAULT_SENDER_def demo_follow_def Let_def)


text \<open>
  C32: replay reproduces intake.  When a live inbox settles its batch into a journal, the
  schedule read back from the resulting journal's snapshot ends with exactly that batch.  An
  inbox that replays that batch followed by any points recorded later (the first of them not an
  intake the journal has already reached) settles, at the same point, exactly the batch: the
  same messages into the same queues and the same journal, event for event, with every later
  point still waiting for the journal position it was recorded at.
\<close>

theorem settle_replays_exactly:
  assumes "codec_total cd" "collision_free cd" "journal_inv cd j" "ib_source ib = Live"
    "replay_points (snapshot j) (j_events j) [] = Ok past"
    "settle cd parent ib j = (l, ib', j')"
  shows "\<exists>batch. replay_points (snapshot j') (j_events j') [] = Ok (past @ batch) \<and>
    (\<forall>rib later. ib_source rib = Replaying (batch @ later) \<longrightarrow>
       (case later of PointIntake sq m # _ \<Rightarrow> journal_len j' < sq | _ \<Rightarrow> True) \<longrightarrow>
       (\<forall>k. queue_of k rib = queue_of k ib) \<longrightarrow>
       (\<exists>rib'. settle cd parent rib j = (l, rib', j') \<and> ib_source rib' = Replaying later \<and>
          (\<forall>k. queue_of k rib' = queue_of k ib')))"
proof -
  let ?ms = "ib_pending ib"
  have r: "record_intakes cd parent None ?ms j = (l, j')" and ib': "ib' = enqueue ?ms (ib \<lparr> ib_pending := [] \<rparr>)"
    using assms(4,6) by (auto simp: settle_def settle_loop_live split: prod.splits)
  have len: "journal_len j' = journal_len j + length ?ms"
    using record_intakes_len [of cd parent None ?ms j] r by simp
  have "settle cd parent rib j = (l, enqueue ?ms (rib \<lparr> ib_source := Replaying later \<rparr>), j')"
    if "ib_source rib = Replaying (schedule_at (journal_len j) ?ms @ later)"
      "case later of PointIntake sq m # _ \<Rightarrow> journal_len j' < sq | _ \<Rightarrow> True" for rib later
    using settle_loop_replay [of rib j ?ms later cd parent None] that [unfolded len] r
    by (simp add: settle_def not_due_iff)
  moreover have "queue_of k (rib \<lparr> ib_source := s \<rparr>) = queue_of k rib" for k rib s by (cases k) simp_all
  ultimately show ?thesis
    using record_intakes_schedule [OF assms(1,2,3,5) r]
    by (intro exI [of _ "schedule_at (journal_len j) ?ms"]) (auto simp: ib' queue_of_enqueue)
qed

text \<open>A follow-up recorded five events later is not released early.\<close>

theorem settle_replays_exactly_witness:
  "\<exists>l ib' j' batch rib'.
     settle demo_codec None (inbox_new \<lparr> ib_next_seq := 1, ib_pending := [demo_message] \<rparr>) demo_journal = (l, ib', j') \<and>
     replay_points (snapshot j') (j_events j') [] = Ok batch \<and>
     settle demo_codec None (inbox_new \<lparr> ib_source := Replaying (batch @ [PointIntake (journal_len j' + 5) demo_follow]) \<rparr>)
       demo_journal = (l, rib', j') \<and>
     ib_source rib' = Replaying [PointIntake (journal_len j' + 5) demo_follow]"
proof -
  let ?ib = "inbox_new \<lparr> ib_next_seq := 1, ib_pending := [demo_message] \<rparr>"
  obtain l ib' j' where s: "settle demo_codec None ?ib demo_journal = (l, ib', j')" by (metis prod_cases3)
  have "codec_total demo_codec" "collision_free demo_codec" "journal_inv demo_codec demo_journal"
    by (auto simp: codec_total_def collision_free_def demo_codec_def demo_journal_def split: if_splits)
  moreover have "ib_source ?ib = Live" by (simp add: inbox_new_def inbox_with_bounds_def)
  moreover have "replay_points (snapshot demo_journal) (j_events demo_journal) [] = Ok []"
    by (simp add: demo_journal_def journal_new_def)
  ultimately obtain batch where b: "replay_points (snapshot j') (j_events j') [] = Ok batch"
    and rep: "\<And>rib later. ib_source rib = Replaying (batch @ later) \<Longrightarrow>
       (case later of PointIntake sq m # _ \<Rightarrow> journal_len j' < sq | _ \<Rightarrow> True) \<Longrightarrow>
       (\<forall>k. queue_of k rib = queue_of k ?ib) \<Longrightarrow>
       (\<exists>rib'. settle demo_codec None rib demo_journal = (l, rib', j') \<and> ib_source rib' = Replaying later)"
    using settle_replays_exactly [OF _ _ _ _ _ s] by (metis append_Nil)
  let ?later = "[PointIntake (journal_len j' + 5) demo_follow]"
  have "queue_of k (inbox_new \<lparr> ib_source := Replaying (batch @ ?later) \<rparr>) = queue_of k ?ib" for k
    by (cases k) simp_all
  then show ?thesis using rep [of "inbox_new \<lparr> ib_source := Replaying (batch @ ?later) \<rparr>" ?later] s b by simp
qed

text \<open>
  the stamped queues survive a crash.  Seeding a fresh inbox from the snapshot of an
  inbox restores its queues and its sequence counter, so a resumed run never reissues a
  sequence number; an inbox that was never used has no snapshot, and seeding an inbox that
  has accepted sends changes nothing.
\<close>

lemma inbox_snapshot_seed:
  "(case inbox_snapshot_of ib of
      None \<Rightarrow> ib_next_seq ib = 0
    | Some snap \<Rightarrow>
        (let ib' = inbox_seed snap (inbox_with_bounds b)
         in ib_next_seq ib' = ib_next_seq ib \<and> ib_steering ib' = ib_steering ib \<and>
            ib_followups ib' = ib_followups ib \<and> ib_staged ib' = ib_staged ib \<and>
            inbox_snapshot_of ib' = Some snap \<and> inbox_seed snap ib' = ib'))"
  by (simp add: inbox_snapshot_of_def inbox_seed_def inbox_is_fresh_def inbox_with_bounds_def Let_def)

end
