(* ===== verification/Checkpoints.thy ===== *)
theory Checkpoints
  imports Run_Inbox "HOL-Library.Product_Lexorder"
begin

text \<open>
  Checkpoints and their stores (checkpoint.rs, with \<open>CheckpointHeader\<close> and \<open>JournalRef\<close> from
  record.rs): the delta encoding of a checkpoint against the head of its thread, folding of
  delta chains, the in-memory store and the file store.

  The file store is, per thread, the directory's checkpoint files in iteration order and the
  content of the pointer file; a file holds a checkpoint or is unreadable.  A put happens under
  the thread's lock, so it is one step that writes the checkpoint file and the pointer file
  together; a crash between its two writes is not modelled.  The serialized size of a state is
  a parameter of the encoder.  The manifest a header carries is opaque here.
\<close>

section \<open>Checkpoints\<close>

definition CURRENT_FORMAT_VERSION :: nat where
  "CURRENT_FORMAT_VERSION = 1"

record checkpoint_header =
  h_format_version :: nat
  h_graph_version :: string
  h_graph_hash :: string
  h_policy_version :: string
  h_logical_clock :: nat
  h_manifest :: "json option"
  h_inbox :: "inbox_snapshot option"

record checkpoint =
  cp_id :: string
  cp_thread_id :: string
  cp_step :: nat
  cp_state :: channel_state
  cp_next_nodes :: "string list"
  cp_created_at :: nat
  cp_base :: "string option"
  cp_header :: checkpoint_header
  cp_journal_ref :: "journal_ref option"

definition default_header :: checkpoint_header where
  "default_header = \<lparr> h_format_version = CURRENT_FORMAT_VERSION, h_graph_version = ''unversioned'',
     h_graph_hash = [], h_policy_version = ''static-v0'', h_logical_clock = 0, h_manifest = None,
     h_inbox = None \<rparr>"

section \<open>Delta encoding\<close>

record delta_policy =
  max_chain_len :: nat
  max_byte_ratio :: f64

text \<open>The default ratio is the double nearest to 0.8.\<close>

definition default_policy :: delta_policy where
  "default_policy = \<lparr> max_chain_len = 32, max_byte_ratio = f64_round (8 / 10) \<rparr>"

definition full_only :: delta_policy where
  "full_only = \<lparr> max_chain_len = 0, max_byte_ratio = 0 \<rparr>"

definition deltas_enabled :: "delta_policy \<Rightarrow> bool" where
  "deltas_enabled p \<longleftrightarrow> 0 < max_chain_len p"

record delta_head =
  dh_checkpoint :: checkpoint
  dh_chain_len :: nat

record delta_encoding =
  de_checkpoint :: checkpoint
  de_chain_len :: nat

definition encoding_full :: "checkpoint \<Rightarrow> delta_encoding" where
  "encoding_full cp = \<lparr> de_checkpoint = cp \<lparr> cp_base := None \<rparr>, de_chain_len = 0 \<rparr>"

definition encode_delta ::
  "(channel_state \<Rightarrow> nat) \<Rightarrow> checkpoint \<Rightarrow> delta_head option \<Rightarrow> delta_policy \<Rightarrow> delta_encoding" where
  "encode_delta state_bytes cp head policy =
     (case (if deltas_enabled policy then head else None) of
        None \<Rightarrow> encoding_full cp
      | Some h \<Rightarrow>
          if max_chain_len policy \<le> dh_chain_len h then encoding_full cp
          else
            let delta = bt_of_list (channels_changed_since (cp_state cp) (cp_state (dh_checkpoint h)));
                delta_bytes = state_bytes delta;
                full_bytes = state_bytes (cp_state cp)
            in if f64_mul (max_byte_ratio policy) (f64_of_nat full_bytes) \<le> f64_of_nat delta_bytes
               then encoding_full cp
               else \<lparr> de_checkpoint = cp \<lparr> cp_base := Some (cp_id (dh_checkpoint h)), cp_state := delta \<rparr>,
                      de_chain_len = dh_chain_len h + 1 \<rparr>)"

definition fold_delta :: "checkpoint \<Rightarrow> checkpoint \<Rightarrow> checkpoint" where
  "fold_delta base delta =
     delta \<lparr> cp_state := fold (\<lambda>(channel, value). bt_insert channel value) (cp_state delta) (cp_state base),
             cp_base := None \<rparr>"

fun fold_links :: "checkpoint \<Rightarrow> checkpoint list \<Rightarrow> rusty_error + checkpoint" where
  "fold_links tip [] = Ok tip"
| "fold_links tip (link # links) =
     (if cp_base link \<noteq> Some (cp_id tip)
      then Err (Checkpoint (BrokenChain (cp_id link) (cp_base link) (cp_id tip)))
      else fold_links (fold_delta tip link) links)"

definition fold_chain :: "checkpoint list \<Rightarrow> rusty_error + checkpoint" where
  "fold_chain chain =
     (case chain of
        [] \<Rightarrow> Err (Checkpoint EmptyChain)
      | r0 # links \<Rightarrow>
          (case cp_base r0 of
             Some base \<Rightarrow> Err (Checkpoint (RootIsDelta (cp_id r0) base))
           | None \<Rightarrow> fold_links r0 links))"

text \<open>
  Materializing a whole thread.  \<open>walk_base\<close> follows the base links of one checkpoint until a
  full snapshot or a checkpoint that is already materialized; it gives up on a cycle and on a
  missing base.  The fuel bounds the walk by the number of stored checkpoints, which the
  visited set does too.
\<close>

fun walk_base ::
  "nat \<Rightarrow> (string \<rightharpoonup> checkpoint) \<Rightarrow> (string \<rightharpoonup> checkpoint) \<Rightarrow> string list \<Rightarrow> checkpoint list \<Rightarrow> checkpoint \<Rightarrow>
   (checkpoint \<times> checkpoint list) option" where
  "walk_base 0 by_id memo visiting links current = None"
| "walk_base (Suc n) by_id memo visiting links current =
     (if cp_id current \<in> set visiting then None
      else case memo (cp_id current) of
        Some m \<Rightarrow> Some (m, links)
      | None \<Rightarrow>
          (case cp_base current of
             None \<Rightarrow> Some (current, links)
           | Some base_id \<Rightarrow>
               (case by_id base_id of
                  None \<Rightarrow> None
                | Some base \<Rightarrow>
                    walk_base n by_id memo (cp_id current # visiting) (links @ [current]) base)))"

fun fold_memo ::
  "checkpoint list \<Rightarrow> checkpoint \<Rightarrow> (string \<rightharpoonup> checkpoint) \<Rightarrow> checkpoint \<times> (string \<rightharpoonup> checkpoint)" where
  "fold_memo [] tip memo = (tip, memo)"
| "fold_memo (link # links) tip memo =
     (let tip' = fold_delta tip link in fold_memo links tip' (memo(cp_id link \<mapsto> tip')))"

fun materialize_starts ::
  "nat \<Rightarrow> (string \<rightharpoonup> checkpoint) \<Rightarrow> checkpoint list \<Rightarrow> (string \<rightharpoonup> checkpoint) \<Rightarrow> checkpoint list" where
  "materialize_starts n by_id [] memo = []"
| "materialize_starts n by_id (start # starts) memo =
     (case memo (cp_id start) of
        Some m \<Rightarrow> m # materialize_starts n by_id starts memo
      | None \<Rightarrow>
          (case walk_base n by_id memo [] [] start of
             None \<Rightarrow> materialize_starts n by_id starts memo
           | Some (r0, links) \<Rightarrow>
               (case fold_memo (rev links) r0 memo of
                  (tip, memo') \<Rightarrow> tip # materialize_starts n by_id starts memo')))"

text \<open>The stored checkpoints have distinct ids (one file per id), so the list is the id map.\<close>

definition materialize_all :: "checkpoint list \<Rightarrow> checkpoint list" where
  "materialize_all raw =
     materialize_starts (Suc (length raw)) (map_of (map (\<lambda>c. (cp_id c, c)) raw)) raw Map.empty"

definition ensure_supported_format :: "checkpoint_header \<Rightarrow> rusty_error + unit" where
  "ensure_supported_format header =
     (if CURRENT_FORMAT_VERSION < h_format_version header
      then Err (Checkpoint (UnsupportedFormat (h_format_version header)))
      else Ok ())"

section \<open>The in-memory store\<close>

type_synonym memory_store = "string \<Rightarrow> checkpoint list"

definition memory_put :: "checkpoint \<Rightarrow> memory_store \<Rightarrow> (rusty_error + unit) \<times> memory_store" where
  "memory_put cp st =
     (if \<exists>c \<in> set (st (cp_thread_id cp)). cp_id c = cp_id cp
      then (Err (Checkpoint (DuplicateCheckpoint (cp_id cp) (cp_thread_id cp))), st)
      else (Ok (), st(cp_thread_id cp := st (cp_thread_id cp) @ [cp])))"

definition memory_get_latest :: "memory_store \<Rightarrow> string \<Rightarrow> rusty_error + checkpoint option" where
  "memory_get_latest st thread = Ok (if st thread = [] then None else Some (last (st thread)))"

definition list_order :: "checkpoint list \<Rightarrow> checkpoint list" where
  "list_order cps = sort_key (\<lambda>c. (cp_step c, cp_created_at c, cp_id c)) cps"

definition memory_list :: "memory_store \<Rightarrow> string \<Rightarrow> rusty_error + checkpoint list" where
  "memory_list st thread = Ok (list_order (st thread))"

text \<open>The default methods of the trait, over any store's \<open>list\<close> and \<open>put\<close>.\<close>

definition default_get_by_id ::
  "('s \<Rightarrow> string \<Rightarrow> rusty_error + checkpoint list) \<Rightarrow> 's \<Rightarrow> string \<Rightarrow> string \<Rightarrow> rusty_error + checkpoint option" where
  "default_get_by_id lst st thread cid =
     rbind (lst st thread) (\<lambda>all. Ok (find (\<lambda>c. cp_id c = cid) all))"

fun select_upto :: "string \<Rightarrow> checkpoint list \<Rightarrow> checkpoint list option" where
  "select_upto cid [] = None"
| "select_upto cid (c # cs) =
     (if cp_id c = cid then Some [c] else map_option ((#) c) (select_upto cid cs))"

definition fork_select ::
  "string \<Rightarrow> string \<Rightarrow> string option \<Rightarrow> checkpoint list \<Rightarrow> rusty_error + checkpoint list" where
  "fork_select src dst at_id all =
     (if all = [] then Err (Checkpoint (ForkNothing src))
      else case at_id of
        None \<Rightarrow> Ok all
      | Some cid \<Rightarrow>
          (case select_upto cid all of
             None \<Rightarrow> Err (Checkpoint (ForkUnknownCheckpoint cid))
           | Some selected \<Rightarrow> Ok selected))"

fun put_all ::
  "(checkpoint \<Rightarrow> 's \<Rightarrow> (rusty_error + unit) \<times> 's) \<Rightarrow> checkpoint list \<Rightarrow> 's \<Rightarrow> (rusty_error + unit) \<times> 's" where
  "put_all put [] st = (Ok (), st)"
| "put_all put (c # cs) st =
     (case put c st of
        (Inl e, st') \<Rightarrow> (Err e, st')
      | (Inr _, st') \<Rightarrow> put_all put cs st')"

definition default_fork_thread ::
  "('s \<Rightarrow> string \<Rightarrow> rusty_error + checkpoint list) \<Rightarrow> (checkpoint \<Rightarrow> 's \<Rightarrow> (rusty_error + unit) \<times> 's) \<Rightarrow>
   string \<Rightarrow> string \<Rightarrow> string option \<Rightarrow> 's \<Rightarrow> (rusty_error + nat) \<times> 's" where
  "default_fork_thread lst put src dst at_id st =
     (if src = dst then (Err (Checkpoint (ForkOntoItself src)), st)
      else case rbind (lst st src) (fork_select src dst at_id) of
        Inl e \<Rightarrow> (Err e, st)
      | Inr selected \<Rightarrow>
          (case put_all put (map (\<lambda>c. c \<lparr> cp_thread_id := dst \<rparr>) selected) st of
             (Inl e, st') \<Rightarrow> (Err e, st')
           | (Inr _, st') \<Rightarrow> (Ok (length selected), st')))"


section \<open>Deltas restore what they encode\<close>

definition covers :: "checkpoint \<Rightarrow> checkpoint \<Rightarrow> bool" where
  "covers cp base \<longleftrightarrow> dom (map_of (cp_state base)) \<subseteq> dom (map_of (cp_state cp))"

lemma map_of_filter_distinct:
  "distinct (map fst m) \<Longrightarrow> map_of (filter P m) k = (case map_of m k of None \<Rightarrow> None | Some v \<Rightarrow> if P (k, v) then Some v else None)"
proof (induction m)
  case (Cons kv m)
  then have "map_of m (fst kv) = None" by (simp add: map_of_eq_None_iff)
  then show ?case using Cons by (cases kv) (auto split: option.splits)
qed simp

lemma map_of_changed:
  assumes "bt_inv st"
  shows "map_of (channels_changed_since st base) ch =
    (case map_of st ch of None \<Rightarrow> None | Some v \<Rightarrow> if map_of base ch = Some v then None else Some v)"
  using assms
  by (auto simp: channels_changed_since_def map_of_filter_distinct bt_inv_distinct split: option.splits)

lemma bt_inv_changed: "bt_inv st \<Longrightarrow> bt_inv (channels_changed_since st base)"
  by (simp add: channels_changed_since_def bt_inv_filter)

lemma overlay_changed:
  assumes "bt_inv st" "bt_inv base" "dom (map_of base) \<subseteq> dom (map_of st)"
  shows "fold (\<lambda>(k, v). bt_insert k v) (channels_changed_since st base) base = st"
proof (rule bt_ext)
  have ch: "bt_inv (channels_changed_since st base)" by (rule bt_inv_changed [OF assms(1)])
  have eq: "map_of (fold (\<lambda>(k, v). bt_insert k v) (channels_changed_since st base) base) =
      map_of base ++ map_of (channels_changed_since st base)"
    using bt.get_fold_ins_distinct [OF assms(2) bt_inv_distinct [OF ch]] .
  show "map_of (fold (\<lambda>(k, v). bt_insert k v) (channels_changed_since st base) base) = map_of st"
  proof
    fix k
    show "map_of (fold (\<lambda>(k, v). bt_insert k v) (channels_changed_since st base) base) k = map_of st k"
      using assms(3) unfolding eq
      by (cases "map_of st k") (auto simp: map_add_def map_of_changed [OF assms(1)] dom_def)
  qed
  show "bt_inv (fold (\<lambda>(k, v). bt_insert k v) (channels_changed_since st base) base)"
    by (rule bt.inv_fold_ins [OF assms(2)])
qed (rule assms(1))

text \<open>The two outcomes of the encoder.\<close>

lemma encode_delta_cases:
  assumes "bt_inv (cp_state cp)" "\<forall>h. head = Some h \<longrightarrow> bt_inv (cp_state (dh_checkpoint h)) \<and> covers cp (dh_checkpoint h)"
  obtains (full) "encode_delta sb cp head p = encoding_full cp"
  | (delta) h where "head = Some h" "encode_delta sb cp head p =
      \<lparr> de_checkpoint = cp \<lparr> cp_base := Some (cp_id (dh_checkpoint h)),
          cp_state := channels_changed_since (cp_state cp) (cp_state (dh_checkpoint h)) \<rparr>,
        de_chain_len = dh_chain_len h + 1 \<rparr>"
      "dh_chain_len h < max_chain_len p"
      "fold_delta (dh_checkpoint h) (de_checkpoint (encode_delta sb cp head p)) = cp \<lparr> cp_base := None \<rparr>"
proof (cases "encode_delta sb cp head p = encoding_full cp")
  case False
  then obtain h where h: "head = Some h" "dh_chain_len h < max_chain_len p"
    and e: "encode_delta sb cp head p = \<lparr> de_checkpoint = cp \<lparr> cp_base := Some (cp_id (dh_checkpoint h)),
          cp_state := bt_of_list (channels_changed_since (cp_state cp) (cp_state (dh_checkpoint h))) \<rparr>,
        de_chain_len = dh_chain_len h + 1 \<rparr>"
    by (auto simp: encode_delta_def Let_def split: option.splits if_splits)
  have b: "bt_of_list (channels_changed_since (cp_state cp) (cp_state (dh_checkpoint h))) =
      channels_changed_since (cp_state cp) (cp_state (dh_checkpoint h))"
    by (rule bt_of_list_id) (rule bt_inv_changed [OF assms(1)])
  have "fold (\<lambda>(k, v). bt_insert k v) (channels_changed_since (cp_state cp) (cp_state (dh_checkpoint h)))
      (cp_state (dh_checkpoint h)) = cp_state cp"
    using assms h(1) by (intro overlay_changed) (auto simp: covers_def)
  then have "fold_delta (dh_checkpoint h) (de_checkpoint (encode_delta sb cp head p)) = cp \<lparr> cp_base := None \<rparr>"
    by (simp add: e b fold_delta_def)
  then show thesis using delta [OF h(1)] e b h(2) by simp
qed

lemma fold_links_snoc:
  "fold_links tip (links @ [l]) = rbind (fold_links tip links) (\<lambda>t. fold_links t [l])"
  by (induction tip links rule: fold_links.induct) auto

lemma fold_chain_snoc:
  "chain \<noteq> [] \<Longrightarrow> fold_chain (chain @ [l]) = rbind (fold_chain chain) (\<lambda>t. fold_links t [l])"
  by (cases chain) (auto simp: fold_chain_def fold_links_snoc split: option.splits)

section \<open>Stored histories\<close>

text \<open>
  \<open>history_rep m raws hist n\<close>: the stored checkpoints \<open>raws\<close> represent the history \<open>hist\<close> of
  full checkpoints, oldest first, and the last one sits on \<open>n\<close> delta links, never more than
  \<open>m\<close>.
\<close>

definition supported :: "checkpoint \<Rightarrow> bool" where
  "supported c \<longleftrightarrow> h_format_version (cp_header c) \<le> CURRENT_FORMAT_VERSION"

inductive history_rep :: "nat \<Rightarrow> checkpoint list \<Rightarrow> checkpoint list \<Rightarrow> nat \<Rightarrow> bool" for m where
  rep_nil: "history_rep m [] [] 0"
| rep_full: "history_rep m raws hist n \<Longrightarrow> cp_base c = None \<Longrightarrow> cp_id c \<notin> set (map cp_id hist) \<Longrightarrow>
    supported c \<Longrightarrow> history_rep m (raws @ [c]) (hist @ [c]) 0"
| rep_delta: "history_rep m raws hist n \<Longrightarrow> hist \<noteq> [] \<Longrightarrow> cp_base r = Some (cp_id (last hist)) \<Longrightarrow>
    fold_delta (last hist) r = c \<Longrightarrow> cp_id r \<notin> set (map cp_id hist) \<Longrightarrow> supported r \<Longrightarrow> Suc n \<le> m \<Longrightarrow>
    history_rep m (raws @ [r]) (hist @ [c]) (Suc n)"

inductive_cases history_rep_snocE: "history_rep m raws (hist @ [c]) n"

lemma fold_delta_simps [simp]:
  "cp_id (fold_delta b d) = cp_id d" "cp_base (fold_delta b d) = None"
  "cp_header (fold_delta b d) = cp_header d" "cp_thread_id (fold_delta b d) = cp_thread_id d"
  by (simp_all add: fold_delta_def)

lemma rep_shape:
  "history_rep m raws hist n \<Longrightarrow> map cp_id raws = map cp_id hist \<and> distinct (map cp_id hist) \<and>
     (\<forall>r \<in> set raws. supported r) \<and> n \<le> m \<and> (hist \<noteq> [] \<longrightarrow> n < length raws)"
proof (induction rule: history_rep.induct)
  case (rep_delta raws hist n r c)
  then have "length raws = length hist" by (metis length_map)
  then show ?case using rep_delta by auto
qed auto

lemma rep_length: "history_rep m raws hist n \<Longrightarrow> length raws = length hist"
  by (metis rep_shape length_map)

lemma rep_prefix:
  "history_rep m raws hist n \<Longrightarrow> i \<le> length hist \<Longrightarrow> \<exists>k. history_rep m (take i raws) (take i hist) k"
proof (induction rule: history_rep.induct)
  case rep_nil
  then show ?case by (auto intro: history_rep.intros)
next
  case (rep_full raws hist n c)
  then show ?case
    using rep_length [OF rep_full.hyps(1)] history_rep.rep_full [OF rep_full.hyps]
    by (cases "i \<le> length hist") (auto simp: le_Suc_eq)
next
  case (rep_delta raws hist n r c)
  then show ?case
    using rep_length [OF rep_delta.hyps(1)] history_rep.rep_delta [OF rep_delta.hyps]
    by (cases "i \<le> length hist") (auto simp: le_Suc_eq)
qed

lemma rep_fold_chain:
  "history_rep m raws hist n \<Longrightarrow> hist \<noteq> [] \<Longrightarrow> fold_chain (drop (length raws - Suc n) raws) = Ok (last hist)"
proof (induction rule: history_rep.induct)
  case (rep_full raws hist n c)
  then show ?case by (simp add: fold_chain_def)
next
  case (rep_delta raws hist n r c)
  have len: "Suc n \<le> length raws" using rep_shape [OF rep_delta.hyps(1)] rep_delta.hyps(2) by simp
  then have d: "drop (length (raws @ [r]) - Suc (Suc n)) (raws @ [r]) = drop (length raws - Suc n) raws @ [r]"
    by simp
  have "drop (length raws - Suc n) raws \<noteq> []" using len by simp
  then show ?case
    unfolding d using rep_delta by (simp add: fold_chain_snoc)
qed simp


subsection \<open>Materializing a stored history\<close>

lemma rep_nth:
  assumes "history_rep m raws hist n" "i < length hist"
  shows "(cp_base (raws ! i) = None \<and> raws ! i = hist ! i) \<or>
    (0 < i \<and> cp_base (raws ! i) = Some (cp_id (raws ! (i - 1))) \<and>
     fold_delta (hist ! (i - 1)) (raws ! i) = hist ! i)"
  using assms
proof (induction rule: history_rep.induct)
  case (rep_full raws hist n c)
  then show ?case using rep_length [OF rep_full.hyps(1)] by (auto simp: nth_append less_Suc_eq)
next
  case (rep_delta raws hist n r c)
  have len: "length raws = length hist" by (rule rep_length [OF rep_delta.hyps(1)])
  have "map cp_id raws = map cp_id hist" using rep_shape [OF rep_delta.hyps(1)] by simp
  then have "cp_id (last hist) = cp_id (raws ! (length hist - 1))"
    using rep_delta.hyps(2) len by (metis last_conv_nth last_map map_is_Nil_conv length_0_conv)
  then show ?case
    using rep_delta len by (cases "i < length hist") (auto simp: nth_append last_conv_nth less_Suc_eq)
qed simp

definition memo_ok :: "checkpoint list \<Rightarrow> (string \<rightharpoonup> checkpoint) \<Rightarrow> bool" where
  "memo_ok hist memo \<longleftrightarrow> (\<forall>i < length hist. \<forall>c. memo (cp_id (hist ! i)) = Some c \<longrightarrow> c = hist ! i)"

lemma fold_memo_append:
  "fold_memo (xs @ ys) tip memo = (case fold_memo xs tip memo of (t, mm) \<Rightarrow> fold_memo ys t mm)"
  by (induction xs arbitrary: tip memo) (simp_all add: Let_def)

lemma distinct_id_nth:
  "distinct (map cp_id hist) \<Longrightarrow> i < length hist \<Longrightarrow> j < length hist \<Longrightarrow> cp_id (hist ! i) = cp_id (hist ! j) \<Longrightarrow> i = j"
  by (metis distinct_conv_nth length_map nth_map)

lemma memo_ok_update:
  assumes "memo_ok hist memo" "distinct (map cp_id hist)" "i < length hist"
  shows "memo_ok hist (memo(cp_id (hist ! i) \<mapsto> hist ! i))"
  using assms distinct_id_nth [OF assms(2)] unfolding memo_ok_def by (metis fun_upd_apply option.inject)

lemma rep_lookup:
  assumes "history_rep m raws hist n" "i < length hist"
  shows "map_of (map (\<lambda>c. (cp_id c, c)) raws) (cp_id (raws ! i)) = Some (raws ! i)"
proof -
  have "distinct (map fst (map (\<lambda>c. (cp_id c, c)) raws))"
    using rep_shape [OF assms(1)] by (simp add: comp_def)
  moreover have "(cp_id (raws ! i), raws ! i) \<in> set (map (\<lambda>c. (cp_id c, c)) raws)"
    using assms rep_length by (fastforce intro: nth_mem)
  ultimately show ?thesis by (rule map_of_is_SomeI)
qed

text \<open>
  Walking up from the stored checkpoint \<open>i\<close> finds links which, folded back down, give the full
  checkpoint \<open>i\<close>; the memo stays correct.
\<close>

lemma walk_base_rep:
  assumes rep: "history_rep m raws hist n" and by_id: "by_id = map_of (map (\<lambda>c. (cp_id c, c)) raws)"
    and memo: "memo_ok hist memo"
  shows "i < length hist \<Longrightarrow> i < fuel \<Longrightarrow> (\<forall>k \<le> i. cp_id (raws ! k) \<notin> set visiting) \<Longrightarrow>
    \<exists>r0 ls. walk_base fuel by_id memo visiting links (raws ! i) = Some (r0, links @ ls) \<and>
      (\<forall>mm. memo_ok hist mm \<longrightarrow> (\<exists>mm'. fold_memo (rev ls) r0 mm = (hist ! i, mm') \<and> memo_ok hist mm'))"
proof (induction i arbitrary: fuel visiting links rule: less_induct)
  case (less i)
  obtain f where f: "fuel = Suc f" using less.prems(2) by (cases fuel) auto
  have sh: "map cp_id raws = map cp_id hist" "distinct (map cp_id hist)" using rep_shape [OF rep] by auto
  have idi: "cp_id (raws ! k) = cp_id (hist ! k)" if "k < length hist" for k
    using sh(1) that rep_length [OF rep] by (metis nth_map)
  have nv: "cp_id (raws ! i) \<notin> set visiting" using less.prems(3) by simp
  show ?case
  proof (cases "memo (cp_id (raws ! i))")
    case (Some c)
    then have "c = hist ! i" using memo less.prems(1) idi by (simp add: memo_ok_def)
    then show ?thesis using Some f nv by auto
  next
    case None
    from rep_nth [OF rep less.prems(1)] show ?thesis
    proof
      assume "cp_base (raws ! i) = None \<and> raws ! i = hist ! i"
      then show ?thesis using None f nv by auto
    next
      assume d: "0 < i \<and> cp_base (raws ! i) = Some (cp_id (raws ! (i - 1))) \<and>
        fold_delta (hist ! (i - 1)) (raws ! i) = hist ! i"
      have lk: "by_id (cp_id (raws ! (i - 1))) = Some (raws ! (i - 1))"
        using rep_lookup [OF rep, of "i - 1"] less.prems(1) by (simp add: by_id)
      have vis: "\<forall>k \<le> i - 1. cp_id (raws ! k) \<notin> set (cp_id (raws ! i) # visiting)"
      proof (intro allI impI)
        fix k assume k: "k \<le> i - 1"
        then have "k < i" using d by auto
        then have "cp_id (raws ! k) \<noteq> cp_id (raws ! i)"
          using distinct_id_nth [OF sh(2), of k i] less.prems(1) idi by auto
        then show "cp_id (raws ! k) \<notin> set (cp_id (raws ! i) # visiting)"
          using less.prems(3) \<open>k < i\<close> by simp
      qed
      have "i - 1 < i" "i - 1 < length hist" "i - 1 < f" using d less.prems f by auto
      from less.IH [OF this vis, of "links @ [raws ! i]"] obtain r0 ls
        where w: "walk_base f by_id memo (cp_id (raws ! i) # visiting) (links @ [raws ! i]) (raws ! (i - 1)) =
            Some (r0, (links @ [raws ! i]) @ ls)"
          and fm: "\<And>mm. memo_ok hist mm \<Longrightarrow> \<exists>mm'. fold_memo (rev ls) r0 mm = (hist ! (i - 1), mm') \<and> memo_ok hist mm'"
        by blast
      have "\<exists>mm'. fold_memo (rev (raws ! i # ls)) r0 mm = (hist ! i, mm') \<and> memo_ok hist mm'"
        if "memo_ok hist mm" for mm
        using fm [OF that] d memo_ok_update [OF _ sh(2) less.prems(1)] idi [OF less.prems(1)]
        by (auto simp: fold_memo_append Let_def)
      then show ?thesis using w None nv d lk by (intro exI [of _ r0] exI [of _ "raws ! i # ls"]) (simp add: f)
    qed
  qed
qed

lemma materialize_rep:
  assumes rep: "history_rep m raws hist n"
  shows "materialize_all raws = hist"
proof -
  let ?by_id = "map_of (map (\<lambda>c. (cp_id c, c)) raws)"
  have len: "length raws = length hist" by (rule rep_length [OF rep])
  have ids: "cp_id (raws ! k) = cp_id (hist ! k)" if "k < length hist" for k
    using rep_shape [OF rep] that len by (metis nth_map)
  have "materialize_starts (Suc (length raws)) ?by_id (drop k raws) memo = drop k hist"
    if "k \<le> length hist" "memo_ok hist memo" for k memo
    using that
  proof (induction "length hist - k" arbitrary: k memo)
    case (Suc x)
    then have k: "k < length hist" by simp
    have dr: "drop k raws = raws ! k # drop (Suc k) raws" "drop k hist = hist ! k # drop (Suc k) hist"
      using k len by (simp_all add: Cons_nth_drop_Suc)
    have IH: "memo_ok hist mm \<Longrightarrow> materialize_starts (Suc (length raws)) ?by_id (drop (Suc k) raws) mm = drop (Suc k) hist" for mm
      using Suc.hyps(1) [of "Suc k" mm] Suc.hyps(2) k by simp
    show ?case
    proof (cases "memo (cp_id (raws ! k))")
      case (Some c)
      then have "c = hist ! k" using Suc.prems(2) k ids by (simp add: memo_ok_def)
      then show ?thesis using Some IH [OF Suc.prems(2)] by (simp add: dr)
    next
      case None
      obtain r0 ls mm' where "walk_base (Suc (length raws)) ?by_id memo [] [] (raws ! k) = Some (r0, ls)"
        "fold_memo (rev ls) r0 memo = (hist ! k, mm')" "memo_ok hist mm'"
        using walk_base_rep [OF rep refl Suc.prems(2) k, of "Suc (length raws)" "[]" "[]"] Suc.prems(2) k len
        by auto
      then show ?thesis using None IH by (simp add: dr)
    qed
  qed (use len in simp)
  from this [of 0 Map.empty] show ?thesis by (simp add: materialize_all_def memo_ok_def)
qed


section \<open>The checkpointer interface\<close>

text \<open>
  What a client of a checkpoint store may rely on, stated against the history of each thread:
  the checkpoints put so far, in put order.  \<open>rep\<close> relates a store to the histories it holds
  and \<open>admit\<close> says which checkpoints a backend accepts next.
\<close>

type_synonym histories = "string \<Rightarrow> checkpoint list"

definition push_history :: "histories \<Rightarrow> checkpoint \<Rightarrow> histories" where
  "push_history hs c = hs(cp_thread_id c := hs (cp_thread_id c) @ [c])"

definition fresh_id :: "histories \<Rightarrow> checkpoint \<Rightarrow> bool" where
  "fresh_id hs c \<longleftrightarrow> cp_id c \<notin> set (map cp_id (hs (cp_thread_id c)))"

text \<open>A sequence of checkpoints a backend accepts one after the other.\<close>

fun admitted :: "(histories \<Rightarrow> checkpoint \<Rightarrow> bool) \<Rightarrow> histories \<Rightarrow> checkpoint list \<Rightarrow> bool" where
  "admitted admit hs [] \<longleftrightarrow> True"
| "admitted admit hs (c # cs) \<longleftrightarrow> admit hs c \<and> fresh_id hs c \<and> admitted admit (push_history hs c) cs"

lemma admitted_mono:
  "(\<And>hs c. admit hs c \<Longrightarrow> admit' hs c) \<Longrightarrow> admitted admit hs cs \<Longrightarrow> admitted admit' hs cs"
  by (induction cs arbitrary: hs) auto

locale checkpointer =
  fixes put :: "checkpoint \<Rightarrow> 's \<Rightarrow> (rusty_error + unit) \<times> 's"
    and latest :: "'s \<Rightarrow> string \<Rightarrow> rusty_error + checkpoint option"
    and lst :: "'s \<Rightarrow> string \<Rightarrow> rusty_error + checkpoint list"
    and rep :: "'s \<Rightarrow> histories \<Rightarrow> bool"
    and admit :: "histories \<Rightarrow> checkpoint \<Rightarrow> bool"
  assumes put_fresh: "rep s hs \<Longrightarrow> admit hs c \<Longrightarrow> fresh_id hs c \<Longrightarrow>
      \<exists>s'. put c s = (Ok (), s') \<and> rep s' (push_history hs c)"
    and put_taken: "rep s hs \<Longrightarrow> \<not> fresh_id hs c \<Longrightarrow> \<exists>e. put c s = (Err e, s)"
    and latest_rep: "rep s hs \<Longrightarrow> latest s t = Ok (if hs t = [] then None else Some (last (hs t)))"
    and lst_rep: "rep s hs \<Longrightarrow> lst s t = Ok (list_order (hs t))"
begin

lemma put_all_rep:
  "rep s hs \<Longrightarrow> admitted admit hs cs \<Longrightarrow>
     \<exists>s'. put_all put cs s = (Ok (), s') \<and> rep s' (foldl push_history hs cs)"
proof (induction cs arbitrary: s hs)
  case (Cons c cs)
  then obtain s1 where "put c s = (Ok (), s1)" "rep s1 (push_history hs c)"
    using put_fresh by force
  then show ?case using Cons by auto
qed auto

lemma latest_after_put:
  "rep s hs \<Longrightarrow> admit hs c \<Longrightarrow> fresh_id hs c \<Longrightarrow> latest (snd (put c s)) (cp_thread_id c) = Ok (Some c)"
  using put_fresh [of s hs c] latest_rep by (fastforce simp: push_history_def)

lemma other_threads:
  "rep s hs \<Longrightarrow> admit hs c \<Longrightarrow> fresh_id hs c \<Longrightarrow> t \<noteq> cp_thread_id c \<Longrightarrow>
     latest (snd (put c s)) t = latest s t \<and> lst (snd (put c s)) t = lst s t"
  using put_fresh [of s hs c] latest_rep lst_rep by (fastforce simp: push_history_def)

lemma by_id_rep:
  "rep s hs \<Longrightarrow> default_get_by_id lst s t cid = Ok (find (\<lambda>c. cp_id c = cid) (list_order (hs t)))"
  by (simp add: default_get_by_id_def lst_rep)

end

lemma find_distinct_id:
  "distinct (map cp_id cs) \<Longrightarrow> c \<in> set cs \<Longrightarrow> find (\<lambda>x. cp_id x = cp_id c) cs = Some c"
  by (induction cs) auto

lemma set_list_order [simp]: "set (list_order cs) = set cs"
  by (simp add: list_order_def)

lemma distinct_list_order: "distinct (map cp_id (list_order cs)) \<longleftrightarrow> distinct (map cp_id cs)"
proof -
  have "mset (map cp_id (list_order cs)) = mset (map cp_id cs)" by (simp add: list_order_def)
  then show ?thesis by (metis mset_eq_imp_distinct_iff)
qed

definition memory_rep :: "memory_store \<Rightarrow> histories \<Rightarrow> bool" where
  "memory_rep st hs \<longleftrightarrow> st = hs"

lemma memory_put_eq:
  "memory_put c st = (if fresh_id st c then (Ok (), push_history st c)
     else (Err (Checkpoint (DuplicateCheckpoint (cp_id c) (cp_thread_id c))), st))"
proof -
  have "(\<exists>x \<in> set (st (cp_thread_id c)). cp_id x = cp_id c) \<longleftrightarrow> \<not> fresh_id st c"
    unfolding fresh_id_def set_map image_iff by metis
  then show ?thesis by (simp add: memory_put_def push_history_def)
qed

interpretation mem: checkpointer memory_put memory_get_latest memory_list memory_rep "\<lambda>_ _. True"
  by unfold_locales (simp_all add: memory_rep_def memory_put_eq memory_get_latest_def memory_list_def)


section \<open>Properties of the delta encoding\<close>

text \<open>
  C33: a delta checkpoint restores exactly what was put.  For a checkpoint that still has
  every channel of the thread's head, whatever the encoder decides to store is either the full
  checkpoint or a delta that names the head, stays within the chain bound and folds back onto
  the head to the checkpoint that was put.
\<close>

theorem encode_fold_roundtrip:
  assumes "bt_inv (cp_state cp)" "bt_inv (cp_state (dh_checkpoint h))" "covers cp (dh_checkpoint h)"
  shows "let enc = encode_delta sb cp (Some h) p; stored = de_checkpoint enc in
    (cp_base stored = None \<and> stored = cp \<lparr> cp_base := None \<rparr> \<and> de_chain_len enc = 0) \<or>
    (cp_base stored = Some (cp_id (dh_checkpoint h)) \<and>
     fold_delta (dh_checkpoint h) stored = cp \<lparr> cp_base := None \<rparr> \<and>
     de_chain_len enc = dh_chain_len h + 1 \<and> de_chain_len enc \<le> max_chain_len p)"
proof -
  have side: "\<forall>h'. Some h = Some h' \<longrightarrow> bt_inv (cp_state (dh_checkpoint h')) \<and> covers cp (dh_checkpoint h')"
    using assms by simp
  show ?thesis
    by (rule encode_delta_cases [OF assms(1) side, of sb p]) (simp_all add: encoding_full_def)
qed

definition demo_cp :: "string \<Rightarrow> nat \<Rightarrow> channel_state \<Rightarrow> checkpoint" where
  "demo_cp i n st = \<lparr> cp_id = i, cp_thread_id = ''t'', cp_step = n, cp_state = st, cp_next_nodes = [],
     cp_created_at = n, cp_base = None, cp_header = default_header, cp_journal_ref = None \<rparr>"

theorem encode_fold_roundtrip_witness:
  "\<exists>stored. fold_delta (demo_cp ''a'' 0 [(''x'', JNull), (''y'', JNull)]) stored =
     demo_cp ''b'' 1 [(''x'', JNull), (''y'', JBool True)] \<and> cp_base stored = Some ''a''"
proof -
  let ?h = "\<lparr> dh_checkpoint = demo_cp ''a'' 0 [(''x'', JNull), (''y'', JNull)], dh_chain_len = 0 \<rparr>"
  let ?c = "demo_cp ''b'' 1 [(''x'', JNull), (''y'', JBool True)]"
  let ?p = "\<lparr> max_chain_len = 3, max_byte_ratio = 1 \<rparr>"
  have "bt_inv (cp_state ?c)" "bt_inv (cp_state (dh_checkpoint ?h))" "covers ?c (dh_checkpoint ?h)"
    by (auto simp: demo_cp_def bt_inv_def covers_def)
  note rt = encode_fold_roundtrip [OF this, of "\<lambda>st. length st" ?p]
  have "f64_mul 1 (f64_of_nat (Suc (Suc 0))) = 2" "f64_of_nat (Suc 0) = 1"
    using f64_round_nat [of "Suc 0"] f64_round_nat [of "Suc (Suc 0)"]
    by (simp_all add: f64_mul_def f64_of_nat_def)
  then have "cp_base (de_checkpoint (encode_delta (\<lambda>st. length st) ?c (Some ?h) ?p)) = Some ''a''"
    by (simp add: encode_delta_def deltas_enabled_def demo_cp_def channels_changed_since_def
        bt_of_list_def bt_insert_all_def Let_def)
  moreover have "?c \<lparr> cp_base := None \<rparr> = ?c" by (simp add: demo_cp_def)
  ultimately show ?thesis
    using rt by (intro exI [of _ "de_checkpoint (encode_delta (\<lambda>st. length st) ?c (Some ?h) ?p)"])
      (simp add: Let_def)
qed

text \<open>
  Without the condition on channels the round trip fails: a channel of the head that the new
  checkpoint does not have comes back when the delta is folded.
\<close>

lemma dropped_channel_comes_back:
  "fold_delta (demo_cp ''a'' 0 [(''x'', JNull), (''y'', JNull)])
     (de_checkpoint (encode_delta (\<lambda>st. length st) (demo_cp ''b'' 1 [(''x'', JNull)])
        (Some \<lparr> dh_checkpoint = demo_cp ''a'' 0 [(''x'', JNull), (''y'', JNull)], dh_chain_len = 0 \<rparr>)
        \<lparr> max_chain_len = 3, max_byte_ratio = 1 \<rparr>)) \<noteq> demo_cp ''b'' 1 [(''x'', JNull)]"
proof -
  have "f64_mul 1 (f64_of_nat (Suc 0)) = 1" "f64_of_nat 0 = 0"
    using f64_round_nat [of "Suc 0"] f64_round_nat [of 0] by (simp_all add: f64_mul_def f64_of_nat_def)
  then show ?thesis
    by (simp add: encode_delta_def deltas_enabled_def demo_cp_def channels_changed_since_def
        bt_of_list_def bt_insert_all_def fold_delta_def Let_def)
qed

text \<open>
  A fork copies in listing order, so after a replay the newest checkpoint of the fork need not
  be the newest of its source.
\<close>

lemma fork_latest_differs:
  assumes "st = (\<lambda>t. if t = ''t'' then [demo_cp ''a'' 5 [], demo_cp ''b'' 2 []] else [])"
    "st' = snd (default_fork_thread memory_list memory_put ''t'' ''u'' None st)"
  shows "memory_get_latest st' ''t'' = Ok (Some (demo_cp ''b'' 2 []))"
    "memory_get_latest st' ''u'' = Ok (Some ((demo_cp ''a'' 5 []) \<lparr> cp_thread_id := ''u'' \<rparr>))"
  unfolding assms
  by (simp_all add: default_fork_thread_def memory_list_def list_order_def fork_select_def memory_put_def
      memory_get_latest_def demo_cp_def)

end
