(* ===== verification/File_Checkpoints.thy ===== *)
theory File_Checkpoints
  imports Checkpoints
begin

text \<open>
  The file-backed store (checkpoint.rs, \<open>JsonFileCheckpointer\<close>).  A put happens under the
  thread's lock and is one step here.  The store is shown to refine the
  plain per-thread histories that the in-memory store keeps, with the chains of deltas it writes
  bounded by the policy.
\<close>

section \<open>The file store\<close>

datatype file_content = Readable checkpoint | Garbled

datatype read_failure = ReadCorrupt rusty_error | ReadUnsupported rusty_error

record thread_dir =
  td_files :: "(string \<times> file_content) list"
  td_latest :: "string option"

record json_store =
  js_dirs :: "string \<Rightarrow> thread_dir"
  js_heads :: "string \<rightharpoonup> delta_head"
  js_policy :: delta_policy

definition json_store_new :: "delta_policy \<Rightarrow> json_store" where
  "json_store_new policy = \<lparr> js_dirs = (\<lambda>_. \<lparr> td_files = [], td_latest = None \<rparr>), js_heads = Map.empty,
     js_policy = policy \<rparr>"

definition into_error :: "read_failure \<Rightarrow> rusty_error" where
  "into_error f = (case f of ReadCorrupt e \<Rightarrow> e | ReadUnsupported e \<Rightarrow> e)"

definition read_file :: "file_content option \<Rightarrow> string \<Rightarrow> read_failure + checkpoint" where
  "read_file content cid =
     (case content of
        Some (Readable cp) \<Rightarrow>
          (case ensure_supported_format (cp_header cp) of
             Inl e \<Rightarrow> Inl (ReadUnsupported e)
           | Inr _ \<Rightarrow> Inr cp)
      | _ \<Rightarrow> Inl (ReadCorrupt (Checkpoint (UnreadableFile cid))))"

definition read_checkpoint :: "thread_dir \<Rightarrow> string \<Rightarrow> read_failure + checkpoint" where
  "read_checkpoint d cid = read_file (map_of (td_files d) cid) cid"

fun scan_files :: "(string \<times> file_content) list \<Rightarrow> rusty_error + checkpoint list" where
  "scan_files [] = Ok []"
| "scan_files ((cid, content) # fs) =
     (case read_file (Some content) cid of
        Inr cp \<Rightarrow> rbind (scan_files fs) (\<lambda>cps. Ok (cp # cps))
      | Inl (ReadUnsupported e) \<Rightarrow> Err e
      | Inl (ReadCorrupt _) \<Rightarrow> scan_files fs)"

definition scan_thread_raw :: "thread_dir \<Rightarrow> rusty_error + checkpoint list" where
  "scan_thread_raw d = scan_files (td_files d)"

text \<open>\<open>str::trim\<close> on the ASCII white space.\<close>

definition is_space :: "char \<Rightarrow> bool" where
  "is_space c \<longleftrightarrow> c \<in> {CHR '' '', CHR 0x09, CHR 0x0A, CHR 0x0B, CHR 0x0C, CHR 0x0D}"

definition trim :: "string \<Rightarrow> string" where
  "trim s = rev (dropWhile is_space (rev (dropWhile is_space s)))"

text \<open>\<open>Iterator::max_by\<close>: the last of the greatest elements.\<close>

fun max_by_key :: "('a \<Rightarrow> 'k::linorder) \<Rightarrow> 'a list \<Rightarrow> 'a option" where
  "max_by_key key [] = None"
| "max_by_key key (x # xs) = Some (foldl (\<lambda>m y. if key y < key m then m else y) x xs)"

definition read_latest_raw :: "thread_dir \<Rightarrow> rusty_error + checkpoint option" where
  "read_latest_raw d =
     (let fallback = rbind (scan_thread_raw d) (\<lambda>cps. Ok (max_by_key (\<lambda>c. (cp_created_at c, cp_id c)) cps))
      in case td_latest d of
           None \<Rightarrow> fallback
         | Some bytes \<Rightarrow>
             let cid = trim bytes
             in if cid = [] then fallback
                else (case read_checkpoint d cid of
                        Inr cp \<Rightarrow> Ok (Some cp)
                      | Inl (ReadUnsupported e) \<Rightarrow> Err e
                      | Inl (ReadCorrupt _) \<Rightarrow> fallback))"

definition fold_bound :: "delta_policy \<Rightarrow> nat" where
  "fold_bound policy = max (min (max_chain_len policy * 4) (2 ^ 64 - 1)) 128"

text \<open>
  The chain is built tip first and reversed at the end; the bound on its length makes the loop
  terminate.
\<close>

function load_chain_loop ::
  "thread_dir \<Rightarrow> nat \<Rightarrow> string set \<Rightarrow> checkpoint list \<Rightarrow> rusty_error + checkpoint list" where
  "load_chain_loop d bound visited chain =
     (case cp_base (last chain) of
        None \<Rightarrow> Ok (rev chain)
      | Some base_id \<Rightarrow>
          if base_id \<in> visited then Err (Checkpoint (ChainCycle base_id))
          else if bound < length chain then Err (Checkpoint (ChainTooLong bound))
          else (case read_checkpoint d base_id of
                  Inl f \<Rightarrow> Err (into_error f)
                | Inr base \<Rightarrow> load_chain_loop d bound (insert base_id visited) (chain @ [base])))"
  by pat_completeness auto
termination
  by (relation "measure (\<lambda>(d, bound, visited, chain). Suc bound - length chain)") auto

declare load_chain_loop.simps [simp del]

definition load_chain :: "delta_policy \<Rightarrow> thread_dir \<Rightarrow> checkpoint \<Rightarrow> rusty_error + checkpoint list" where
  "load_chain policy d tip = load_chain_loop d (fold_bound policy) {} [tip]"

definition head_of :: "string \<Rightarrow> json_store \<Rightarrow> (rusty_error + delta_head option) \<times> json_store" where
  "head_of thread st =
     (case js_heads st thread of
        Some h \<Rightarrow> (Ok (Some h), st)
      | None \<Rightarrow>
          (case read_latest_raw (js_dirs st thread) of
             Inl e \<Rightarrow> (Err e, st)
           | Inr None \<Rightarrow> (Ok None, st)
           | Inr (Some raw) \<Rightarrow>
               (case rbind (load_chain (js_policy st) (js_dirs st thread) raw) (\<lambda>chain.
                       rbind (fold_chain chain) (\<lambda>cp.
                         Ok \<lparr> dh_checkpoint = cp, dh_chain_len = length chain - 1 \<rparr>)) of
                  Inl e \<Rightarrow> (Err e, st)
                | Inr h \<Rightarrow> (Ok (Some h), st \<lparr> js_heads := (js_heads st)(thread \<mapsto> h) \<rparr>))))"

definition put_internal ::
  "(channel_state \<Rightarrow> nat) \<Rightarrow> bool \<Rightarrow> checkpoint \<Rightarrow> json_store \<Rightarrow> (rusty_error + unit) \<times> json_store" where
  "put_internal state_bytes force_full cp st =
     (let thread = cp_thread_id cp; d = js_dirs st thread in
      if map_of (td_files d) (cp_id cp) \<noteq> None
      then (Err (Checkpoint (DuplicateCheckpoint (cp_id cp) thread)), st)
      else case (if force_full then (Ok (encoding_full cp), st)
                 else case head_of thread st of
                   (Inl e, st1) \<Rightarrow> (Err e, st1)
                 | (Inr h, st1) \<Rightarrow> (Ok (encode_delta state_bytes cp h (js_policy st)), st1)) of
        (Inl e, st1) \<Rightarrow> (Err e, st1)
      | (Inr encoding, st1) \<Rightarrow>
          (Ok (), st1 \<lparr> js_dirs := (js_dirs st1)(thread :=
                 \<lparr> td_files = td_files d @ [(cp_id cp, Readable (de_checkpoint encoding))],
                   td_latest = Some (cp_id cp) \<rparr>),
               js_heads := (js_heads st1)(thread \<mapsto>
                 \<lparr> dh_checkpoint = cp, dh_chain_len = de_chain_len encoding \<rparr>) \<rparr>))"

definition json_put ::
  "(channel_state \<Rightarrow> nat) \<Rightarrow> checkpoint \<Rightarrow> json_store \<Rightarrow> (rusty_error + unit) \<times> json_store" where
  "json_put state_bytes cp st = put_internal state_bytes False cp st"

definition fold_raw :: "delta_policy \<Rightarrow> thread_dir \<Rightarrow> checkpoint \<Rightarrow> rusty_error + checkpoint option" where
  "fold_raw policy d raw =
     (if cp_base raw = None then Ok (Some raw)
      else rbind (load_chain policy d raw) (\<lambda>chain. rbind (fold_chain chain) (\<lambda>cp. Ok (Some cp))))"

definition json_get_latest :: "json_store \<Rightarrow> string \<Rightarrow> rusty_error + checkpoint option" where
  "json_get_latest st thread =
     rbind (read_latest_raw (js_dirs st thread)) (\<lambda>raw.
       case raw of None \<Rightarrow> Ok None | Some raw \<Rightarrow> fold_raw (js_policy st) (js_dirs st thread) raw)"

definition json_list :: "json_store \<Rightarrow> string \<Rightarrow> rusty_error + checkpoint list" where
  "json_list st thread =
     rbind (scan_thread_raw (js_dirs st thread)) (\<lambda>raw. Ok (list_order (materialize_all raw)))"

definition json_get_by_id :: "json_store \<Rightarrow> string \<Rightarrow> string \<Rightarrow> rusty_error + checkpoint option" where
  "json_get_by_id st thread cid =
     (case read_checkpoint (js_dirs st thread) cid of
        Inl (ReadUnsupported e) \<Rightarrow> Err e
      | Inl (ReadCorrupt _) \<Rightarrow> rbind (json_list st thread) (\<lambda>all. Ok (find (\<lambda>c. cp_id c = cid) all))
      | Inr raw \<Rightarrow> fold_raw (js_policy st) (js_dirs st thread) raw)"

definition json_fork_thread ::
  "(channel_state \<Rightarrow> nat) \<Rightarrow> string \<Rightarrow> string \<Rightarrow> string option \<Rightarrow> json_store \<Rightarrow> (rusty_error + nat) \<times> json_store" where
  "json_fork_thread state_bytes src dst at_id st =
     (if src = dst then (Err (Checkpoint (ForkOntoItself src)), st)
      else case rbind (json_list st src) (fork_select src dst at_id) of
        Inl e \<Rightarrow> (Err e, st)
      | Inr selected \<Rightarrow>
          (case put_all (put_internal state_bytes True)
                  (map (\<lambda>c. c \<lparr> cp_thread_id := dst, cp_base := None \<rparr>) selected) st of
             (Inl e, st') \<Rightarrow> (Err e, st')
           | (Inr _, st') \<Rightarrow> (Ok (length selected), st')))"


section \<open>The file store refines the histories\<close>

definition plain_id :: "string \<Rightarrow> bool" where
  "plain_id i \<longleftrightarrow> i \<noteq> [] \<and> trim i = i"

definition dir_of :: "checkpoint list \<Rightarrow> thread_dir" where
  "dir_of raws = \<lparr> td_files = map (\<lambda>r. (cp_id r, Readable r)) raws,
     td_latest = (if raws = [] then None else Some (cp_id (last raws))) \<rparr>"

definition head_ok :: "delta_head option \<Rightarrow> checkpoint list \<Rightarrow> nat \<Rightarrow> bool" where
  "head_ok head hist n \<longleftrightarrow>
     (case head of None \<Rightarrow> True
      | Some h \<Rightarrow> hist \<noteq> [] \<and> dh_checkpoint h = last hist \<and> dh_chain_len h = n)"

definition json_rep :: "json_store \<Rightarrow> histories \<Rightarrow> bool" where
  "json_rep st hs \<longleftrightarrow> max_chain_len (js_policy st) < 2 ^ 64 \<and>
     (\<forall>t. (\<forall>c \<in> set (hs t). bt_inv (cp_state c) \<and> plain_id (cp_id c)) \<and>
        (\<exists>raws n. history_rep (max_chain_len (js_policy st)) raws (hs t) n \<and> js_dirs st t = dir_of raws \<and>
           head_ok (js_heads st t) (hs t) n))"

definition json_admit :: "histories \<Rightarrow> checkpoint \<Rightarrow> bool" where
  "json_admit hs c \<longleftrightarrow> cp_base c = None \<and> supported c \<and> bt_inv (cp_state c) \<and> plain_id (cp_id c) \<and>
     (hs (cp_thread_id c) \<noteq> [] \<longrightarrow> covers c (last (hs (cp_thread_id c))))"

lemma read_checkpoint_dir:
  assumes "history_rep m raws hist n" "r \<in> set raws"
  shows "read_checkpoint (dir_of raws) (cp_id r) = Inr r"
proof -
  have "distinct (map fst (map (\<lambda>r. (cp_id r, Readable r)) raws))"
    using rep_shape [OF assms(1)] by (simp add: comp_def)
  then have "map_of (map (\<lambda>r. (cp_id r, Readable r)) raws) (cp_id r) = Some (Readable r)"
    using assms(2) by (intro map_of_is_SomeI) auto
  moreover have "supported r" using rep_shape [OF assms(1)] assms(2) by blast
  ultimately show ?thesis
    by (simp add: read_checkpoint_def read_file_def dir_of_def ensure_supported_format_def supported_def)
qed

lemma scan_dir:
  assumes "history_rep m raws hist n"
  shows "scan_thread_raw (dir_of raws) = Ok raws"
proof -
  have "\<forall>r \<in> set raws. supported r" using rep_shape [OF assms] by blast
  then show ?thesis unfolding scan_thread_raw_def dir_of_def
    by (induction raws) (auto simp: read_file_def ensure_supported_format_def supported_def)
qed

lemma read_latest_dir:
  assumes "history_rep m raws hist n" "\<forall>c \<in> set hist. plain_id (cp_id c)"
  shows "read_latest_raw (dir_of raws) = Ok (if raws = [] then None else Some (last raws))"
proof (cases "raws = []")
  case True
  then show ?thesis by (simp add: read_latest_raw_def dir_of_def scan_thread_raw_def)
next
  case False
  then have "hist \<noteq> []" using rep_length [OF assms(1)] by auto
  have "cp_id (last raws) = cp_id (last hist)"
    using rep_shape [OF assms(1)] False \<open>hist \<noteq> []\<close> by (metis last_map)
  then have "plain_id (cp_id (last raws))" using assms(2) \<open>hist \<noteq> []\<close> by simp
  moreover have "read_checkpoint (dir_of raws) (cp_id (last raws)) = Inr (last raws)"
    using read_checkpoint_dir [OF assms(1)] False by simp
  moreover have "td_latest (dir_of raws) = Some (cp_id (last raws))" using False by (simp add: dir_of_def)
  ultimately show ?thesis using False by (simp add: read_latest_raw_def plain_id_def Let_def)
qed

text \<open>
  Loading the chain that ends in the last checkpoint of a represented history, from a
  directory that holds at least that history.
\<close>

lemma load_chain_rep:
  "history_rep m raws hist n \<Longrightarrow> hist \<noteq> [] \<Longrightarrow>
   (\<forall>r \<in> set raws. read_checkpoint d (cp_id r) = Inr r) \<Longrightarrow> visited \<inter> set (map cp_id (butlast raws)) = {} \<Longrightarrow>
   length acc + n \<le> bound \<Longrightarrow>
   load_chain_loop d bound visited (acc @ [last raws]) = Ok (drop (length raws - Suc n) raws @ rev acc)"
proof (induction arbitrary: visited acc rule: history_rep.induct)
  case (rep_full raws hist n c)
  then show ?case by (simp add: load_chain_loop.simps)
next
  case (rep_delta raws hist n r c)
  have sh: "map cp_id raws = map cp_id hist" "Suc n \<le> length raws" "distinct (map cp_id raws)"
    using rep_shape [OF rep_delta.hyps(1)] rep_delta.hyps(2) by auto
  have ne: "raws \<noteq> []" using sh(2) by auto
  have b: "cp_base r = Some (cp_id (last raws))"
    using rep_delta.hyps(2,3) sh(1) ne by (metis last_map)
  have rd: "read_checkpoint d (cp_id (last raws)) = Inr (last raws)" using rep_delta.prems(2) ne by simp
  have nv: "cp_id (last raws) \<notin> visited" using rep_delta.prems(3) ne by auto
  have "insert (cp_id (last raws)) visited \<inter> set (map cp_id (butlast raws)) = {}"
  proof -
    have "map cp_id raws = map cp_id (butlast raws) @ [cp_id (last raws)]"
      using ne by (metis append_butlast_last_id list.simps(8,9) map_append)
    then have "cp_id (last raws) \<notin> set (map cp_id (butlast raws))" using sh(3) by simp
    moreover have "visited \<inter> set (map cp_id raws) = {}" using rep_delta.prems(3) by simp
    ultimately show ?thesis by (auto dest: in_set_butlastD)
  qed
  from rep_delta.IH [OF rep_delta.hyps(2) _ this, of "acc @ [r]"] rep_delta.prems(2,4)
  have "load_chain_loop d bound (insert (cp_id (last raws)) visited) ((acc @ [r]) @ [last raws]) =
      Ok (drop (length raws - Suc n) raws @ rev (acc @ [r]))" by simp
  then show ?case
    using b nv rd rep_delta.prems(4) sh(2)
    by (simp add: load_chain_loop.simps [of d bound visited "acc @ [r]"])
qed simp

lemma fold_bound_enough: "m < 2 ^ 64 \<Longrightarrow> max_chain_len p = m \<Longrightarrow> n \<le> m \<Longrightarrow> n \<le> fold_bound p"
  by (auto simp: fold_bound_def)

lemma load_fold_rep:
  assumes "history_rep (max_chain_len p) raws hist n" "hist \<noteq> []" "max_chain_len p < 2 ^ 64"
    "\<forall>r \<in> set raws. read_checkpoint d (cp_id r) = Inr r"
  shows "\<exists>chain. load_chain p d (last raws) = Ok chain \<and> fold_chain chain = Ok (last hist) \<and> length chain = Suc n"
proof -
  have sh: "n \<le> max_chain_len p" "Suc n \<le> length raws" using rep_shape [OF assms(1)] assms(2) by auto
  have "load_chain p d (last raws) = Ok (drop (length raws - Suc n) raws)"
    using load_chain_rep [OF assms(1,2,4), of "{}" "[]" "fold_bound p"]
      fold_bound_enough [OF assms(3) refl sh(1)] by (simp add: load_chain_def)
  then show ?thesis using rep_fold_chain [OF assms(1,2)] sh(2) by auto
qed

lemma fold_raw_rep:
  assumes "history_rep (max_chain_len p) raws hist n" "hist \<noteq> []" "max_chain_len p < 2 ^ 64"
    "\<forall>r \<in> set raws. read_checkpoint d (cp_id r) = Inr r"
  shows "fold_raw p d (last raws) = Ok (Some (last hist))"
proof (cases "cp_base (last raws)")
  case None
  have "raws \<noteq> []" using assms(1,2) rep_length by fastforce
  then have "last raws = last hist"
    using rep_nth [OF assms(1), of "length hist - 1"] None assms(2) rep_length [OF assms(1)]
    by (auto simp: last_conv_nth)
  then show ?thesis using None by (simp add: fold_raw_def)
next
  case (Some b)
  then show ?thesis using load_fold_rep [OF assms] by (auto simp: fold_raw_def)
qed

lemma dir_of_reads: "history_rep m raws hist n \<Longrightarrow> \<forall>r \<in> set raws. read_checkpoint (dir_of raws) (cp_id r) = Inr r"
  using read_checkpoint_dir by blast


lemma head_of_rep:
  assumes rep: "history_rep (max_chain_len (js_policy st)) raws hist n" "js_dirs st t = dir_of raws"
    and head: "head_ok (js_heads st t) hist n" and len: "max_chain_len (js_policy st) < 2 ^ 64"
    and plain: "\<forall>c \<in> set hist. plain_id (cp_id c)"
  shows "\<exists>st'. head_of t st = (Ok (if hist = [] then None else Some \<lparr> dh_checkpoint = last hist, dh_chain_len = n \<rparr>), st') \<and>
    js_dirs st' = js_dirs st \<and> js_policy st' = js_policy st \<and> (\<forall>t'. t' \<noteq> t \<longrightarrow> js_heads st' t' = js_heads st t')"
proof (cases "js_heads st t")
  case (Some h)
  then have "h = \<lparr> dh_checkpoint = last hist, dh_chain_len = n \<rparr>" "hist \<noteq> []"
    using head by (auto simp: head_ok_def)
  then show ?thesis using Some by (simp add: head_of_def)
next
  case None
  note lat = read_latest_dir [OF rep(1) plain]
  show ?thesis
  proof (cases "hist = []")
    case True
    then have "raws = []" using rep_length [OF rep(1)] by simp
    then show ?thesis using None True lat by (simp add: head_of_def rep(2))
  next
    case False
    then have "raws \<noteq> []" using rep_length [OF rep(1)] by auto
    obtain chain where "load_chain (js_policy st) (dir_of raws) (last raws) = Ok chain"
      "fold_chain chain = Ok (last hist)" "length chain = Suc n"
      using load_fold_rep [OF rep(1) False len dir_of_reads [OF rep(1)]] by blast
    then show ?thesis using None False \<open>raws \<noteq> []\<close> lat by (simp add: head_of_def rep(2))
  qed
qed

lemma dir_of_snoc:
  "dir_of (raws @ [r]) = \<lparr> td_files = td_files (dir_of raws) @ [(cp_id r, Readable r)], td_latest = Some (cp_id r) \<rparr>"
  by (simp add: dir_of_def)

lemma dir_lookup_none:
  "map_of (td_files (dir_of raws)) i = None \<longleftrightarrow> i \<notin> set (map cp_id raws)"
  by (simp add: dir_of_def map_of_eq_None_iff comp_def image_image)

text \<open>What the encoder appends to the stored list of a represented history.\<close>

lemma encode_step_rep:
  assumes r: "history_rep (max_chain_len p) raws hist n" and new: "cp_id c \<notin> set (map cp_id hist)"
    and base: "cp_base c = None" and ok: "supported c" "bt_inv (cp_state c)" and wf: "\<forall>x \<in> set hist. bt_inv (cp_state x)"
    and head: "head = (if hist = [] then None else Some \<lparr> dh_checkpoint = last hist, dh_chain_len = n \<rparr>)"
    and cov: "hist \<noteq> [] \<longrightarrow> covers c (last hist)"
  shows "history_rep (max_chain_len p) (raws @ [de_checkpoint (encode_delta sb c head p)]) (hist @ [c])
      (de_chain_len (encode_delta sb c head p))"
proof -
  have cc: "c \<lparr> cp_base := None \<rparr> = c" using base by (cases c) simp
  have side: "\<forall>h. head = Some h \<longrightarrow> bt_inv (cp_state (dh_checkpoint h)) \<and> covers c (dh_checkpoint h)"
    using cov wf by (auto simp: head split: if_splits)
  show ?thesis
  proof (rule encode_delta_cases [OF ok(2) side, of sb p])
    assume "encode_delta sb c head p = encoding_full c"
    then show ?thesis using rep_full [OF r base new ok(1)] by (simp add: encoding_full_def cc)
  next
    fix h assume h: "head = Some h" "encode_delta sb c head p =
        \<lparr> de_checkpoint = c \<lparr> cp_base := Some (cp_id (dh_checkpoint h)),
            cp_state := channels_changed_since (cp_state c) (cp_state (dh_checkpoint h)) \<rparr>,
          de_chain_len = dh_chain_len h + 1 \<rparr>"
      "dh_chain_len h < max_chain_len p"
      "fold_delta (dh_checkpoint h) (de_checkpoint (encode_delta sb c head p)) = c \<lparr> cp_base := None \<rparr>"
    have ne: "hist \<noteq> []" and hh: "h = \<lparr> dh_checkpoint = last hist, dh_chain_len = n \<rparr>"
      using h(1) by (auto simp: head split: if_splits)
    show ?thesis
      using rep_delta [OF r ne, of "de_checkpoint (encode_delta sb c head p)" c] h(2-4) new ok(1) cc
      by (simp add: hh supported_def)
  qed
qed

lemma encode_delta_id: "cp_id (de_checkpoint (encode_delta sb c head p)) = cp_id c"
  by (auto simp: encode_delta_def encoding_full_def Let_def split: option.splits)

text \<open>Writing a file and a head into a represented store.\<close>

lemma json_rep_write:
  assumes rep: "json_rep st hs" and ok: "bt_inv (cp_state c)" "plain_id (cp_id c)"
    and step: "history_rep (max_chain_len (js_policy st)) (raws @ [r]) (hs (cp_thread_id c) @ [c]) k" "cp_id r = cp_id c"
    and st1: "js_policy st1 = js_policy st" "js_dirs st1 = js_dirs st"
      "\<forall>t. t \<noteq> cp_thread_id c \<longrightarrow> js_heads st1 t = js_heads st t"
  shows "json_rep (st1 \<lparr> js_dirs := (js_dirs st1)(cp_thread_id c := \<lparr> td_files = td_files (dir_of raws) @ [(cp_id c, Readable r)],
          td_latest = Some (cp_id c) \<rparr>),
        js_heads := (js_heads st1)(cp_thread_id c \<mapsto> \<lparr> dh_checkpoint = c, dh_chain_len = k \<rparr>) \<rparr>) (push_history hs c)"
    (is "json_rep ?st _")
  unfolding json_rep_def
proof (intro conjI allI)
  show "max_chain_len (js_policy ?st) < 2 ^ 64" using rep st1(1) by (simp add: json_rep_def)
  fix t
  show "\<forall>x \<in> set (push_history hs c t). bt_inv (cp_state x) \<and> plain_id (cp_id x)"
    using rep ok by (auto simp: push_history_def json_rep_def)
  show "\<exists>raws n. history_rep (max_chain_len (js_policy ?st)) raws (push_history hs c t) n \<and>
      js_dirs ?st t = dir_of raws \<and> head_ok (js_heads ?st t) (push_history hs c t) n"
  proof (cases "t = cp_thread_id c")
    case True
    then show ?thesis
      using step st1(1) by (intro exI [of _ "raws @ [r]"] exI [of _ k])
        (auto simp: push_history_def dir_of_snoc head_ok_def)
  next
    case False
    then show ?thesis using rep st1 by (auto simp: push_history_def json_rep_def)
  qed
qed

text \<open>One put on a represented store.\<close>

lemma put_internal_rep:
  assumes rep: "json_rep st hs" and fresh: "fresh_id hs c" and base: "cp_base c = None"
    and ok: "supported c" "bt_inv (cp_state c)" "plain_id (cp_id c)"
    and cov: "\<not> force \<Longrightarrow> hs (cp_thread_id c) \<noteq> [] \<Longrightarrow> covers c (last (hs (cp_thread_id c)))"
  shows "\<exists>st'. put_internal sb force c st = (Ok (), st') \<and> json_rep st' (push_history hs c)"
proof -
  let ?t = "cp_thread_id c" and ?p = "js_policy st" and ?hist = "hs (cp_thread_id c)"
  have len: "max_chain_len ?p < 2 ^ 64" using rep by (simp add: json_rep_def)
  obtain raws n where r: "history_rep (max_chain_len ?p) raws ?hist n" "js_dirs st ?t = dir_of raws"
    and hd: "head_ok (js_heads st ?t) ?hist n" and wf: "\<forall>c \<in> set ?hist. bt_inv (cp_state c) \<and> plain_id (cp_id c)"
    using rep unfolding json_rep_def by blast
  let ?head = "if ?hist = [] then None else Some \<lparr> dh_checkpoint = last ?hist, dh_chain_len = n \<rparr>"
  obtain st1 where st1: "force = False \<Longrightarrow> head_of ?t st = (Ok ?head, st1)" "js_dirs st1 = js_dirs st"
    "js_policy st1 = ?p" "\<forall>t'. t' \<noteq> ?t \<longrightarrow> js_heads st1 t' = js_heads st t'" "force = True \<Longrightarrow> st1 = st"
    using head_of_rep [OF r hd len] wf by (cases force) auto
  define enc where "enc = (if force then encoding_full c else encode_delta sb c ?head ?p)"
  have new: "cp_id c \<notin> set (map cp_id ?hist)" using fresh by (simp add: fresh_id_def)
  have "map_of (td_files (js_dirs st ?t)) (cp_id c) = None"
    using new rep_shape [OF r(1)] unfolding r(2) dir_lookup_none by simp
  then have put: "put_internal sb force c st = (Ok (), st1 \<lparr> js_dirs := (js_dirs st1)(?t :=
          \<lparr> td_files = td_files (dir_of raws) @ [(cp_id c, Readable (de_checkpoint enc))], td_latest = Some (cp_id c) \<rparr>),
        js_heads := (js_heads st1)(?t \<mapsto> \<lparr> dh_checkpoint = c, dh_chain_len = de_chain_len enc \<rparr>) \<rparr>)"
    using st1 by (cases force) (auto simp: put_internal_def Let_def enc_def r(2))
  have "c \<lparr> cp_base := None \<rparr> = c" using base by (cases c) simp
  then have "history_rep (max_chain_len ?p) (raws @ [de_checkpoint enc]) (?hist @ [c]) (de_chain_len enc) \<and>
      cp_id (de_checkpoint enc) = cp_id c"
    using rep_full [OF r(1) base new ok(1)] encode_step_rep [OF r(1) new base ok(1,2), of ?head sb] cov wf
    by (cases force) (simp_all add: enc_def encoding_full_def encode_delta_id)
  then show ?thesis using json_rep_write [OF rep ok(2,3) _ _ st1(3,2,4)] put by blast
qed

lemma put_internal_dup:
  assumes "json_rep st hs" "\<not> fresh_id hs c"
  shows "\<exists>e. put_internal sb force c st = (Err e, st)"
proof -
  obtain raws n where r: "history_rep (max_chain_len (js_policy st)) raws (hs (cp_thread_id c)) n"
    "js_dirs st (cp_thread_id c) = dir_of raws"
    using assms(1) unfolding json_rep_def by blast
  have "map_of (td_files (js_dirs st (cp_thread_id c))) (cp_id c) \<noteq> None"
    using assms(2) rep_shape [OF r(1)] unfolding r(2) dir_lookup_none by (simp add: fresh_id_def)
  then show ?thesis by (simp add: put_internal_def Let_def)
qed

lemma json_latest_rep:
  assumes "json_rep st hs"
  shows "json_get_latest st t = Ok (if hs t = [] then None else Some (last (hs t)))"
proof -
  obtain raws n where r: "history_rep (max_chain_len (js_policy st)) raws (hs t) n" "js_dirs st t = dir_of raws"
    and wf: "\<forall>c \<in> set (hs t). plain_id (cp_id c)" and len: "max_chain_len (js_policy st) < 2 ^ 64"
    using assms unfolding json_rep_def by blast
  have "raws = [] \<longleftrightarrow> hs t = []" using rep_length [OF r(1)] by auto
  then show ?thesis
    using read_latest_dir [OF r(1) wf] fold_raw_rep [OF r(1) _ len dir_of_reads [OF r(1)]]
    by (simp add: json_get_latest_def r(2))
qed

lemma json_list_rep:
  assumes "json_rep st hs"
  shows "json_list st t = Ok (list_order (hs t))"
proof -
  obtain raws n where r: "history_rep (max_chain_len (js_policy st)) raws (hs t) n" "js_dirs st t = dir_of raws"
    using assms unfolding json_rep_def by blast
  then show ?thesis using scan_dir [OF r(1)] materialize_rep [OF r(1)] by (simp add: json_list_def)
qed

lemma json_new_rep: "max_chain_len p < 2 ^ 64 \<Longrightarrow> json_rep (json_store_new p) (\<lambda>_. [])"
  unfolding json_rep_def json_store_new_def
  by (auto intro!: exI [of _ "[]"] exI [of _ 0] rep_nil simp: dir_of_def head_ok_def)

interpretation json: checkpointer "json_put sb" json_get_latest json_list json_rep json_admit for sb
proof
  fix s hs c
  show "json_rep s hs \<Longrightarrow> json_admit hs c \<Longrightarrow> fresh_id hs c \<Longrightarrow>
      \<exists>s'. json_put sb c s = (Ok (), s') \<and> json_rep s' (push_history hs c)"
    unfolding json_put_def json_admit_def by (rule put_internal_rep) auto
qed (auto simp: json_put_def put_internal_dup json_latest_rep json_list_rep)


text \<open>A fork writes full snapshots only, so it needs no predecessor to cover.\<close>

definition full_admit :: "histories \<Rightarrow> checkpoint \<Rightarrow> bool" where
  "full_admit hs c \<longleftrightarrow> cp_base c = None \<and> supported c \<and> bt_inv (cp_state c) \<and> plain_id (cp_id c)"

interpretation forced: checkpointer "put_internal sb True" json_get_latest json_list json_rep full_admit for sb
proof
  fix s hs c
  show "json_rep s hs \<Longrightarrow> full_admit hs c \<Longrightarrow> fresh_id hs c \<Longrightarrow>
      \<exists>s'. put_internal sb True c s = (Ok (), s') \<and> json_rep s' (push_history hs c)"
    unfolding full_admit_def by (rule put_internal_rep) auto
qed (auto simp: put_internal_dup json_latest_rep json_list_rep)

lemma rep_materialized:
  "history_rep m raws hist n \<Longrightarrow> \<forall>c \<in> set hist. cp_base c = None \<and> supported c"
  by (induction rule: history_rep.induct) (auto simp: fold_delta_def supported_def)

lemma fork_admitted:
  assumes "\<forall>c \<in> set cs. cp_thread_id c = dst \<and> full_admit hs c"
    "distinct (map cp_id cs)" "set (map cp_id cs) \<inter> set (map cp_id (hs dst)) = {}"
  shows "admitted full_admit hs cs \<and>
    foldl push_history hs cs = hs(dst := hs dst @ cs)"
  using assms
proof (induction cs arbitrary: hs)
  case (Cons c cs)
  have "admitted full_admit (push_history hs c) cs \<and>
      foldl push_history (push_history hs c) cs = (push_history hs c)(dst := push_history hs c dst @ cs)"
    using Cons.prems by (intro Cons.IH) (auto simp: push_history_def full_admit_def)
  moreover have "push_history hs c = hs(dst := hs dst @ [c])"
    using Cons.prems by (simp add: push_history_def)
  ultimately show ?case using Cons.prems by (simp add: fresh_id_def)
qed auto

lemma forced_put_files:
  assumes "put_internal sb True c st = (Ok (), st')" "cp_base c = None"
  shows "td_files (js_dirs st' (cp_thread_id c)) = td_files (js_dirs st (cp_thread_id c)) @ [(cp_id c, Readable c)]"
proof -
  have "de_checkpoint (encoding_full c) = c" using assms(2) by (cases c) (simp add: encoding_full_def)
  then show ?thesis using assms(1) by (auto simp: put_internal_def Let_def split: if_splits)
qed

lemma forced_files:
  "put_all (put_internal sb True) cs st = (Ok (), st') \<Longrightarrow> \<forall>c \<in> set cs. cp_thread_id c = dst \<and> cp_base c = None \<Longrightarrow>
     td_files (js_dirs st' dst) = td_files (js_dirs st dst) @ map (\<lambda>c. (cp_id c, Readable c)) cs"
proof (induction cs arbitrary: st)
  case (Cons c cs)
  then obtain st1 where st1: "put_internal sb True c st = (Ok (), st1)"
    "put_all (put_internal sb True) cs st1 = (Ok (), st')"
    by (auto split: prod.splits sum.splits)
  then show ?case using Cons.IH [OF st1(2)] forced_put_files [OF st1(1)] Cons.prems(2) by simp
qed auto

lemma select_upto_prefix: "select_upto cid cs = Some sel \<Longrightarrow> \<exists>rest. cs = sel @ rest"
  by (induction cs arbitrary: sel) (auto split: if_splits)

lemma fork_select_prefix: "fork_select src dst at_id cs = Ok sel \<Longrightarrow> \<exists>rest. cs = sel @ rest"
  by (auto simp: fork_select_def select_upto_prefix split: if_splits option.splits)

lemma empty_dir:
  assumes "json_rep st hs" "hs t = []"
  shows "td_files (js_dirs st t) = []"
proof -
  obtain raws n where "history_rep (max_chain_len (js_policy st)) raws [] n" "js_dirs st t = dir_of raws"
    using assms unfolding json_rep_def by metis
  then show ?thesis using rep_length by (fastforce simp: dir_of_def)
qed

lemma list_order_retag:
  assumes "list_order cs = sel @ rest"
  shows "list_order (map (\<lambda>c. c \<lparr> cp_thread_id := dst \<rparr>) sel) = map (\<lambda>c. c \<lparr> cp_thread_id := dst \<rparr>) sel"
proof -
  let ?k = "\<lambda>c. (cp_step c, cp_created_at c, cp_id c)"
  have "sorted (map ?k (sel @ rest))" unfolding assms [symmetric] list_order_def by simp
  then have "sorted (map ?k (map (\<lambda>c. c \<lparr> cp_thread_id := dst \<rparr>) sel))"
    by (simp add: sorted_append comp_def)
  then show ?thesis unfolding list_order_def by (rule sort_key_id_if_sorted)
qed

lemma json_by_id_rep:
  assumes "json_rep st hs"
  shows "json_get_by_id st t cid = Ok (find (\<lambda>c. cp_id c = cid) (list_order (hs t)))"
proof -
  obtain raws n where r: "history_rep (max_chain_len (js_policy st)) raws (hs t) n" "js_dirs st t = dir_of raws"
    and len: "max_chain_len (js_policy st) < 2 ^ 64" using assms unfolding json_rep_def by blast
  have ids: "map cp_id raws = map cp_id (hs t)" "distinct (map cp_id (hs t))" using rep_shape [OF r(1)] by auto
  show ?thesis
  proof (cases "cid \<in> set (map cp_id raws)")
    case True
    then obtain i where i: "i < length raws" "cid = cp_id (raws ! i)" by (auto simp: in_set_conv_nth)
    then have ih: "i < length (hs t)" "cid = cp_id (hs t ! i)"
      using ids(1) rep_length [OF r(1)] by (auto, metis nth_map)
    obtain k where k: "history_rep (max_chain_len (js_policy st)) (take (Suc i) raws) (take (Suc i) (hs t)) k"
      using rep_prefix [OF r(1), of "Suc i"] ih(1) by auto
    have "\<forall>r \<in> set (take (Suc i) raws). read_checkpoint (dir_of raws) (cp_id r) = Inr r"
      using dir_of_reads [OF r(1)] in_set_takeD by fast
    then have "fold_raw (js_policy st) (dir_of raws) (raws ! i) = Ok (Some (hs t ! i))"
      using fold_raw_rep [OF k _ len] i ih(1) by (simp add: take_Suc_conv_app_nth)
    moreover have "read_checkpoint (dir_of raws) cid = Inr (raws ! i)"
      using dir_of_reads [OF r(1)] i by simp
    moreover have "find (\<lambda>c. cp_id c = cid) (list_order (hs t)) = Some (hs t ! i)"
      using find_distinct_id [of "list_order (hs t)" "hs t ! i"] ids(2) ih by (simp add: distinct_list_order)
    ultimately show ?thesis by (simp add: json_get_by_id_def r(2))
  next
    case False
    then have "map_of (td_files (dir_of raws)) cid = None" unfolding dir_lookup_none .
    then show ?thesis
      using json_list_rep [OF assms, of t]
      by (simp add: json_get_by_id_def r(2) read_checkpoint_def read_file_def)
  qed
qed

section \<open>Properties of the file store\<close>

text \<open>
  C9: the file store with delta encoding and the in-memory store cannot be told apart.  Any
  sequence of puts of full checkpoints with fresh ids, each keeping the channels of its
  predecessor, succeeds on both, and afterwards the latest checkpoint, the listing and the
  lookup by id agree for every thread, under every delta policy.
\<close>

theorem json_store_refines_memory:
  assumes "max_chain_len p < 2 ^ 64" "admitted json_admit (\<lambda>_. []) cs"
  shows "\<exists>js ms. put_all (json_put sb) cs (json_store_new p) = (Ok (), js) \<and>
    put_all memory_put cs (\<lambda>_. []) = (Ok (), ms) \<and>
    (\<forall>t. json_get_latest js t = memory_get_latest ms t \<and> json_list js t = memory_list ms t \<and>
      (\<forall>cid. json_get_by_id js t cid = default_get_by_id memory_list ms t cid))"
proof -
  let ?hs = "foldl push_history (\<lambda>_. []) cs"
  obtain js where js: "put_all (json_put sb) cs (json_store_new p) = (Ok (), js)" "json_rep js ?hs"
    using json.put_all_rep [OF json_new_rep [OF assms(1)] assms(2)] by blast
  have "admitted (\<lambda>_ _. True) (\<lambda>_. []) cs" by (rule admitted_mono [OF _ assms(2)]) simp
  then obtain ms where ms: "put_all memory_put cs (\<lambda>_. []) = (Ok (), ms)" "memory_rep ms ?hs"
    using mem.put_all_rep [of "\<lambda>_. []" "\<lambda>_. []" cs] by (auto simp: memory_rep_def)
  show ?thesis
    using js ms json.latest_rep [OF js(2)] json.lst_rep [OF js(2)] json_by_id_rep [OF js(2)]
      mem.latest_rep [OF ms(2)] mem.lst_rep [OF ms(2)] mem.by_id_rep [OF ms(2)]
    by (intro exI [of _ js] exI [of _ ms]) simp
qed

definition demo_puts :: "checkpoint list" where
  "demo_puts = [demo_cp ''a'' 0 [(''x'', JNull)], demo_cp ''b'' 1 [(''x'', JNull), (''y'', JNull)]]"

lemma demo_puts_admitted: "admitted json_admit (\<lambda>_. []) demo_puts"
  by (auto simp: demo_puts_def json_admit_def demo_cp_def fresh_id_def push_history_def supported_def
      default_header_def bt_inv_def plain_id_def trim_def is_space_def covers_def)

theorem json_store_refines_memory_witness:
  "\<exists>js. put_all (json_put (\<lambda>st. length st)) demo_puts (json_store_new default_policy) = (Ok (), js)"
proof -
  have "max_chain_len default_policy < 2 ^ 64" by (simp add: default_policy_def)
  from json_store_refines_memory [OF this demo_puts_admitted] show ?thesis by blast
qed

text \<open>
  C34: a resume folds a bounded chain.  After any such sequence of puts, the chain read for
  the newest checkpoint of a thread loads, folds to that checkpoint, and has at most one full
  snapshot plus \<open>max_chain_len\<close> deltas.
\<close>

theorem resume_fold_bounded:
  assumes "max_chain_len p < 2 ^ 64" "admitted json_admit (\<lambda>_. []) cs"
    "put_all (json_put sb) cs (json_store_new p) = (r, js)" "json_get_latest js t = Ok (Some c)"
  shows "\<exists>raw chain. read_latest_raw (js_dirs js t) = Ok (Some raw) \<and>
    load_chain (js_policy js) (js_dirs js t) raw = Ok chain \<and> fold_chain chain = Ok c \<and>
    length chain \<le> Suc (max_chain_len (js_policy js))"
proof -
  have rep: "json_rep js (foldl push_history (\<lambda>_. []) cs)"
    using json.put_all_rep [OF json_new_rep [OF assms(1)] assms(2), of sb] assms(3) by auto
  let ?hist = "foldl push_history (\<lambda>_. []) cs t"
  obtain raws n where h: "history_rep (max_chain_len (js_policy js)) raws ?hist n" "js_dirs js t = dir_of raws"
    and len: "max_chain_len (js_policy js) < 2 ^ 64" and pl: "\<forall>c \<in> set ?hist. plain_id (cp_id c)"
    using rep unfolding json_rep_def by blast
  have ne: "?hist \<noteq> []" and c: "c = last ?hist"
    using json_latest_rep [OF rep, of t] assms(4) by (auto split: if_splits)
  have "raws \<noteq> []" using ne rep_length [OF h(1)] by auto
  then show ?thesis
    using load_fold_rep [OF h(1) ne len dir_of_reads [OF h(1)]] read_latest_dir [OF h(1) pl]
      rep_shape [OF h(1)] by (auto simp: h(2) c)
qed

theorem resume_fold_bounded_witness:
  "\<exists>(js :: json_store) raw chain. read_latest_raw (js_dirs js ''t'') = Ok (Some raw) \<and>
     load_chain (js_policy js) (js_dirs js ''t'') raw = Ok chain \<and>
     fold_chain chain = Ok (demo_cp ''b'' 1 [(''x'', JNull), (''y'', JNull)])"
proof -
  have p: "max_chain_len default_policy < 2 ^ 64" by (simp add: default_policy_def)
  obtain js where js: "put_all (json_put (\<lambda>st. length st)) demo_puts (json_store_new default_policy) = (Ok (), js)"
    "json_rep js (foldl push_history (\<lambda>_. []) demo_puts)"
    using json.put_all_rep [OF json_new_rep [OF p] demo_puts_admitted] by blast
  have "json_get_latest js ''t'' = Ok (Some (demo_cp ''b'' 1 [(''x'', JNull), (''y'', JNull)]))"
    using json_latest_rep [OF js(2), of "''t''"]
    by (simp add: demo_puts_def push_history_def demo_cp_def)
  from resume_fold_bounded [OF p demo_puts_admitted js(1) this] show ?thesis by blast
qed

text \<open>
  forking copies a history and nothing else.  For a thread with history and a destination
  with none, a fork, of the whole history or up to a given checkpoint, succeeds and reports how
  many checkpoints it copied.  The destination then lists the selected prefix of the source's
  listing under its own thread id, every file of the destination is a full snapshot, and every
  other thread, the source included, still reads as before.
\<close>

lemma fork_copies_history:
  assumes "max_chain_len p < 2 ^ 64" "admitted json_admit (\<lambda>_. []) cs"
    "put_all (json_put sb) cs (json_store_new p) = (r, st)" "src \<noteq> dst"
    "json_list st src = Ok all" "json_list st dst = Ok []" "fork_select src dst at_id all = Ok sel"
  shows "\<exists>st'. json_fork_thread sb src dst at_id st = (Ok (length sel), st') \<and>
    (let copies = map (\<lambda>c. c \<lparr> cp_thread_id := dst \<rparr>) sel in
     json_list st' dst = Ok copies \<and>
     td_files (js_dirs st' dst) = map (\<lambda>c. (cp_id c, Readable c)) copies) \<and>
    (\<forall>t. t \<noteq> dst \<longrightarrow> json_list st' t = json_list st t \<and> json_get_latest st' t = json_get_latest st t)"
proof -
  let ?hs = "foldl push_history (\<lambda>_. []) cs" and ?copies = "map (\<lambda>c. c \<lparr> cp_thread_id := dst \<rparr>) sel"
  have rep: "json_rep st ?hs"
    using json.put_all_rep [OF json_new_rep [OF assms(1)] assms(2), of sb] assms(3) by auto
  obtain rest where ord: "list_order (?hs src) = sel @ rest"
    using fork_select_prefix [OF assms(7)] json_list_rep [OF rep, of src] assms(5) by auto
  have empty: "?hs dst = []"
    using json_list_rep [OF rep, of dst] assms(6) set_list_order [of "?hs dst"] by auto
  have sub: "set sel \<subseteq> set (?hs src)"
    using set_list_order [of "?hs src"] unfolding ord by auto
  obtain raws n where raws: "history_rep (max_chain_len (js_policy st)) raws (?hs src) n"
    and wf: "\<forall>c \<in> set (?hs src). bt_inv (cp_state c) \<and> plain_id (cp_id c)"
    using rep unfolding json_rep_def by blast
  have base: "\<forall>c \<in> set sel. cp_base c = None \<and> supported c" using rep_materialized [OF raws] sub by blast
  have full: "\<forall>c \<in> set ?copies. cp_thread_id c = dst \<and> full_admit ?hs c"
    using base wf sub by (auto simp: full_admit_def supported_def)
  have "distinct (map cp_id (sel @ rest))"
    using rep_shape [OF raws] unfolding ord [symmetric] distinct_list_order by blast
  then have adm: "admitted full_admit ?hs ?copies \<and> foldl push_history ?hs ?copies = ?hs(dst := ?hs dst @ ?copies)"
    by (intro fork_admitted full) (auto simp: empty comp_def)
  then obtain st' where st': "put_all (put_internal sb True) ?copies st = (Ok (), st')"
    "json_rep st' (?hs(dst := ?copies))"
    using forced.put_all_rep [OF rep, of ?copies sb] empty by auto
  have same: "map (\<lambda>c. c \<lparr> cp_thread_id := dst, cp_base := None \<rparr>) sel = ?copies" using base by auto
  have "json_fork_thread sb src dst at_id st = (Ok (length sel), st')"
    using assms(4,5,7) st'(1) by (simp add: json_fork_thread_def same)
  moreover have "td_files (js_dirs st dst) = []" using empty_dir [OF rep empty] .
  ultimately show ?thesis
    using forced_files [OF st'(1), of dst] base json_list_rep [OF st'(2)] json_list_rep [OF rep]
      json_latest_rep [OF st'(2)] json_latest_rep [OF rep] list_order_retag [OF ord]
    by (intro exI [of _ st']) (auto simp: Let_def)
qed

lemma fork_copies_history_witness:
  "\<exists>st. json_list st ''u'' = Ok [(demo_cp ''a'' 0 [(''x'', JNull)]) \<lparr> cp_thread_id := ''u'' \<rparr>]"
proof -
  have p: "max_chain_len default_policy < 2 ^ 64" by (simp add: default_policy_def)
  obtain st where st: "put_all (json_put (\<lambda>st. length st)) demo_puts (json_store_new default_policy) = (Ok (), st)"
    "json_rep st (foldl push_history (\<lambda>_. []) demo_puts)"
    using json.put_all_rep [OF json_new_rep [OF p] demo_puts_admitted] by blast
  have l: "json_list st ''t'' = Ok demo_puts" "json_list st ''u'' = Ok []"
    using json_list_rep [OF st(2), of "''t''"] json_list_rep [OF st(2), of "''u''"]
    by (simp_all add: demo_puts_def push_history_def demo_cp_def list_order_def)
  have sel: "fork_select ''t'' ''u'' (Some ''a'') demo_puts = Ok [demo_cp ''a'' 0 [(''x'', JNull)]]"
    by (simp add: fork_select_def demo_puts_def demo_cp_def)
  have "''t'' \<noteq> ''u''" by simp
  from fork_copies_history [OF p demo_puts_admitted st(1) this l sel] show ?thesis
    by (auto simp: Let_def)
qed

end
