(* ===== verification/Spend_Meter.thy ===== *)
theory Spend_Meter
  imports Run_Journal
begin

text \<open>
  The token and cost meter (meter.rs): the fold of a journal into per-run and per-model totals,
  the pricing of those totals, and the incremental spend the executor compares against a run's
  budget.  Counters are 64-bit and wrap; costs are double-precision sums in journal order.
\<close>

section \<open>Totals\<close>

definition add_u64 :: "nat \<Rightarrow> nat \<Rightarrow> nat" where
  "add_u64 a b = (a + b) mod 2 ^ 64"

record token_totals =
  tt_requests :: nat
  tt_requests_with_usage :: nat
  tt_prompt_tokens :: nat
  tt_completion_tokens :: nat
  tt_total_tokens :: nat
  tt_cached_tokens :: nat
  tt_reasoning_tokens :: nat

definition zero_totals :: token_totals where
  "zero_totals = \<lparr> tt_requests = 0, tt_requests_with_usage = 0, tt_prompt_tokens = 0,
     tt_completion_tokens = 0, tt_total_tokens = 0, tt_cached_tokens = 0, tt_reasoning_tokens = 0 \<rparr>"

definition or_zero :: "nat option \<Rightarrow> nat" where
  "or_zero v = (case v of None \<Rightarrow> 0 | Some n \<Rightarrow> n)"

definition totals_add :: "usage \<Rightarrow> token_totals \<Rightarrow> token_totals" where
  "totals_add u t = t \<lparr> tt_requests_with_usage := add_u64 (tt_requests_with_usage t) 1,
     tt_prompt_tokens := add_u64 (tt_prompt_tokens t) (prompt_tokens u),
     tt_completion_tokens := add_u64 (tt_completion_tokens t) (completion_tokens u),
     tt_total_tokens := add_u64 (tt_total_tokens t) (total_tokens u),
     tt_cached_tokens := add_u64 (tt_cached_tokens t) (or_zero (cached_tokens u)),
     tt_reasoning_tokens := add_u64 (tt_reasoning_tokens t) (or_zero (reasoning_tokens u)) \<rparr>"

definition count_request :: "token_totals \<Rightarrow> token_totals" where
  "count_request t = t \<lparr> tt_requests := add_u64 (tt_requests t) 1 \<rparr>"

definition fold_usage :: "usage option \<Rightarrow> token_totals \<Rightarrow> token_totals" where
  "fold_usage u t = (case u of None \<Rightarrow> t | Some x \<Rightarrow> totals_add x t)"

definition add_cost :: "f64 option \<Rightarrow> f64 option \<Rightarrow> f64 option" where
  "add_cost cost acc =
     (case cost of
        None \<Rightarrow> acc
      | Some c \<Rightarrow> Some (f64_add (case acc of None \<Rightarrow> 0 | Some a \<Rightarrow> a) c))"

record model_meter =
  mm_model :: string
  mm_tokens :: token_totals
  mm_journaled_cost_usd :: "f64 option"

record tool_class_totals =
  tc_calls :: nat
  tc_errors :: nat

record run_meter =
  rm_run_id :: string
  rm_thread_id :: string
  rm_tokens :: token_totals
  rm_models :: "(string \<times> model_meter) list"
  rm_tool_calls :: "(effect \<times> tool_class_totals) list"
  rm_journaled_cost_usd :: "f64 option"

section \<open>Metering a journal\<close>

definition UNREPORTED_MODEL :: string where
  "UNREPORTED_MODEL = ''unreported''"

definition meter_resolve :: "journal_snapshot \<Rightarrow> payload_ref \<Rightarrow> json option" where
  "meter_resolve snap payload =
     (case payload of
        Inline value \<Rightarrow> Some value
      | Artifact reference \<Rightarrow> map_of (js_artifacts snap) (ref_sha256 reference))"

definition model_of :: "journal_snapshot \<Rightarrow> run_event \<Rightarrow> string" where
  "model_of snap event =
     (case Option.bind (Option.bind (Option.bind (ev_output event) (meter_resolve snap))
             (\<lambda>value. json_get value ''model'')) as_str of
        Some model \<Rightarrow> model
      | None \<Rightarrow> UNREPORTED_MODEL)"

definition new_model_meter :: "string \<Rightarrow> model_meter" where
  "new_model_meter model = \<lparr> mm_model = model, mm_tokens = zero_totals, mm_journaled_cost_usd = None \<rparr>"

definition bt_entry :: "'k::linorder \<Rightarrow> 'v \<Rightarrow> ('v \<Rightarrow> 'v) \<Rightarrow> ('k \<times> 'v) list \<Rightarrow> ('k \<times> 'v) list" where
  "bt_entry k dflt f m = bt_insert k (f (case map_of m k of None \<Rightarrow> dflt | Some v \<Rightarrow> v)) m"

definition meter_event :: "journal_snapshot \<Rightarrow> run_meter \<Rightarrow> run_event \<Rightarrow> run_meter" where
  "meter_event snap m event =
     (case ev_kind event of
        KModelCall \<Rightarrow>
          (let model = model_of snap event in
           m \<lparr> rm_tokens := fold_usage (ev_tokens event) (count_request (rm_tokens m)),
               rm_models := bt_entry model (new_model_meter model)
                 (\<lambda>e. e \<lparr> mm_tokens := fold_usage (ev_tokens event) (count_request (mm_tokens e)),
                          mm_journaled_cost_usd := add_cost (ev_cost_usd event) (mm_journaled_cost_usd e) \<rparr>)
                 (rm_models m),
               rm_journaled_cost_usd := add_cost (ev_cost_usd event) (rm_journaled_cost_usd m) \<rparr>)
      | KToolCall \<Rightarrow>
          m \<lparr> rm_tool_calls := bt_entry (ev_effect event) \<lparr> tc_calls = 0, tc_errors = 0 \<rparr>
                (\<lambda>e. e \<lparr> tc_calls := add_u64 (tc_calls e) 1,
                         tc_errors := (if ev_status event = StatusError then add_u64 (tc_errors e) 1
                                       else tc_errors e) \<rparr>)
                (rm_tool_calls m) \<rparr>
      | _ \<Rightarrow> m)"

definition meter_journal :: "journal_snapshot \<Rightarrow> run_meter" where
  "meter_journal snap = foldl (meter_event snap)
     \<lparr> rm_run_id = js_run_id snap, rm_thread_id = js_thread_id snap, rm_tokens = zero_totals,
       rm_models = [], rm_tool_calls = [], rm_journaled_cost_usd = None \<rparr> (js_events snap)"

section \<open>Pricing\<close>

record model_pricing =
  input_per_million :: f64
  output_per_million :: f64
  cached_input_per_million :: "f64 option"

definition f64_div :: "f64 \<Rightarrow> f64 \<Rightarrow> f64" where
  "f64_div x y = f64_round (x / y)"

definition cost_usd :: "model_pricing \<Rightarrow> usage \<Rightarrow> f64" where
  "cost_usd p u =
     (let cached = min (or_zero (cached_tokens u)) (prompt_tokens u);
          uncached = prompt_tokens u - cached;
          cached_rate = (case cached_input_per_million p of None \<Rightarrow> input_per_million p | Some r \<Rightarrow> r)
      in f64_div
           (f64_add
             (f64_add (f64_mul (f64_of_nat uncached) (input_per_million p))
                      (f64_mul (f64_of_nat cached) cached_rate))
             (f64_mul (f64_of_nat (completion_tokens u)) (output_per_million p)))
           1000000)"

definition positive :: "nat \<Rightarrow> nat option" where
  "positive n = (if n > 0 then Some n else None)"

definition cost_under :: "model_pricing \<Rightarrow> token_totals \<Rightarrow> f64" where
  "cost_under p t = cost_usd p \<lparr> prompt_tokens = tt_prompt_tokens t,
     completion_tokens = tt_completion_tokens t, total_tokens = tt_total_tokens t,
     cached_tokens = positive (tt_cached_tokens t), reasoning_tokens = positive (tt_reasoning_tokens t) \<rparr>"

record cost_estimate =
  ce_per_model_usd :: "(string \<times> f64) list"
  ce_total_usd :: f64
  ce_unpriced_models :: "string list"
  ce_journaled_total_usd :: "f64 option"

definition estimate_step ::
  "(string \<Rightarrow> model_pricing option) \<Rightarrow> cost_estimate \<Rightarrow> string \<times> model_meter \<Rightarrow> cost_estimate" where
  "estimate_step rates est entry =
     (case entry of (model, meter) \<Rightarrow>
        (case rates model of
           Some pricing \<Rightarrow>
             (let cost = cost_under pricing (mm_tokens meter) in
              est \<lparr> ce_per_model_usd := bt_insert model cost (ce_per_model_usd est),
                    ce_total_usd := f64_add (ce_total_usd est) cost \<rparr>)
         | None \<Rightarrow> est \<lparr> ce_unpriced_models := ce_unpriced_models est @ [model] \<rparr>))"

definition estimate_cost :: "(string \<Rightarrow> model_pricing option) \<Rightarrow> run_meter \<Rightarrow> cost_estimate" where
  "estimate_cost rates m = foldl (estimate_step rates)
     \<lparr> ce_per_model_usd = [], ce_total_usd = 0, ce_unpriced_models = [],
       ce_journaled_total_usd = rm_journaled_cost_usd m \<rparr> (rm_models m)"

section \<open>The spend guard\<close>

record run_budget =
  max_tokens :: "nat option"
  max_cost_usd :: "f64 option"

record spend =
  sp_requests :: nat
  sp_tokens :: nat
  sp_cost_usd :: "f64 option"

definition spend_default :: spend where
  "spend_default = \<lparr> sp_requests = 0, sp_tokens = 0, sp_cost_usd = None \<rparr>"

definition observe :: "spend \<Rightarrow> run_event \<Rightarrow> spend" where
  "observe s event =
     (if ev_kind event \<noteq> KModelCall then s
      else s \<lparr> sp_requests := add_u64 (sp_requests s) 1,
               sp_tokens := (case ev_tokens event of None \<Rightarrow> sp_tokens s
                             | Some u \<Rightarrow> add_u64 (sp_tokens s) (total_tokens u)),
               sp_cost_usd := add_cost (ev_cost_usd event) (sp_cost_usd s) \<rparr>)"

text \<open>\<open>usd\<close> renders a cost with four decimals.\<close>

definition exceeds :: "(f64 \<Rightarrow> string) \<Rightarrow> spend \<Rightarrow> run_budget \<Rightarrow> string option" where
  "exceeds usd s b =
     (let cost_crossed =
            (case (max_cost_usd b, sp_cost_usd s) of
               (Some limit, Some cost) \<Rightarrow>
                 if cost > limit
                 then Some (''$'' @ usd cost @ '' spent against a limit of $'' @ usd limit)
                 else None
             | _ \<Rightarrow> None)
      in case max_tokens b of
           Some limit \<Rightarrow>
             if sp_tokens s > limit
             then Some (show_nat (sp_tokens s) @ '' tokens spent against a limit of '' @ show_nat limit)
             else cost_crossed
         | None \<Rightarrow> cost_crossed)"

section \<open>The meter adds up\<close>

definition total_over :: "(token_totals \<Rightarrow> nat) \<Rightarrow> (string \<times> model_meter) list \<Rightarrow> nat" where
  "total_over f ms = sum_list (map (\<lambda>m. f (mm_tokens (snd m))) ms)"

lemma sum_bt_insert:
  assumes "bt_inv m"
  shows "sum_list (map (\<lambda>e. g (snd e)) (bt_insert k v m)) + (case map_of m k of None \<Rightarrow> 0 | Some w \<Rightarrow> g w)
     = sum_list (map (\<lambda>e. g (snd e)) m) + (g v :: nat)"
  using assms
proof (induction m)
  case (Cons a m)
  obtain k' v' where a: "a = (k', v')" by (cases a)
  have small: "k < k' \<Longrightarrow> map_of m k = None"
    using Cons.prems by (fastforce simp: a bt_inv_Cons map_of_eq_None_iff)
  show ?case
  proof (cases "k < k' \<or> k = k'")
    case True
    then show ?thesis using small by (auto simp: a)
  next
    case False
    then have "\<not> k < k'" "k \<noteq> k'" "k' \<noteq> k" by auto
    then show ?thesis using Cons by (simp add: a bt_inv_Cons)
  qed
qed auto

lemma mod_cancel:
  assumes "(a + x) mod n = (b + x) mod (n :: nat)"
  shows "a mod n = b mod n"
proof -
  have "int (a + x) mod int n = int (b + x) mod int n" using assms by (metis of_nat_mod)
  then have "int a mod int n = int b mod int n" by (simp add: mod_eq_dvd_iff)
  then show ?thesis by (metis of_nat_mod of_nat_eq_iff)
qed

text \<open>The step every call applies to the totals of the run and to those of its model.\<close>

definition call_totals :: "run_event \<Rightarrow> token_totals \<Rightarrow> token_totals" where
  "call_totals e t = fold_usage (ev_tokens e) (count_request t)"

definition totals_fields :: "(token_totals \<Rightarrow> nat) list" where
  "totals_fields = [tt_requests, tt_requests_with_usage, tt_prompt_tokens, tt_completion_tokens,
     tt_total_tokens, tt_cached_tokens, tt_reasoning_tokens]"

lemma field_steps:
  "f \<in> set totals_fields \<Longrightarrow> \<exists>d. \<forall>t. f t < 2 ^ 64 \<longrightarrow> f (call_totals e t) = (f t + d) mod 2 ^ 64"
  by (cases "ev_tokens e")
     (auto simp: totals_fields_def call_totals_def fold_usage_def count_request_def totals_add_def add_u64_def
       intro: exI [of _ 0] exI [of _ 1])

lemma field_zero: "f \<in> set totals_fields \<Longrightarrow> f zero_totals = 0"
  by (auto simp: totals_fields_def zero_totals_def)

definition meter_ok :: "(token_totals \<Rightarrow> nat) \<Rightarrow> run_meter \<Rightarrow> bool" where
  "meter_ok f m \<longleftrightarrow> bt_inv (rm_models m) \<and>
     (\<forall>k mm. map_of (rm_models m) k = Some mm \<longrightarrow> mm_model mm = k \<and> f (mm_tokens mm) < 2 ^ 64) \<and>
     f (rm_tokens m) = total_over f (rm_models m) mod 2 ^ 64"

lemma meter_model_call:
  "ev_kind e = KModelCall \<Longrightarrow> meter_event snap m e =
     (let model = model_of snap e in
      m \<lparr> rm_tokens := call_totals e (rm_tokens m),
          rm_models := bt_entry model (new_model_meter model)
            (\<lambda>x. x \<lparr> mm_tokens := call_totals e (mm_tokens x),
                     mm_journaled_cost_usd := add_cost (ev_cost_usd e) (mm_journaled_cost_usd x) \<rparr>)
            (rm_models m),
          rm_journaled_cost_usd := add_cost (ev_cost_usd e) (rm_journaled_cost_usd m) \<rparr>)"
  by (simp add: meter_event_def call_totals_def)

lemma meter_other:
  "ev_kind e \<noteq> KModelCall \<Longrightarrow> rm_models (meter_event snap m e) = rm_models m \<and>
     rm_tokens (meter_event snap m e) = rm_tokens m \<and>
     rm_journaled_cost_usd (meter_event snap m e) = rm_journaled_cost_usd m"
  by (auto simp: meter_event_def split: run_event_kind.splits)

lemma total_over_entry:
  assumes "bt_inv ms" "\<forall>t. f t < 2 ^ 64 \<longrightarrow> f (upd t) = (f t + d) mod 2 ^ 64" "f zero_totals = 0"
    "\<And>k mm. map_of ms k = Some mm \<Longrightarrow> f (mm_tokens mm) < 2 ^ 64"
  shows "total_over f (bt_entry k (new_model_meter k) (\<lambda>x. x \<lparr> mm_tokens := upd (mm_tokens x),
      mm_journaled_cost_usd := c x \<rparr>) ms) mod 2 ^ 64 = (total_over f ms + d) mod 2 ^ 64"
proof -
  define old where "old = (case map_of ms k of None \<Rightarrow> new_model_meter k | Some v \<Rightarrow> v)"
  define new where "new = old \<lparr> mm_tokens := upd (mm_tokens old), mm_journaled_cost_usd := c old \<rparr>"
  let ?g = "\<lambda>m. f (mm_tokens m)"
  have old: "?g old < 2 ^ 64" "(case map_of ms k of None \<Rightarrow> 0 | Some w \<Rightarrow> ?g w) = ?g old"
    using assms(3,4) by (auto simp: old_def new_model_meter_def split: option.splits)
  have eq: "total_over f (bt_insert k new ms) + ?g old = total_over f ms + ?g new"
    using sum_bt_insert [OF assms(1), of ?g k new] old(2) by (simp add: total_over_def)
  have "?g new = (?g old + d) mod 2 ^ 64" using assms(2) old(1) by (simp add: new_def)
  then have "(total_over f (bt_insert k new ms) + ?g old) mod 2 ^ 64 = (total_over f ms + d + ?g old) mod 2 ^ 64"
    unfolding eq by (metis add.commute add.left_commute mod_add_left_eq)
  then have "total_over f (bt_insert k new ms) mod 2 ^ 64 = (total_over f ms + d) mod 2 ^ 64"
    by (rule mod_cancel)
  then show ?thesis by (simp add: bt_entry_def old_def new_def)
qed

lemma meter_ok_step:
  assumes "f \<in> set totals_fields" "meter_ok f m"
  shows "meter_ok f (meter_event snap m e)"
proof (cases "ev_kind e = KModelCall")
  case False
  then show ?thesis using assms(2) meter_other [OF False, of snap m] by (simp add: meter_ok_def)
next
  case True
  obtain d where d: "\<forall>t. f t < 2 ^ 64 \<longrightarrow> f (call_totals e t) = (f t + d) mod 2 ^ 64"
    using field_steps [OF assms(1)] by blast
  have z: "f zero_totals = 0" by (rule field_zero [OF assms(1)])
  let ?k = "model_of snap e" and ?ms = "rm_models m"
  have inv: "bt_inv ?ms" "\<And>k mm. map_of ?ms k = Some mm \<Longrightarrow> mm_model mm = k \<and> f (mm_tokens mm) < 2 ^ 64"
    "f (rm_tokens m) = total_over f ?ms mod 2 ^ 64" using assms(2) by (auto simp: meter_ok_def)
  have "f (call_totals e (rm_tokens m)) = (total_over f ?ms + d) mod 2 ^ 64"
    using d inv(3) by (simp add: mod_add_left_eq)
  then show ?thesis
    using inv total_over_entry [OF inv(1) d z, of ?k "\<lambda>x. add_cost (ev_cost_usd e) (mm_journaled_cost_usd x)"] d z
    by (auto simp: meter_model_call [OF True] meter_ok_def Let_def bt_entry_def new_model_meter_def
        split: option.splits if_splits)
qed

lemma meter_fold:
  assumes "f \<in> set totals_fields" "meter_ok f m"
  shows "meter_ok f (foldl (meter_event snap) m es)"
  using assms(2) by (induction es arbitrary: m) (auto intro: meter_ok_step [OF assms(1)])

definition tool_call_sum :: "run_meter \<Rightarrow> nat" where
  "tool_call_sum m = sum_list (map (\<lambda>t. tc_calls (snd t)) (rm_tool_calls m))"

lemma tool_call_step:
  assumes "bt_inv (rm_tool_calls m)"
  shows "bt_inv (rm_tool_calls (meter_event snap m e)) \<and> tool_call_sum (meter_event snap m e) mod 2 ^ 64 =
    (tool_call_sum m + (if ev_kind e = KToolCall then 1 else 0)) mod 2 ^ 64"
proof (cases "ev_kind e = KToolCall")
  case True
  define old where "old = (case map_of (rm_tool_calls m) (ev_effect e) of None \<Rightarrow> \<lparr> tc_calls = 0, tc_errors = 0 \<rparr> | Some v \<Rightarrow> v)"
  define new where "new = old \<lparr> tc_calls := add_u64 (tc_calls old) 1,
      tc_errors := (if ev_status e = StatusError then add_u64 (tc_errors old) 1 else tc_errors old) \<rparr>"
  have tools: "rm_tool_calls (meter_event snap m e) = bt_insert (ev_effect e) new (rm_tool_calls m)"
    using True by (simp add: meter_event_def bt_entry_def old_def new_def)
  have "(case map_of (rm_tool_calls m) (ev_effect e) of None \<Rightarrow> 0 | Some w \<Rightarrow> tc_calls w) = tc_calls old"
    by (simp add: old_def split: option.splits)
  then have eq: "tool_call_sum (meter_event snap m e) + tc_calls old = tool_call_sum m + tc_calls new"
    using sum_bt_insert [OF assms, of tc_calls "ev_effect e" new] by (simp add: tool_call_sum_def tools)
  have "tc_calls new = (tc_calls old + 1) mod 2 ^ 64" by (simp add: new_def add_u64_def)
  then have "(tool_call_sum (meter_event snap m e) + tc_calls old) mod 2 ^ 64 = (tool_call_sum m + 1 + tc_calls old) mod 2 ^ 64"
    unfolding eq by (metis add.assoc add.commute mod_add_right_eq)
  then have "tool_call_sum (meter_event snap m e) mod 2 ^ 64 = (tool_call_sum m + 1) mod 2 ^ 64" by (rule mod_cancel)
  then show ?thesis using assms True by (simp add: tools)
next
  case False
  then show ?thesis using assms
    by (simp add: meter_event_def Let_def tool_call_sum_def split: run_event_kind.splits)
qed

lemma tool_calls_fold:
  "bt_inv (rm_tool_calls m) \<Longrightarrow> tool_call_sum (foldl (meter_event snap) m es) mod 2 ^ 64 =
     (tool_call_sum m + length (filter (\<lambda>e. ev_kind e = KToolCall) es)) mod 2 ^ 64"
proof (induction es arbitrary: m)
  case (Cons e es)
  let ?n = "length (filter (\<lambda>e. ev_kind e = KToolCall) es)" and ?k = "if ev_kind e = KToolCall then 1 else 0 :: nat"
  note step = tool_call_step [OF Cons.prems, of snap e]
  have "tool_call_sum (foldl (meter_event snap) m (e # es)) mod 2 ^ 64 =
      (tool_call_sum (meter_event snap m e) + ?n) mod 2 ^ 64"
    using Cons.IH step by simp
  also have "\<dots> = (tool_call_sum m + ?k + ?n) mod 2 ^ 64"
    using step by (metis mod_add_left_eq)
  finally show ?case by (cases "ev_kind e = KToolCall") simp_all
qed simp

section \<open>Properties of the meter\<close>

text \<open>
  the meter neither loses nor invents usage.  Each counter of a run is the sum of that
  counter over its models, each model's entry carries its own name, and the calls counted by
  effect class sum to the number of journaled tool calls, all modulo the 64-bit width.
\<close>

lemma meter_conserves_usage:
  "let m = meter_journal snap in
   list_all (\<lambda>f. f (rm_tokens m) = total_over f (rm_models m) mod 2 ^ 64) totals_fields \<and>
   list_all (\<lambda>(k, mm). mm_model mm = k) (rm_models m) \<and>
   tool_call_sum m mod 2 ^ 64 =
     length (filter (\<lambda>e. ev_kind e = KToolCall) (js_events snap)) mod 2 ^ 64"
proof -
  let ?m0 = "\<lparr> rm_run_id = js_run_id snap, rm_thread_id = js_thread_id snap, rm_tokens = zero_totals,
       rm_models = [], rm_tool_calls = [], rm_journaled_cost_usd = None \<rparr>"
  have ok: "meter_ok f (meter_journal snap)" if "f \<in> set totals_fields" for f
    unfolding meter_journal_def
    by (rule meter_fold [OF that]) (simp add: meter_ok_def total_over_def field_zero [OF that])
  have "tt_requests \<in> set totals_fields" by (simp add: totals_fields_def)
  from ok [OF this] have "list_all (\<lambda>(k, mm). mm_model mm = k) (rm_models (meter_journal snap))"
    by (auto simp: list_all_iff meter_ok_def dest: bt_inv_distinct)
  then show ?thesis
    using ok tool_calls_fold [of ?m0 snap "js_events snap"]
    by (auto simp: Let_def list_all_iff meter_ok_def meter_journal_def tool_call_sum_def)
qed

definition agrees :: "spend \<Rightarrow> run_meter \<Rightarrow> bool" where
  "agrees s m \<longleftrightarrow> sp_requests s = tt_requests (rm_tokens m) \<and>
     sp_tokens s = tt_total_tokens (rm_tokens m) \<and> sp_cost_usd s = rm_journaled_cost_usd m"

lemma agrees_step: "agrees s m \<Longrightarrow> agrees (observe s e) (meter_event snap m e)"
proof (cases "ev_kind e = KModelCall")
  case True
  then show "agrees s m \<Longrightarrow> ?thesis"
    by (cases "ev_tokens e")
       (simp_all add: agrees_def observe_def meter_model_call Let_def call_totals_def fold_usage_def
         count_request_def totals_add_def)
next
  case False
  then show "agrees s m \<Longrightarrow> ?thesis"
    using meter_other [OF False, of snap m] by (simp add: agrees_def observe_def)
qed

lemma agrees_fold: "agrees s m \<Longrightarrow> agrees (foldl observe s es) (foldl (meter_event snap) m es)"
  by (induction es arbitrary: s m) (simp_all add: agrees_step)

text \<open>
  C36: the incremental spend guard sees what the offline meter reports.  Folding a journal's
  events one by one yields exactly the meter's request count, billed tokens and journaled cost.
\<close>

theorem spend_agrees_with_meter:
  "let s = foldl observe spend_default (js_events snap); m = meter_journal snap in
   sp_requests s = tt_requests (rm_tokens m) \<and> sp_tokens s = tt_total_tokens (rm_tokens m) \<and>
   sp_cost_usd s = rm_journaled_cost_usd m"
  using agrees_fold [of spend_default _ "js_events snap" snap]
  by (simp add: Let_def meter_journal_def agrees_def spend_default_def zero_totals_def)

end
