(* ===== verification/Run_Config.thy ===== *)
theory Run_Config
  imports Checkpoints Spend_Meter
begin

text \<open>
  What a run is given and what it acts on (executor.rs): the run configuration, the streaming
  events, the outcome, the flight recorder, and the run-config declaration of record.rs.

  The mutable things a run shares with the rest of the process form its \<open>world\<close>: the journal
  (with the run's clock), the checkpoint store, the inbox, the number of ids the run's RNG has
  minted, the number of clock readings, and the events offered to the streaming sink.  A
  configuration that attaches a journal reads time from that journal's clock.  Ids, readings of
  the system clock and the printed forms of times, doubles and errors come from code outside the
  sources and are functions of the record \<open>run_externals\<close>.
\<close>

section \<open>Outcomes and events\<close>

datatype execution_outcome =
    Done channel_state
  | Interrupted json channel_state string

fun outcome_state :: "execution_outcome \<Rightarrow> channel_state" where
  "outcome_state (Done s) = s"
| "outcome_state (Interrupted v s cid) = s"

fun is_interrupted :: "execution_outcome \<Rightarrow> bool" where
  "is_interrupted (Done s) = False"
| "is_interrupted (Interrupted v s cid) = True"

datatype graph_event =
    NodeStart string nat
  | NodeEnd string nat
  | Token string string
  | StateUpdate nat "(string \<times> json) list"
  | CheckpointSaved string nat
  | SuperStep nat "string list"

section \<open>The configuration\<close>

datatype counterpart = Person string | Nobody

fun counterpart_to_value :: "counterpart \<Rightarrow> json" where
  "counterpart_to_value (Person person) = JObject [(''person'', JString person)]"
| "counterpart_to_value Nobody = JObject [(''nobody'', JBool True)]"

text \<open>
  The configuration's plain entries.  The inbox, the journal and the clock it carries are part of
  the world; the handles only node bodies use (admission contexts, repair ledger, memory source,
  tool guards) are part of the nodes, which are functions here.  Values the configuration keeps
  in wire form are JSON.
\<close>

record run_config =
  cf_thread_id :: string
  cf_max_steps :: nat
  cf_resume :: "json option"
  cf_checkpoint_id :: "string option"
  cf_event_tx :: bool
  cf_policy_version :: "string option"
  cf_graph_version :: "string option"
  cf_manifest :: "json option"
  cf_tool_allowlist :: "string list option"
  cf_instructions :: "string option"
  cf_model :: "string option"
  cf_fallback_model :: "string option"
  cf_temperature :: "f64 option"
  cf_attribution :: "json option"
  cf_execution :: "json option"
  cf_skills :: "json option"
  cf_context_policy :: "json option"
  cf_tool_overlays :: "json option"
  cf_tool_outcomes :: "json option"
  cf_agent_id :: "string option"
  cf_started_at :: "nat option"
  cf_counterpart :: "counterpart option"
  cf_memory_blocks :: "string option"
  cf_compaction_state :: bool
  cf_budget :: "run_budget option"

definition DEFAULT_MAX_STEPS :: nat where
  "DEFAULT_MAX_STEPS = 1000"

definition config_new :: "string \<Rightarrow> run_config" where
  "config_new thread_id = \<lparr> cf_thread_id = thread_id, cf_max_steps = DEFAULT_MAX_STEPS,
     cf_resume = None, cf_checkpoint_id = None, cf_event_tx = False, cf_policy_version = None,
     cf_graph_version = None, cf_manifest = None, cf_tool_allowlist = None, cf_instructions = None,
     cf_model = None, cf_fallback_model = None, cf_temperature = None, cf_attribution = None,
     cf_execution = None, cf_skills = None, cf_context_policy = None, cf_tool_overlays = None,
     cf_tool_outcomes = None, cf_agent_id = None, cf_started_at = None, cf_counterpart = None,
     cf_memory_blocks = None, cf_compaction_state = False, cf_budget = None \<rparr>"

definition with_max_steps :: "nat \<Rightarrow> run_config \<Rightarrow> run_config" where
  "with_max_steps n cf = cf \<lparr> cf_max_steps := n \<rparr>"

definition with_resume :: "json \<Rightarrow> run_config \<Rightarrow> run_config" where
  "with_resume value cf = cf \<lparr> cf_resume := Some value \<rparr>"

definition with_checkpoint_id :: "string \<Rightarrow> run_config \<Rightarrow> run_config" where
  "with_checkpoint_id cid cf = cf \<lparr> cf_checkpoint_id := Some cid \<rparr>"

definition budget_is_empty :: "run_budget \<Rightarrow> bool" where
  "budget_is_empty b \<longleftrightarrow> max_tokens b = None \<and> max_cost_usd b = None"

definition with_budget :: "run_budget \<Rightarrow> run_config \<Rightarrow> run_config" where
  "with_budget budget cf = cf \<lparr> cf_budget := (if budget_is_empty budget then None else Some budget) \<rparr>"

definition with_tool_allowlist :: "string list \<Rightarrow> run_config \<Rightarrow> run_config" where
  "with_tool_allowlist tools cf = cf \<lparr> cf_tool_allowlist := Some (remdups_adj (sort tools)) \<rparr>"

section \<open>The world of a run\<close>

record run_externals =
  rx_codec :: codec
  rx_uuid :: "nat \<Rightarrow> string"
  rx_wall :: "nat \<Rightarrow> nat"
  rx_timestamp :: "nat \<Rightarrow> string"
  rx_timestamp_millis :: "nat \<Rightarrow> string"
  rx_number :: "f64 \<Rightarrow> json"
  rx_usd :: "f64 \<Rightarrow> string"
  rx_display :: "rusty_error \<Rightarrow> string"

record 's world =
  w_journal :: journal
  w_store :: 's
  w_inbox :: "inbox option"
  w_ids :: nat
  w_reads :: nat
  w_events :: "graph_event list"

text \<open>The \<open>Checkpointer\<close> operations a run calls.\<close>

record 's store_ops =
  so_put :: "checkpoint \<Rightarrow> 's \<Rightarrow> (rusty_error + unit) \<times> 's"
  so_get_latest :: "'s \<Rightarrow> string \<Rightarrow> rusty_error + checkpoint option"
  so_get_by_id :: "'s \<Rightarrow> string \<Rightarrow> string \<Rightarrow> rusty_error + checkpoint option"

definition memory_ops :: "memory_store store_ops" where
  "memory_ops = \<lparr> so_put = memory_put, so_get_latest = memory_get_latest,
     so_get_by_id = default_get_by_id memory_list \<rparr>"

text \<open>What is fixed during a run once its recorder is set up.\<close>

record recorder =
  rec_graph_version :: string
  rec_graph_hash :: string
  rec_policy_version :: string
  rec_manifest :: "json option"

record 's engine =
  en_externals :: run_externals
  en_checkpointer :: "'s store_ops option"
  en_graph :: graph
  en_spec :: state_spec
  en_config :: run_config
  en_recorder :: recorder

definition emit :: "run_config \<Rightarrow> graph_event \<Rightarrow> 's world \<Rightarrow> 's world" where
  "emit cf event w = (if cf_event_tx cf then w \<lparr> w_events := w_events w @ [event] \<rparr> else w)"

definition record_draft :: "run_externals \<Rightarrow> event_draft \<Rightarrow> 's world \<Rightarrow> string \<times> 's world" where
  "record_draft x draft w =
     (let (eid, j) = record_event (rx_codec x) draft (w_journal w) in (eid, w \<lparr> w_journal := j \<rparr>))"

definition read_clock :: "run_externals \<Rightarrow> 's world \<Rightarrow> nat \<times> 's world" where
  "read_clock x w =
     (let (t, c) = clock_now (rx_codec x) (rx_wall x (w_reads w)) (j_clock (w_journal w))
      in (t, w \<lparr> w_journal := (w_journal w) \<lparr> j_clock := c \<rparr>, w_reads := Suc (w_reads w) \<rparr>))"

definition mint_id :: "run_externals \<Rightarrow> 's world \<Rightarrow> string \<times> 's world" where
  "mint_id x w = (rx_uuid x (w_ids w), w \<lparr> w_ids := Suc (w_ids w) \<rparr>)"

definition mint_checkpoint ::
  "'s engine \<Rightarrow> nat \<Rightarrow> channel_state \<Rightarrow> string list \<Rightarrow> inbox_snapshot option \<Rightarrow> 's world \<Rightarrow> checkpoint \<times> 's world" where
  "mint_checkpoint en st_step st next_nodes inbox w =
     (let x = en_externals en; rc = en_recorder en;
          (cid, w1) = mint_id x w;
          (created_at, w2) = read_clock x w1;
          (logical_clock, w3) = read_clock x w2
      in (\<lparr> cp_id = cid, cp_thread_id = cf_thread_id (en_config en), cp_step = st_step, cp_state = st,
            cp_next_nodes = next_nodes, cp_created_at = created_at, cp_base = None,
            cp_header = \<lparr> h_format_version = CURRENT_FORMAT_VERSION,
              h_graph_version = rec_graph_version rc, h_graph_hash = rec_graph_hash rc,
              h_policy_version = rec_policy_version rc, h_logical_clock = logical_clock,
              h_manifest = rec_manifest rc, h_inbox = inbox \<rparr>,
            cp_journal_ref = Some (head_ref (w_journal w3)) \<rparr>, w3))"

text \<open>
  Putting a minted checkpoint, journaling \<open>checkpoint_written\<close> and telling the stream.  The
  payload's entries besides the id and the step differ between the four places that write one.
\<close>

definition written_draft :: "string \<Rightarrow> nat \<Rightarrow> (string \<times> json) list \<Rightarrow> string option \<Rightarrow> event_draft" where
  "written_draft cid st_step entries parent =
     (draft_new KCheckpointWritten Idempotent) \<lparr>
        d_output := Some (JObject (bt_of_list ([(''checkpoint_id'', JString cid),
          (''step'', json_nat st_step)] @ entries))),
        d_parent := parent \<rparr>"

definition put_checkpoint ::
  "'s engine \<Rightarrow> 's store_ops \<Rightarrow> checkpoint \<Rightarrow> (string \<times> json) list \<Rightarrow> string option \<Rightarrow> 's world \<Rightarrow>
     (rusty_error + unit) \<times> 's world" where
  "put_checkpoint en ck cp entries parent w =
     (case so_put ck cp (w_store w) of
        (Inl e, s) \<Rightarrow> (Err e, w \<lparr> w_store := s \<rparr>)
      | (Inr _, s) \<Rightarrow>
          let (eid, w1) = record_draft (en_externals en)
                (written_draft (cp_id cp) (cp_step cp) entries parent) (w \<lparr> w_store := s \<rparr>)
          in (Ok (), emit (en_config en) (CheckpointSaved (cp_id cp) (cp_step cp)) w1))"

section \<open>The spend guard\<close>

text \<open>The message joins its two halves by an em dash (three bytes in UTF-8).\<close>

definition budget_message :: "string \<Rightarrow> string" where
  "budget_message crossed = crossed @ '' '' @ [CHR 0xE2, CHR 0x80, CHR 0x94] @
     '' the run stops here; its last checkpoint stands''"

definition check_spend ::
  "run_externals \<Rightarrow> run_config \<Rightarrow> journal \<Rightarrow> spend \<Rightarrow> nat \<Rightarrow> (rusty_error + unit) \<times> spend \<times> nat" where
  "check_spend x cf j sp seen =
     (case cf_budget cf of
        None \<Rightarrow> (Ok (), sp, seen)
      | Some budget \<Rightarrow>
          let new_events = events_from j seen;
              sp' = foldl observe sp new_events
          in (case exceeds (rx_usd x) sp' budget of
                Some crossed \<Rightarrow> Err (Budget (budget_message crossed))
              | None \<Rightarrow> Ok (), sp', seen + length new_events))"

section \<open>The run-config declaration\<close>

definition opt_entry :: "string \<Rightarrow> json option \<Rightarrow> (string \<times> json) list" where
  "opt_entry k v = (case v of None \<Rightarrow> [] | Some x \<Rightarrow> [(k, x)])"

definition budget_to_value :: "run_externals \<Rightarrow> run_budget \<Rightarrow> json" where
  "budget_to_value x b = JObject (opt_entry ''max_cost_usd'' (map_option (rx_number x) (max_cost_usd b)) @
     opt_entry ''max_tokens'' (map_option json_nat (max_tokens b)))"

definition declares :: "run_config \<Rightarrow> bool" where
  "declares cf \<longleftrightarrow> cf_manifest cf \<noteq> None \<or> cf_tool_allowlist cf \<noteq> None \<or> cf_policy_version cf \<noteq> None \<or>
     cf_graph_version cf \<noteq> None \<or> cf_attribution cf \<noteq> None \<or> cf_context_policy cf \<noteq> None \<or>
     cf_tool_overlays cf \<noteq> None \<or> cf_tool_outcomes cf \<noteq> None \<or> cf_budget cf \<noteq> None \<or>
     cf_counterpart cf \<noteq> None \<or> cf_agent_id cf \<noteq> None"

definition declaration_to_value :: "run_externals \<Rightarrow> run_config \<Rightarrow> recorder \<Rightarrow> nat option \<Rightarrow> json" where
  "declaration_to_value x cf rc started_at = JObject (bt_of_list (
     [(''graph_version'', JString (rec_graph_version rc)), (''graph_hash'', JString (rec_graph_hash rc)),
      (''policy_version'', JString (rec_policy_version rc))] @
     opt_entry ''tool_allowlist'' (map_option (\<lambda>ts. JArray (map JString ts)) (cf_tool_allowlist cf)) @
     opt_entry ''manifest'' (cf_manifest cf) @
     opt_entry ''context_policy'' (cf_context_policy cf) @
     opt_entry ''attribution'' (cf_attribution cf) @
     opt_entry ''tool_overlays'' (cf_tool_overlays cf) @
     opt_entry ''tool_outcomes'' (cf_tool_outcomes cf) @
     opt_entry ''budget'' (map_option (budget_to_value x) (cf_budget cf)) @
     opt_entry ''counterpart'' (map_option counterpart_to_value (cf_counterpart cf)) @
     opt_entry ''agent_id'' (map_option JString (cf_agent_id cf)) @
     opt_entry ''started_at'' (map_option (\<lambda>t. JString (rx_timestamp x t)) started_at) @
     opt_entry ''world'' (map_option JString
       (Option.bind (Option.bind (cf_execution cf) (\<lambda>e. json_get e ''world'')) as_str))))"

section \<open>Recording\<close>

lemma record_draft_journal:
  "w_journal (snd (record_draft x d w)) = snd (record_event (rx_codec x) d (w_journal w))"
  "w_store (snd (record_draft x d w)) = w_store w" "w_inbox (snd (record_draft x d w)) = w_inbox w"
  by (simp_all add: record_draft_def split_beta)

lemma record_event_appends: "\<exists>e. j_events (snd (record_event cd d j)) = j_events j @ [e]"
  using record_event_cases [of cd j d] by metis

end
