(* ===== verification/Super_Step.thy ===== *)
theory Super_Step
  imports Run_Config
begin

text \<open>
  One super-step (executor.rs, \<open>execute_super_step\<close>): plan, compute, barrier, merge, route and
  boundary checkpoint.

  A node body and a router are functions of what they are given.  What the scheduler and the
  rest of the process decide is an argument, the step environment: the order in which the tasks
  finish, which tasks panic, the measured latencies, and the actions other tasks perform on the
  shared world between the executor's own steps: recording events, reading the run's clock,
  sending to the inbox or cancelling through it.  The finish order is made total: tasks the
  environment does not mention finish last, in index order.  The middleware chain is empty.
\<close>

section \<open>The environment of a step\<close>

datatype world_action =
    Records event_draft
  | ReadsClock
  | Sends string inbox_target bool json
  | Cancels cancel_cause bool

fun act :: "run_externals \<Rightarrow> world_action \<Rightarrow> 's world \<Rightarrow> 's world" where
  "act x (Records d) w = snd (record_draft x d w)"
| "act x ReadsClock w = snd (read_clock x w)"
| "act x (Sends sender target wakeup content) w =
     w \<lparr> w_inbox := map_option (\<lambda>ib. snd (inbox_send sender target wakeup content ib)) (w_inbox w) \<rparr>"
| "act x (Cancels cause keep) w = w \<lparr> w_inbox := map_option (inbox_cancel cause keep) (w_inbox w) \<rparr>"

definition perform :: "run_externals \<Rightarrow> world_action list \<Rightarrow> 's world \<Rightarrow> 's world" where
  "perform x actions w = fold (act x) actions w"

text \<open>
  \<open>sv_arrivals\<close> happen before the boundary settles the inbox, \<open>sv_boundary\<close> between settling
  and looking for a cancellation, \<open>sv_during v i\<close> after task \<open>i\<close> was spawned, \<open>sv_joining v k\<close>
  before the \<open>k\<close>-th task joins, and \<open>sv_late\<close> before a finished turn looks for follow-ups.
\<close>

record step_env =
  sv_arrivals :: "world_action list"
  sv_boundary :: "world_action list"
  sv_cancelled :: bool
  sv_during :: "nat \<Rightarrow> world_action list"
  sv_joining :: "nat \<Rightarrow> world_action list"
  sv_order :: "nat list"
  sv_panics :: "nat list"
  sv_latency :: "nat \<Rightarrow> nat"
  sv_late :: "world_action list"

definition finish_order :: "step_env \<Rightarrow> nat \<Rightarrow> nat list" where
  "finish_order v n = remdups (filter (\<lambda>i. i < n) (sv_order v)) @
     filter (\<lambda>i. i \<notin> set (sv_order v)) [0..<n]"

section \<open>Compute\<close>

record active_task =
  at_name :: string
  at_scoped :: "json option"

definition unscoped :: "string \<Rightarrow> active_task" where
  "unscoped name = \<lparr> at_name = name, at_scoped = None \<rparr>"

record step_input =
  si_step :: nat
  si_resume :: "json option"
  si_delivery :: "inbox_message list"
  si_started_at :: "nat option"
  si_start_event :: string
  si_snapshot :: channel_state

record invocation =
  iv_name :: string
  iv_effect :: effect
  iv_input_event :: string
  iv_result :: "rusty_error + node_output"

definition plan_draft :: "nat \<Rightarrow> active_task list \<Rightarrow> string option \<Rightarrow> event_draft" where
  "plan_draft st_step active parent =
     (draft_new KSuperStepStart Pure) \<lparr>
        d_input := Some (JObject [(''active_nodes'', JArray (map (JString \<circ> at_name) active)),
          (''step'', json_nat st_step)]),
        d_parent := parent \<rparr>"

definition overlay :: "active_task \<Rightarrow> channel_state \<Rightarrow> rusty_error + channel_state" where
  "overlay t st =
     (case at_scoped t of
        None \<Rightarrow> Ok st
      | Some scoped \<Rightarrow>
          (case scoped of
             JObject m \<Rightarrow> Ok (fold (\<lambda>(channel, value). state_insert channel value) m st)
           | other \<Rightarrow> Err (InvalidUpdate (SendNotObject (at_name t) other))))"

definition extra_entries :: "'s engine \<Rightarrow> step_input \<Rightarrow> string \<Rightarrow> (string \<times> json) list" where
  "extra_entries en si input_event =
     (let cf = en_config en; x = en_externals en in
      [(''rusty.parent_event'', JString input_event)] @
      opt_entry ''rusty.instructions'' (map_option JString (cf_instructions cf)) @
      opt_entry ''rusty.model'' (map_option JString (cf_model cf)) @
      opt_entry ''rusty.fallback_model'' (map_option JString (cf_fallback_model cf)) @
      opt_entry ''rusty.temperature'' (map_option (rx_number x) (cf_temperature cf)) @
      opt_entry ''rusty.context_policy'' (cf_context_policy cf) @
      (if cf_compaction_state cf then [(''rusty.compaction_state'', JBool True)] else []) @
      opt_entry ''rusty.skills'' (cf_skills cf) @
      opt_entry ''rusty.tool_overlays'' (cf_tool_overlays cf) @
      opt_entry ''rusty.tool_outcomes'' (cf_tool_outcomes cf) @
      opt_entry ''rusty.attribution'' (cf_attribution cf) @
      opt_entry ''rusty.execution'' (cf_execution cf) @
      opt_entry ''rusty.agent_id'' (map_option JString (cf_agent_id cf)) @
      opt_entry ''rusty.counterpart'' (map_option counterpart_to_value (cf_counterpart cf)) @
      opt_entry ''rusty.memory_blocks'' (map_option JString (cf_memory_blocks cf)) @
      opt_entry ''rusty.started_at'' (map_option (\<lambda>t. JString (rx_timestamp_millis x t)) (si_started_at si)) @
      opt_entry ''__rusty_tool_allowlist''
        (map_option (\<lambda>ts. JArray (map JString ts)) (cf_tool_allowlist cf)) @
      (if si_delivery si \<noteq> []
       then [(''rusty.inbox_delivery'', JArray (map message_to_value (si_delivery si)))] else []))"

definition invocation_context :: "'s engine \<Rightarrow> step_input \<Rightarrow> channel_state \<Rightarrow> string \<Rightarrow> node_context" where
  "invocation_context en si node_state input_event =
     \<lparr> ctx_state = node_state,
       ctx_config = \<lparr> cfg_thread_id = cf_thread_id (en_config en), cfg_step = si_step si,
         cfg_resume = si_resume si,
         cfg_extra = fold (\<lambda>(k, v). hm_insert k v) (extra_entries en si input_event) [] \<rparr> \<rparr>"

definition spawn_task ::
  "'s engine \<Rightarrow> step_input \<Rightarrow> active_task \<Rightarrow> 's world \<Rightarrow> (rusty_error + invocation) \<times> 's world" where
  "spawn_task en si t w =
     (case graph_node (en_graph en) (at_name t) of
        None \<Rightarrow> (Err (Graph (ActivatedUnknown (at_name t))), w)
      | Some node \<Rightarrow>
          (case overlay t (si_snapshot si) of
             Inl e \<Rightarrow> (Err e, w)
           | Inr node_state \<Rightarrow>
               let (input_event, w1) = record_draft (en_externals en)
                     ((draft_new KNodeInput (node_effect node)) \<lparr> d_node := Some (at_name t),
                        d_input := Some (state_to_value node_state),
                        d_parent := Some (si_start_event si) \<rparr>) w
               in (Ok \<lparr> iv_name = at_name t, iv_effect = node_effect node, iv_input_event = input_event,
                       iv_result = node_run node (invocation_context en si node_state input_event) \<rparr>,
                   emit (en_config en) (NodeStart (at_name t) (si_step si)) w1)))"

fun spawn_tasks ::
  "'s engine \<Rightarrow> step_env \<Rightarrow> step_input \<Rightarrow> nat \<Rightarrow> active_task list \<Rightarrow> 's world \<Rightarrow>
     (rusty_error + invocation list) \<times> 's world" where
  "spawn_tasks en v si i [] w = (Ok [], w)"
| "spawn_tasks en v si i (t # ts) w =
     (case spawn_task en si t w of
        (Inl e, w1) \<Rightarrow> (Err e, w1)
      | (Inr iv, w1) \<Rightarrow>
          (case spawn_tasks en v si (Suc i) ts (perform (en_externals en) (sv_during v i) w1) of
             (Inl e, w2) \<Rightarrow> (Err e, w2)
           | (Inr ivs, w2) \<Rightarrow> (Ok (iv # ivs), w2)))"

section \<open>Barrier\<close>

record barrier =
  br_writes :: "(nat \<times> node_write) list"
  br_commands :: "command list"
  br_ran :: "string list"
  br_completed :: "(nat \<times> string \<times> nat \<times> json) list"

definition empty_barrier :: barrier where
  "empty_barrier = \<lparr> br_writes = [], br_commands = [], br_ran = [], br_completed = [] \<rparr>"

definition command_to_value :: "command option \<Rightarrow> json" where
  "command_to_value c =
     (case c of
        None \<Rightarrow> JNull
      | Some c \<Rightarrow> JObject ([(''goto'', JArray (map JString (cmd_goto c)))] @ opt_entry ''resume'' (cmd_resume c)))"

definition output_to_value :: "node_output \<Rightarrow> json" where
  "output_to_value out = JObject [(''command'', command_to_value (out_command out)),
     (''updates'', JObject (bt_of_list (out_updates out)))]"

definition routing_commands :: "node_output \<Rightarrow> command list" where
  "routing_commands out =
     (case out_command out of None \<Rightarrow> [] | Some c \<Rightarrow> if cmd_goto c \<noteq> [] then [c] else [])"

definition collect :: "nat \<Rightarrow> string \<Rightarrow> nat \<Rightarrow> node_output \<Rightarrow> barrier \<Rightarrow> barrier" where
  "collect i name latency out b =
     \<lparr> br_writes = br_writes b @ [(i, name, out_updates out)],
       br_commands = br_commands b @ routing_commands out,
       br_ran = br_ran b @ [name],
       br_completed = br_completed b @ [(i, name, latency, output_to_value out)] \<rparr>"

datatype barrier_end = AllJoined | Suspended nat json | Aborted rusty_error

definition failure_draft :: "run_externals \<Rightarrow> invocation \<Rightarrow> nat \<Rightarrow> rusty_error \<Rightarrow> event_draft" where
  "failure_draft x iv latency e =
     (draft_new KNodeOutput (iv_effect iv)) \<lparr> d_node := Some (iv_name iv), d_status := StatusError,
        d_output := Some (JObject [(''error'', JString (rx_display x e))]),
        d_latency_ms := Some latency, d_parent := Some (iv_input_event iv) \<rparr>"

fun join_tasks ::
  "'s engine \<Rightarrow> step_env \<Rightarrow> nat \<Rightarrow> invocation list \<Rightarrow> nat \<Rightarrow> nat list \<Rightarrow> barrier \<Rightarrow> 's world \<Rightarrow>
     barrier_end \<times> barrier \<times> 's world" where
  "join_tasks en v st_step ivs k [] b w = (AllJoined, b, w)"
| "join_tasks en v st_step ivs k (i # is) b w =
     (let iv = ivs ! i;
          w1 = perform (en_externals en) (sv_joining v k) w
      in if i \<in> set (sv_panics v) then (Aborted (Node JoinFailed), b, w1)
         else case iv_result iv of
           Inr out \<Rightarrow>
             join_tasks en v st_step ivs (Suc k) is (collect i (iv_name iv) (sv_latency v i) out b)
               (emit (en_config en) (NodeEnd (iv_name iv) st_step) w1)
         | Inl e \<Rightarrow>
             (case interrupt_value e of
                Some value \<Rightarrow> (Suspended i value, b, w1)
              | None \<Rightarrow>
                  (Aborted (Node (NodeFailed (iv_name iv) st_step e)), b,
                   snd (record_draft (en_externals en)
                     (failure_draft (en_externals en) iv (sv_latency v i) e) w1))))"

section \<open>Suspension\<close>

datatype step_transition =
    Next "active_task list" string "inbox_message list"
  | Finish execution_outcome

definition inbox_stamp :: "inbox_message list \<Rightarrow> 's world \<Rightarrow> inbox_snapshot option" where
  "inbox_stamp pending w =
     map_option (\<lambda>s. s \<lparr> is_pending_delivery := pending \<rparr>) (Option.bind (w_inbox w) inbox_snapshot_of)"

definition suspend_step ::
  "'s engine \<Rightarrow> nat \<Rightarrow> inbox_message list \<Rightarrow> channel_state \<Rightarrow> active_task list \<Rightarrow> invocation \<Rightarrow> json \<Rightarrow>
     's world \<Rightarrow> (rusty_error + step_transition) \<times> 's world" where
  "suspend_step en st_step delivery st active iv value w =
     (let (interrupt_event, w1) = record_draft (en_externals en)
            ((draft_new KInterrupt (iv_effect iv)) \<lparr> d_node := Some (iv_name iv), d_input := Some value,
               d_status := StatusInterrupted, d_parent := Some (iv_input_event iv) \<rparr>) w;
          (cp, w2) = mint_checkpoint en st_step st (map at_name active) (inbox_stamp delivery w1) w1;
          suspended = Finish (Interrupted value st (cp_id cp))
      in case en_checkpointer en of
           None \<Rightarrow> (Ok suspended, w2)
         | Some ck \<Rightarrow>
             (case put_checkpoint en ck cp [(''suspension'', JBool True)] (Some interrupt_event) w2 of
                (Inl e, w3) \<Rightarrow> (Err e, w3)
              | (Inr _, w3) \<Rightarrow> (Ok suspended, w3)))"

section \<open>Merge\<close>

fun record_outputs ::
  "run_externals \<Rightarrow> invocation list \<Rightarrow> (nat \<times> string \<times> nat \<times> json) list \<Rightarrow> string option \<Rightarrow> 's world \<Rightarrow>
     string option \<times> 's world" where
  "record_outputs x ivs [] last_output w = (last_output, w)"
| "record_outputs x ivs ((i, name, latency, output_json) # cs) last_output w =
     (case record_draft x
        ((draft_new KNodeOutput (iv_effect (ivs ! i))) \<lparr> d_node := Some name, d_output := Some output_json,
           d_latency_ms := Some latency, d_parent := Some (iv_input_event (ivs ! i)) \<rparr>) w of
        (eid, w1) \<Rightarrow> record_outputs x ivs cs (Some eid) w1)"

definition merged_updates :: "channel_state \<Rightarrow> node_write list \<Rightarrow> (string \<times> json) list" where
  "merged_updates st ws = bt_of_list (List.map_filter
     (\<lambda>ch. map_option (Pair ch) (state_get st ch)) (remdups (concat (map (map fst \<circ> snd) ws))))"

section \<open>Route\<close>

type_synonym plan = "active_task list \<times> string list"

fun plan_node :: "string \<Rightarrow> plan \<Rightarrow> plan" where
  "plan_node target (next, planned) =
     (if target \<in> set planned then (next, planned) else (next @ [unscoped target], target # planned))"

fun plan_gotos :: "graph \<Rightarrow> string list \<Rightarrow> plan \<Rightarrow> rusty_error + plan" where
  "plan_gotos g [] p = Ok p"
| "plan_gotos g (target # ts) p =
     (if \<not> has_node g target then Err (Graph (GotoUnknown target))
      else plan_gotos g ts (plan_node target p))"

fun plan_sends :: "graph \<Rightarrow> string \<Rightarrow> send_item list \<Rightarrow> plan \<Rightarrow> rusty_error + plan" where
  "plan_sends g name [] p = Ok p"
| "plan_sends g name (s # ss) p =
     (if \<not> has_node g (send_node s) then Err (Graph (SendUnknown name (send_node s)))
      else plan_sends g name ss
        (fst p @ [\<lparr> at_name = send_node s, at_scoped = Some (send_state s) \<rparr>], snd p))"

definition plan_route :: "graph \<Rightarrow> string \<Rightarrow> route \<Rightarrow> plan \<Rightarrow> rusty_error + plan" where
  "plan_route g name r p =
     (case r of
        RouteNode target \<Rightarrow>
          if \<not> has_node g target then Err (Graph (RouterUnknown name target)) else Ok (plan_node target p)
      | RouteSend sends \<Rightarrow> plan_sends g name sends p
      | RouteEnd \<Rightarrow> Ok p)"

fun plan_edges :: "graph \<Rightarrow> channel_state \<Rightarrow> string \<Rightarrow> edge list \<Rightarrow> plan \<Rightarrow> rusty_error + plan" where
  "plan_edges g st name [] p = Ok p"
| "plan_edges g st name (Direct f t # es) p = plan_edges g st name es (plan_node t p)"
| "plan_edges g st name (Conditional f router # es) p =
     rbind (router st) (\<lambda>r. rbind (plan_route g name r p) (plan_edges g st name es))"

fun plan_ran :: "graph \<Rightarrow> channel_state \<Rightarrow> string list \<Rightarrow> string list \<Rightarrow> plan \<Rightarrow> rusty_error + plan" where
  "plan_ran g st [] evaluated p = Ok p"
| "plan_ran g st (name # ns) evaluated p =
     (if name \<in> set evaluated then plan_ran g st ns evaluated p
      else rbind (plan_edges g st name (outgoing_edges g name) p)
        (plan_ran g st ns (name # evaluated)))"

definition goto_targets :: "command list \<Rightarrow> string list" where
  "goto_targets commands = concat (map cmd_goto commands)"

definition route_step ::
  "graph \<Rightarrow> channel_state \<Rightarrow> command list \<Rightarrow> string list \<Rightarrow> rusty_error + active_task list" where
  "route_step g st commands ran_nodes =
     rbind (if commands \<noteq> [] then plan_gotos g (goto_targets commands) ([], [])
            else plan_ran g st ran_nodes [] ([], []))
       (\<lambda>p. Ok (fst p))"

section \<open>Turn extension and the boundary checkpoint\<close>

definition consumed_draft ::
  "consumption_point \<Rightarrow> nat \<Rightarrow> inbox_message list \<Rightarrow> string option \<Rightarrow> event_draft" where
  "consumed_draft point st_step messages parent =
     (draft_new KInboxConsumed Pure) \<lparr>
        d_output := Some (consumption_to_value point st_step messages), d_parent := parent \<rparr>"

definition settle_world :: "run_externals \<Rightarrow> string option \<Rightarrow> inbox \<Rightarrow> 's world \<Rightarrow> string option \<times> 's world" where
  "settle_world x parent ib w =
     (let (last_event, ib', j) = settle (rx_codec x) parent ib (w_journal w)
      in (last_event, w \<lparr> w_journal := j, w_inbox := Some ib' \<rparr>))"

definition extend_turn ::
  "'s engine \<Rightarrow> step_env \<Rightarrow> nat \<Rightarrow> string \<Rightarrow> active_task list \<Rightarrow> 's world \<Rightarrow>
     active_task list \<times> inbox_message list \<times> string \<times> 's world" where
  "extend_turn en v st_step end_event next w =
     (if next \<noteq> [] then (next, [], end_event, w)
      else
        let x = en_externals en; w0 = perform x (sv_late v) w in
        case w_inbox w0 of
          None \<Rightarrow> ([], [], end_event, w0)
        | Some ib \<Rightarrow>
            let (last_event, w1) = settle_world x (Some end_event) ib w0;
                route_parent = (case last_event of Some l \<Rightarrow> l | None \<Rightarrow> end_event);
                ib1 = the (w_inbox w1);
                (followups, ib2) = drain_followups ib1
            in if followups = [] then ([], [], route_parent, w1 \<lparr> w_inbox := Some ib2 \<rparr>)
               else
                 let (staged, ib3) = drain_staged ib2;
                     extension = followups @ staged;
                     (eid, w2) = record_draft x
                       (consumed_draft TurnExtension st_step extension (Some route_parent))
                       (w1 \<lparr> w_inbox := Some ib3 \<rparr>)
                 in ([unscoped (g_entry (en_graph en))], extension, eid, w2))"

definition task_to_value :: "active_task \<Rightarrow> json" where
  "task_to_value t = JObject [(''node'', JString (at_name t)),
     (''scoped'', case at_scoped t of None \<Rightarrow> JNull | Some s \<Rightarrow> s)]"

definition routing_draft :: "active_task list \<Rightarrow> command list \<Rightarrow> string \<Rightarrow> event_draft" where
  "routing_draft next commands parent =
     (draft_new KRoutingDecision Pure) \<lparr>
        d_output := Some (JObject [(''goto'', JArray (map JString (goto_targets commands))),
          (''next'', JArray (map task_to_value next))]),
        d_parent := Some parent \<rparr>"

definition boundary_checkpoint ::
  "'s engine \<Rightarrow> nat \<Rightarrow> channel_state \<Rightarrow> active_task list \<Rightarrow> inbox_message list \<Rightarrow> string \<Rightarrow> 's world \<Rightarrow>
     (rusty_error + unit) \<times> 's world" where
  "boundary_checkpoint en st_step st next extension route_event w =
     (case en_checkpointer en of
        None \<Rightarrow> (Ok (), w)
      | Some ck \<Rightarrow>
          let (cp, w1) = mint_checkpoint en st_step st (map at_name next) (inbox_stamp extension w) w
          in put_checkpoint en ck cp [(''suspension'', JBool False)] (Some route_event) w1)"

definition step_end_draft :: "(string \<times> json) list \<Rightarrow> string \<Rightarrow> event_draft" where
  "step_end_draft merged parent =
     (draft_new KSuperStepEnd Pure) \<lparr> d_output := Some (JObject merged), d_parent := Some parent \<rparr>"

text \<open>The part of the step after every task joined; it returns the merged state as well.\<close>

definition route_and_save ::
  "'s engine \<Rightarrow> step_env \<Rightarrow> nat \<Rightarrow> channel_state \<Rightarrow> barrier \<Rightarrow> string \<Rightarrow> 's world \<Rightarrow>
     (rusty_error + step_transition \<times> channel_state) \<times> 's world" where
  "route_and_save en v st_step st b end_event w =
     (case route_step (en_graph en) st (br_commands b) (br_ran b) of
        Inl e \<Rightarrow> (Err e, w)
      | Inr routed \<Rightarrow>
          (case extend_turn en v st_step end_event routed w of
             (next, extension, route_parent, w1) \<Rightarrow>
               let (route_event, w2) = record_draft (en_externals en)
                     (routing_draft next (br_commands b) route_parent) w1
               in case boundary_checkpoint en st_step st next extension route_event w2 of
                    (Inl e, w3) \<Rightarrow> (Err e, w3)
                  | (Inr _, w3) \<Rightarrow>
                      (Ok (if next = [] then Finish (Done st) else Next next route_event extension, st), w3)))"

definition commit_step ::
  "'s engine \<Rightarrow> step_env \<Rightarrow> step_input \<Rightarrow> invocation list \<Rightarrow> barrier \<Rightarrow> 's world \<Rightarrow>
     (rusty_error + step_transition \<times> channel_state) \<times> 's world" where
  "commit_step en v si ivs b w =
     (let x = en_externals en;
          (last_output, w1) = record_outputs x ivs (sort_key fst (br_completed b)) None w;
          writes = map snd (sort_key fst (br_writes b))
      in case apply_super_step (en_spec en) (si_snapshot si) writes of
           (st, Inl e) \<Rightarrow> (Err e, w1)
         | (st, Inr _) \<Rightarrow>
             let merged = merged_updates st writes;
                 (end_event, w2) = record_draft x (step_end_draft merged
                   (case last_output of Some l \<Rightarrow> l | None \<Rightarrow> si_start_event si)) w1;
                 w3 = (if merged \<noteq> [] then emit (en_config en) (StateUpdate (si_step si) merged) w2 else w2)
             in route_and_save en v (si_step si) st b end_event w3)"

section \<open>The super-step\<close>

definition plan_step ::
  "'s engine \<Rightarrow> channel_state \<Rightarrow> active_task list \<Rightarrow> nat \<Rightarrow> json option \<Rightarrow> string option \<Rightarrow>
     inbox_message list \<Rightarrow> nat option \<Rightarrow> 's world \<Rightarrow> step_input \<times> 's world" where
  "plan_step en st active st_step resume step_parent delivery started_at w =
     (let w0 = emit (en_config en) (SuperStep st_step (map at_name active)) w;
          (start_event, w1) = record_draft (en_externals en) (plan_draft st_step active step_parent) w0
      in (\<lparr> si_step = st_step, si_resume = resume, si_delivery = delivery, si_started_at = started_at,
            si_start_event = start_event, si_snapshot = st \<rparr>, w1))"

definition execute_super_step ::
  "'s engine \<Rightarrow> step_env \<Rightarrow> channel_state \<Rightarrow> active_task list \<Rightarrow> nat \<Rightarrow> json option \<Rightarrow> string option \<Rightarrow>
     inbox_message list \<Rightarrow> nat option \<Rightarrow> 's world \<Rightarrow>
     (rusty_error + step_transition \<times> channel_state) \<times> 's world" where
  "execute_super_step en v st active st_step resume step_parent delivery started_at w =
     (case plan_step en st active st_step resume step_parent delivery started_at w of
        (si, w1) \<Rightarrow>
          (case spawn_tasks en v si 0 active w1 of
             (Inl e, w2) \<Rightarrow> (Err e, w2)
           | (Inr ivs, w2) \<Rightarrow>
               (case join_tasks en v st_step ivs 0 (finish_order v (length active)) empty_barrier w2 of
                  (Aborted e, b, w3) \<Rightarrow> (Err e, w3)
                | (Suspended i value, b, w3) \<Rightarrow>
                    (case suspend_step en st_step delivery st active (ivs ! i) value w3 of
                       (Inl e, w4) \<Rightarrow> (Err e, w4)
                     | (Inr tr, w4) \<Rightarrow> (Ok (tr, st), w4))
                | (AllJoined, b, w3) \<Rightarrow> commit_step en v si ivs b w3)))"

lemma plan_step_fields:
  assumes "plan_step en st active n resume parent delivery sa w = (si, w1)"
  shows "si_snapshot si = st" "si_step si = n"
  using assms by (auto simp: plan_step_def Let_def split: prod.splits)

text \<open>The four ways a super-step can go.\<close>

lemma execute_cases:
  assumes "execute_super_step en v st active n resume parent delivery sa w = (r, w')"
  obtains (not_spawned) si w1 e where
      "plan_step en st active n resume parent delivery sa w = (si, w1)"
      "spawn_tasks en v si 0 active w1 = (Err e, w')" "r = Err e"
  | (aborted) si w1 ivs w2 e b where
      "plan_step en st active n resume parent delivery sa w = (si, w1)"
      "spawn_tasks en v si 0 active w1 = (Ok ivs, w2)"
      "join_tasks en v n ivs 0 (finish_order v (length active)) empty_barrier w2 = (Aborted e, b, w')" "r = Err e"
  | (suspended) si w1 ivs w2 i val b w3 s where
      "plan_step en st active n resume parent delivery sa w = (si, w1)"
      "spawn_tasks en v si 0 active w1 = (Ok ivs, w2)"
      "join_tasks en v n ivs 0 (finish_order v (length active)) empty_barrier w2 = (Suspended i val, b, w3)"
      "suspend_step en n delivery st active (ivs ! i) val w3 = (s, w')"
      "r = rbind s (\<lambda>tr. Ok (tr, st))"
  | (committed) si w1 ivs w2 b w3 where
      "plan_step en st active n resume parent delivery sa w = (si, w1)"
      "spawn_tasks en v si 0 active w1 = (Ok ivs, w2)"
      "join_tasks en v n ivs 0 (finish_order v (length active)) empty_barrier w2 = (AllJoined, b, w3)"
      "commit_step en v si ivs b w3 = (r, w')"
proof -
  obtain si w1 where p: "plan_step en st active n resume parent delivery sa w = (si, w1)" by (metis surj_pair)
  obtain sp w2 where sp: "spawn_tasks en v si 0 active w1 = (sp, w2)" by (metis surj_pair)
  note ex = assms [unfolded execute_super_step_def p prod.case sp]
  show thesis
  proof (cases sp)
    case (Inl e)
    then show thesis using not_spawned [OF p] ex sp by auto
  next
    case (Inr ivs)
    obtain e b w3 where jn: "join_tasks en v n ivs 0 (finish_order v (length active)) empty_barrier w2 = (e, b, w3)"
      by (metis surj_pair)
    note ex = ex [unfolded Inr sum.case jn prod.case]
    show thesis
    proof (cases e)
      case AllJoined
      then show thesis using committed [OF p sp [unfolded Inr]] ex jn by simp
    next
      case (Suspended i val)
      obtain s w4 where "suspend_step en n delivery st active (ivs ! i) val w3 = (s, w4)" by (metis surj_pair)
      then show thesis
        using suspended [OF p sp [unfolded Inr] jn [unfolded Suspended]] ex Suspended by (cases s) auto
    next
      case (Aborted f)
      then show thesis using aborted [OF p sp [unfolded Inr]] ex jn by auto
    qed
  qed
qed

section \<open>The barrier does not depend on the finish order\<close>

lemma finish_order_mset: "mset (finish_order v n) = mset [0..<n]"
proof -
  have "distinct (finish_order v n)" "set (finish_order v n) = {0..<n}"
    by (auto simp: finish_order_def)
  then show ?thesis by (metis distinct_upt set_eq_iff_mset_eq_distinct set_upt)
qed

lemma sort_indexed:
  "mset is = mset [0..<n] \<Longrightarrow> sort_key fst (map (\<lambda>i. (i, f i)) is) = map (\<lambda>i. (i, f i)) [0..<n]"
  by (rule sort_key_inj_key_eq) (auto simp: inj_on_def comp_def intro: arg_cong [of _ _ "image_mset _"])

lemma map_by_index: "map f xs = map (\<lambda>i. f (xs ! i)) [0..<length xs]"
  by (rule nth_equalityI) simp_all

definition output_of :: "invocation \<Rightarrow> node_output" where
  "output_of iv = projr (iv_result iv)"

definition barrier_of :: "step_env \<Rightarrow> invocation list \<Rightarrow> nat list \<Rightarrow> barrier" where
  "barrier_of v ivs is =
     \<lparr> br_writes = map (\<lambda>i. (i, iv_name (ivs ! i), out_updates (output_of (ivs ! i)))) is,
       br_commands = concat (map (\<lambda>i. routing_commands (output_of (ivs ! i))) is),
       br_ran = map (\<lambda>i. iv_name (ivs ! i)) is,
       br_completed = map (\<lambda>i. (i, iv_name (ivs ! i), sv_latency v i, output_to_value (output_of (ivs ! i)))) is \<rparr>"

lemma barrier_of_empty [simp]: "barrier_of v ivs [] = empty_barrier"
  by (simp add: barrier_of_def empty_barrier_def)

lemma collect_barrier_of:
  "collect i (iv_name (ivs ! i)) (sv_latency v i) (output_of (ivs ! i)) (barrier_of v ivs is) =
     barrier_of v ivs (is @ [i])"
  by (simp add: collect_def barrier_of_def)

lemma join_tasks_all:
  "join_tasks en v n ivs k is (barrier_of v ivs done_is) w = (AllJoined, b, w') \<Longrightarrow>
     b = barrier_of v ivs (done_is @ is) \<and>
     (\<forall>i \<in> set is. iv_result (ivs ! i) = Ok (output_of (ivs ! i)) \<and> i \<notin> set (sv_panics v))"
proof (induction "is" arbitrary: k done_is w)
  case (Cons i "is")
  then obtain out w1 where out: "iv_result (ivs ! i) = Ok out" "i \<notin> set (sv_panics v)"
    and rest: "join_tasks en v n ivs (Suc k) is
      (collect i (iv_name (ivs ! i)) (sv_latency v i) out (barrier_of v ivs done_is)) w1 = (AllJoined, b, w')"
    by (auto simp: Let_def split: if_splits sum.splits option.splits)
  have "out = output_of (ivs ! i)" using out by (simp add: output_of_def)
  then show ?case
    using Cons.IH [of "Suc k" "done_is @ [i]" w1] out rest by (simp add: collect_barrier_of)
qed simp

text \<open>When every task joined, the writes and the outputs to journal are in active-set order.\<close>

lemma barrier_sorted:
  assumes "mset is = mset [0..<length ivs]"
  shows "map snd (sort_key fst (br_writes (barrier_of v ivs is))) =
      map (\<lambda>iv. (iv_name iv, out_updates (output_of iv))) ivs"
    and "sort_key fst (br_completed (barrier_of v ivs is)) = br_completed (barrier_of v ivs [0..<length ivs])"
proof -
  show "map snd (sort_key fst (br_writes (barrier_of v ivs is))) =
      map (\<lambda>iv. (iv_name iv, out_updates (output_of iv))) ivs"
    using assms by (simp add: barrier_of_def sort_indexed comp_def map_by_index [of _ ivs])
  show "sort_key fst (br_completed (barrier_of v ivs is)) = br_completed (barrier_of v ivs [0..<length ivs])"
    using assms by (simp add: barrier_of_def sort_indexed)
qed

section \<open>What spawning gives\<close>

definition spawned :: "'s engine \<Rightarrow> step_input \<Rightarrow> active_task \<Rightarrow> invocation \<Rightarrow> bool" where
  "spawned en si t iv \<longleftrightarrow> (\<exists>node node_state.
     graph_node (en_graph en) (at_name t) = Some node \<and> overlay t (si_snapshot si) = Ok node_state \<and>
     iv_name iv = at_name t \<and> iv_effect iv = node_effect node \<and>
     iv_result iv = node_run node (invocation_context en si node_state (iv_input_event iv)))"

lemma spawn_task_spawned: "spawn_task en si t w = (Ok iv, w') \<Longrightarrow> spawned en si t iv"
  by (auto simp: spawn_task_def spawned_def split: option.splits sum.splits prod.splits)

lemma spawn_tasks_spawned:
  "spawn_tasks en v si i ts w = (Ok ivs, w') \<Longrightarrow> list_all2 (spawned en si) ts ivs"
proof (induction ts arbitrary: i w ivs)
  case (Cons t ts)
  then obtain iv w1 ivs' where "spawn_task en si t w = (Ok iv, w1)" "ivs = iv # ivs'"
    and "spawn_tasks en v si (Suc i) ts (perform (en_externals en) (sv_during v i) w1) = (Ok ivs', w')"
    by (auto split: prod.splits sum.splits)
  then show ?case using Cons.IH spawn_task_spawned by fastforce
qed simp

end
