(* ===== verification/Finish_Order.thy ===== *)
theory Finish_Order
  imports Super_Step
begin

text \<open>
  A super-step does not depend on the order in which its tasks finish, except for the order in
  which the tasks of the next step are listed.  The first part shows that the tasks a routing
  decision schedules are determined, as a multiset, by the set of nodes that ran; the second that
  the streaming sink has no influence on the step.
\<close>

section \<open>What routing schedules\<close>

text \<open>
  A plan consists of unscoped tasks, one per planned name, and the scoped tasks of the sends:
  \<open>plan_holds T S p\<close> says that \<open>p\<close> plans the names \<open>T\<close> and the sends \<open>S\<close>.
\<close>

definition plan_holds :: "string set \<Rightarrow> active_task multiset \<Rightarrow> plan \<Rightarrow> bool" where
  "plan_holds T S p \<longleftrightarrow> set (snd p) = T \<and> mset (fst p) = image_mset unscoped (mset_set T) + S"

lemma plan_holds_unique: "plan_holds T S p \<Longrightarrow> plan_holds T S p' \<Longrightarrow> mset (fst p) = mset (fst p')"
  by (simp add: plan_holds_def)

lemma plan_holds_empty: "plan_holds {} {#} ([], [])"
  by (simp add: plan_holds_def)

lemma plan_holds_node: "plan_holds T S p \<Longrightarrow> plan_holds (insert t T) S (plan_node t p)"
  by (cases p) (auto simp: plan_holds_def insert_absorb)

lemma plan_gotos_ok:
  "(\<exists>p'. plan_gotos g ts p = Ok p') \<longleftrightarrow> (\<forall>t \<in> set ts. has_node g t)"
  by (induction ts arbitrary: p) auto

lemma plan_gotos_holds:
  "plan_gotos g ts p = Ok p' \<Longrightarrow> plan_holds T S p \<Longrightarrow> plan_holds (T \<union> set ts) S p'"
proof (induction ts arbitrary: p T)
  case (Cons t ts)
  then have "plan_gotos g ts (plan_node t p) = Ok p'" by (simp split: if_splits)
  then show ?case using Cons.IH [OF _ plan_holds_node [OF Cons.prems(2), of t]] by simp
qed simp

definition send_task :: "send_item \<Rightarrow> active_task" where
  "send_task s = \<lparr> at_name = send_node s, at_scoped = Some (send_state s) \<rparr>"

lemma plan_sends_eq:
  "plan_sends g name ss p =
     (if \<forall>s \<in> set ss. has_node g (send_node s) then Ok (fst p @ map send_task ss, snd p)
      else Err (Graph (SendUnknown name (send_node (the (find (\<lambda>s. \<not> has_node g (send_node s)) ss))))))"
  by (induction ss arbitrary: p) (auto simp: send_task_def)

text \<open>What one node's edges contribute: names and sends, independently of the plan so far.\<close>

definition route_part :: "graph \<Rightarrow> route \<Rightarrow> (string set \<times> active_task multiset) option" where
  "route_part g r =
     (case r of
        RouteNode t \<Rightarrow> if has_node g t then Some ({t}, {#}) else None
      | RouteSend ss \<Rightarrow>
          if \<forall>s \<in> set ss. has_node g (send_node s) then Some ({}, mset (map send_task ss)) else None
      | RouteEnd \<Rightarrow> Some ({}, {#}))"

lemma plan_route_part:
  "(case route_part g r of
      None \<Rightarrow> \<exists>e. plan_route g name r p = Err e
    | Some (T', S') \<Rightarrow> \<exists>p'. plan_route g name r p = Ok p' \<and>
        (\<forall>T S. plan_holds T S p \<longrightarrow> plan_holds (T \<union> T') (S + S') p'))"
  by (cases r) (auto simp: route_part_def plan_route_def plan_sends_eq intro: plan_holds_node,
      auto simp: plan_holds_def)

fun edges_part :: "graph \<Rightarrow> channel_state \<Rightarrow> edge list \<Rightarrow> (string set \<times> active_task multiset) option" where
  "edges_part g st [] = Some ({}, {#})"
| "edges_part g st (Direct f t # es) =
     map_option (\<lambda>(T, S). (insert t T, S)) (edges_part g st es)"
| "edges_part g st (Conditional f router # es) =
     (case router st of
        Inl e \<Rightarrow> None
      | Inr r \<Rightarrow> Option.bind (route_part g r) (\<lambda>(T1, S1).
          map_option (\<lambda>(T, S). (T1 \<union> T, S1 + S)) (edges_part g st es)))"

lemma plan_edges_part:
  "(case edges_part g st es of
      None \<Rightarrow> \<exists>e. plan_edges g st name es p = Err e
    | Some (T', S') \<Rightarrow> \<exists>p'. plan_edges g st name es p = Ok p' \<and>
        (\<forall>T S. plan_holds T S p \<longrightarrow> plan_holds (T \<union> T') (S + S') p'))"
proof (induction g st name es p rule: plan_edges.induct)
  case (2 g st name f t es p)
  then show ?case
    using plan_holds_node [of _ _ p t] by (auto split: option.splits) (metis Un_insert_left Un_insert_right)
next
  case (3 g st name f router es p)
  show ?case
  proof (cases "router st")
    case (Inr r)
    show ?thesis
    proof (cases "route_part g r")
      case None
      then show ?thesis using Inr plan_route_part [of g name r p] by auto
    next
      case (Some TS)
      obtain T1 S1 where TS: "TS = (T1, S1)" by (metis surj_pair)
      obtain p1 where p1: "plan_route g name r p = Ok p1"
        "\<forall>T S. plan_holds T S p \<longrightarrow> plan_holds (T \<union> T1) (S + S1) p1"
        using plan_route_part [of g name r p] Some TS by auto
      show ?thesis
        using 3 [of p1] Inr Some TS p1
        by (auto split: option.splits simp: add.assoc Un_assoc)
           (metis Un_assoc add.assoc)
    qed
  qed simp
qed simp

definition node_part :: "graph \<Rightarrow> channel_state \<Rightarrow> string \<Rightarrow> (string set \<times> active_task multiset) option" where
  "node_part g st name = edges_part g st (outgoing_edges g name)"

definition names_of :: "graph \<Rightarrow> channel_state \<Rightarrow> string set \<Rightarrow> string set" where
  "names_of g st N = (\<Union>n \<in> N. fst (the (node_part g st n)))"

definition sends_of :: "graph \<Rightarrow> channel_state \<Rightarrow> string set \<Rightarrow> active_task multiset" where
  "sends_of g st N = (\<Sum>n \<in> N. snd (the (node_part g st n)))"

lemma node_plan:
  "(\<exists>p'. plan_edges g st name (outgoing_edges g name) p = Ok p') \<longleftrightarrow> node_part g st name \<noteq> None"
  "plan_edges g st name (outgoing_edges g name) p = Ok p' \<Longrightarrow> plan_holds T S p \<Longrightarrow>
     plan_holds (T \<union> fst (the (node_part g st name))) (S + snd (the (node_part g st name))) p'"
  using plan_edges_part [of g st name "outgoing_edges g name" p]
  by (auto simp: node_part_def split: option.splits)

lemma plan_ran_ok:
  "(\<exists>p'. plan_ran g st ns ev p = Ok p') \<longleftrightarrow> (\<forall>n \<in> set ns - set ev. node_part g st n \<noteq> None)"
proof (induction ns arbitrary: ev p)
  case (Cons name ns)
  show ?case
  proof (cases "name \<in> set ev")
    case True
    then have "set (name # ns) - set ev = set ns - set ev" by auto
    then show ?thesis using Cons.IH [of ev p] True by simp
  next
    case False
    have eq: "set (name # ns) - set ev = insert name (set ns - set (name # ev))" using False by auto
    show ?thesis
    proof (cases "plan_edges g st name (outgoing_edges g name) p")
      case (Inl e)
      then have "node_part g st name = None" using node_plan(1) [of g st name p] by (metis sum.distinct(1))
      then show ?thesis using Inl False unfolding eq by simp
    next
      case (Inr p1)
      then have "node_part g st name \<noteq> None" using node_plan(1) [of g st name p] by blast
      then show ?thesis using Inr False Cons.IH [of "name # ev" p1] unfolding eq by simp
    qed
  qed
qed simp

lemma plan_ran_holds:
  "plan_ran g st ns ev p = Ok p' \<Longrightarrow> plan_holds T S p \<Longrightarrow>
     plan_holds (T \<union> names_of g st (set ns - set ev)) (S + sends_of g st (set ns - set ev)) p'"
proof (induction ns arbitrary: ev p T S)
  case Nil
  then show ?case by (simp add: names_of_def sends_of_def)
next
  case (Cons name ns)
  show ?case
  proof (cases "name \<in> set ev")
    case True
    then have "set (name # ns) - set ev = set ns - set ev" by auto
    then show ?thesis using Cons True by simp
  next
    case False
    let ?M = "set ns - set (name # ev)"
    have eq: "set (name # ns) - set ev = insert name ?M" using False by auto
    obtain p1 where p1: "plan_edges g st name (outgoing_edges g name) p = Ok p1"
      "plan_ran g st ns (name # ev) p1 = Ok p'"
      using Cons.prems(1) False by auto
    have "names_of g st (insert name ?M) = fst (the (node_part g st name)) \<union> names_of g st ?M"
      "sends_of g st (insert name ?M) = snd (the (node_part g st name)) + sends_of g st ?M"
      by (simp_all add: names_of_def sends_of_def)
    then show ?thesis
      using Cons.IH [OF p1(2) node_plan(2) [OF p1(1) Cons.prems(2)]] unfolding eq
      by (simp add: Un_assoc add.assoc)
  qed
qed

lemma route_step_perm:
  assumes "route_step g st cs ns = Ok routed" "set ns = set ns'" "cs = [] \<longleftrightarrow> cs' = []"
    "set (goto_targets cs) = set (goto_targets cs')"
  shows "\<exists>routed'. route_step g st cs' ns' = Ok routed' \<and> mset routed' = mset routed"
proof (cases "cs = []")
  case True
  obtain p where p: "plan_ran g st ns [] ([], []) = Ok p" "routed = fst p"
    using assms(1) True by (auto simp: route_step_def)
  then obtain p' where p': "plan_ran g st ns' [] ([], []) = Ok p'"
    using plan_ran_ok [of g st ns "[]"] plan_ran_ok [of g st ns' "[]"] assms(2) by metis
  have "mset (fst p') = mset (fst p)"
    using plan_ran_holds [OF p(1) plan_holds_empty] plan_ran_holds [OF p' plan_holds_empty] assms(2)
    by (auto intro: plan_holds_unique)
  then show ?thesis using p p' True assms(3) by (simp add: route_step_def)
next
  case False
  obtain p where p: "plan_gotos g (goto_targets cs) ([], []) = Ok p" "routed = fst p"
    using assms(1) False by (auto simp: route_step_def)
  then obtain p' where p': "plan_gotos g (goto_targets cs') ([], []) = Ok p'"
    using plan_gotos_ok assms(4) by metis
  have "mset (fst p') = mset (fst p)"
    using plan_gotos_holds [OF p(1) plan_holds_empty] plan_gotos_holds [OF p' plan_holds_empty] assms(4)
    by (auto intro: plan_holds_unique)
  then show ?thesis using p p' False assms(3) by (simp add: route_step_def)
qed

section \<open>The sink does not influence the step\<close>

abbreviation sunk :: "graph_event list \<Rightarrow> 's world \<Rightarrow> 's world" where
  "sunk es w \<equiv> w \<lparr> w_events := es \<rparr>"

lemma record_draft_sunk:
  "record_draft x d (sunk es w) = (fst (record_draft x d w), sunk es (snd (record_draft x d w)))"
  by (simp add: record_draft_def split_beta)

lemma act_sunk: "act x a (sunk es w) = sunk es (act x a w)"
  by (cases a) (simp_all add: record_draft_sunk read_clock_def Let_def split_beta)

lemma perform_sunk: "perform x acts (sunk es w) = sunk es (perform x acts w)"
  by (induction acts arbitrary: w) (simp_all add: perform_def act_sunk)

lemma emit_sunk: "\<exists>es'. emit cf e (sunk es w) = sunk es' w"
  by (auto simp: emit_def)

lemma emit_sinks: "\<exists>es'. emit cf e w = sunk es' w"
  using emit_sunk [of cf e "w_events w" w] by simp

lemma sunk_sunk: "sunk es (sunk es' w) = sunk es w"
  by simp

lemma record_outputs_sunk:
  "record_outputs x ivs cs l (sunk es w) =
     (fst (record_outputs x ivs cs l w), sunk es (snd (record_outputs x ivs cs l w)))"
proof (induction cs arbitrary: l w)
  case (Cons c cs)
  then show ?case by (cases c) (simp add: record_draft_sunk split_beta)
qed simp

lemma settle_world_sunk:
  "settle_world x parent ib (sunk es w) =
     (fst (settle_world x parent ib w), sunk es (snd (settle_world x parent ib w)))"
  by (simp add: settle_world_def split_beta)

lemma extend_turn_sunk:
  "extend_turn en v n ev nx (sunk es w) =
     (case extend_turn en v n ev nx w of (a, b, c, w') \<Rightarrow> (a, b, c, sunk es w'))"
proof (cases "nx = []")
  case True
  show ?thesis
  proof (cases "w_inbox (perform (en_externals en) (sv_late v) w)")
    case (Some ib)
    obtain l w1 where s: "settle_world (en_externals en) (Some ev) ib (perform (en_externals en) (sv_late v) w) = (l, w1)"
      by (metis surj_pair)
    obtain f ib2 where f: "drain_followups (the (w_inbox w1)) = (f, ib2)" by (metis surj_pair)
    obtain sg ib3 where sg: "drain_staged ib2 = (sg, ib3)" by (metis surj_pair)
    have comm: "(sunk es w1) \<lparr> w_inbox := i \<rparr> = sunk es (w1 \<lparr> w_inbox := i \<rparr>)" for i by simp
    show ?thesis
      unfolding extend_turn_def Let_def perform_sunk
      by (simp add: True Some settle_world_sunk s f sg comm record_draft_sunk split_beta del: world.update_convs)
  qed (use True in \<open>simp add: extend_turn_def Let_def perform_sunk\<close>)
qed (simp add: extend_turn_def)

section \<open>Changing the finish order\<close>

fun joined :: "'s engine \<Rightarrow> step_env \<Rightarrow> nat \<Rightarrow> nat \<Rightarrow> 's world \<Rightarrow> 's world" where
  "joined en v k 0 w = w"
| "joined en v k (Suc m) w = joined en v (Suc k) m (perform (en_externals en) (sv_joining v k) w)"

lemma joined_sunk: "joined en v k m (sunk es w) = sunk es (joined en v k m w)"
  by (induction m arbitrary: k w) (simp_all add: perform_sunk)

text \<open>When no task fails, the barrier collects everything and only the sink sees the order.\<close>

lemma join_tasks_ok:
  assumes "\<forall>i \<in> set is. iv_result (ivs ! i) = Ok (output_of (ivs ! i)) \<and> i \<notin> set (sv_panics v)"
  shows "\<exists>es. join_tasks en v n ivs k is (barrier_of v ivs d) w =
     (AllJoined, barrier_of v ivs (d @ is), sunk es (joined en v k (length is) w))"
  using assms
proof (induction "is" arbitrary: k d w)
  case Nil
  then show ?case by (intro exI [of _ "w_events w"]) simp
next
  case (Cons i "is")
  let ?w1 = "perform (en_externals en) (sv_joining v k) w"
  obtain es1 where e: "emit (en_config en) (NodeEnd (iv_name (ivs ! i)) n) ?w1 = sunk es1 ?w1"
    using emit_sinks by blast
  show ?case
    using Cons.IH [of "Suc k" "d @ [i]" "sunk es1 ?w1"] Cons.prems
    by (simp add: Let_def collect_barrier_of e joined_sunk)
qed

lemma join_tasks_order: "join_tasks en (v \<lparr> sv_order := o1 \<rparr>) n ivs k is b w = join_tasks en v n ivs k is b w"
  by (induction "is" arbitrary: k b w) (simp_all add: Let_def split: sum.splits option.splits)

lemma spawn_tasks_order: "spawn_tasks en (v \<lparr> sv_order := o1 \<rparr>) si i ts w = spawn_tasks en v si i ts w"
  by (induction ts arbitrary: i w) (simp_all split: sum.splits prod.splits)

lemma barrier_of_order [simp]: "barrier_of (v \<lparr> sv_order := o1 \<rparr>) = barrier_of v"
  by (simp add: barrier_of_def fun_eq_iff)

lemma joined_order [simp]: "joined en (v \<lparr> sv_order := o1 \<rparr>) k m w = joined en v k m w"
  by (induction m arbitrary: k w) simp_all

lemma extend_turn_order: "extend_turn en (v \<lparr> sv_order := o1 \<rparr>) = extend_turn en v"
  by (intro ext) (simp add: extend_turn_def)

lemma route_and_save_order: "route_and_save en (v \<lparr> sv_order := o1 \<rparr>) = route_and_save en v"
  by (intro ext) (simp only: route_and_save_def extend_turn_order)

lemma commit_step_order: "commit_step en (v \<lparr> sv_order := o1 \<rparr>) = commit_step en v"
  by (intro ext) (simp only: commit_step_def route_and_save_order)

fun scheduled_tasks :: "step_transition \<Rightarrow> active_task list" where
  "scheduled_tasks (Next nx re ext) = nx"
| "scheduled_tasks (Finish outcome) = []"

fun carried_batch :: "step_transition \<Rightarrow> inbox_message list" where
  "carried_batch (Next nx re ext) = ext"
| "carried_batch (Finish outcome) = []"

lemma extend_turn_perm:
  assumes "mset routed' = mset routed" "extend_turn en v n ev routed w = (nx, ext, p, w1)"
  obtains nx' where "extend_turn en v n ev routed' w = (nx', ext, p, w1)" "mset nx' = mset nx"
proof (cases "routed = []")
  case True
  then show thesis using that assms by simp
next
  case False
  then have "routed' \<noteq> []" using assms(1) by auto
  then show thesis using that [of routed'] assms False by (simp add: extend_turn_def)
qed

section \<open>Two journals that differ in one payload\<close>

text \<open>
  Journals that record in step: they stand at the same position with the same clock, so the next
  event gets the same id and time in both.  Their artifacts and chained hashes may differ.
\<close>

definition in_step :: "journal \<Rightarrow> journal \<Rightarrow> bool" where
  "in_step j j' \<longleftrightarrow> j_run_id j' = j_run_id j \<and> j_thread_id j' = j_thread_id j \<and> j_clock j' = j_clock j \<and>
     length (j_events j') = length (j_events j)"

lemma in_step_refl [simp]: "in_step j j"
  by (simp add: in_step_def)

lemma store_payload_ref: "fst (store_payload cd a v) = fst (store_payload cd b v)"
  by (simp add: store_payload_def Let_def split: option.split)

lemma store_payload_opt_ref: "fst (store_payload_opt cd a v) = fst (store_payload_opt cd b v)"
  using store_payload_ref [of cd a _ b] by (cases v) (simp_all add: split_beta)

lemma record_in_step:
  assumes "in_step j j'"
  obtains e outp where "j_events (snd (record_event cd d j)) = j_events j @ [e]"
    "j_events (snd (record_event cd (d \<lparr> d_output := out \<rparr>) j')) = j_events j' @ [e \<lparr> ev_output := outp \<rparr>]"
    "out = d_output d \<longrightarrow> outp = ev_output e" "ev_kind e = d_kind d"
    "fst (record_event cd (d \<lparr> d_output := out \<rparr>) j') = fst (record_event cd d j)"
    "in_step (snd (record_event cd d j)) (snd (record_event cd (d \<lparr> d_output := out \<rparr>) j'))"
proof -
  let ?a = "j_artifacts j" and ?a' = "j_artifacts j'"
  let ?i = "store_payload_opt cd ?a (d_input d)" and ?i' = "store_payload_opt cd ?a' (d_input d)"
  define outp where "outp = fst (store_payload_opt cd (snd ?i') out)"
  define e where "e = last (j_events (snd (record_event cd d j)))"
  have inp: "fst ?i' = fst ?i" by (rule store_payload_opt_ref)
  have "out = d_output d \<longrightarrow> outp = ev_output e"
    unfolding outp_def e_def using store_payload_opt_ref
    by (simp add: record_event_def Let_def split_beta)
  then show thesis
    using assms inp by (intro that [of e outp])
      (simp_all add: record_event_def e_def outp_def in_step_def Let_def split_beta)
qed

section \<open>Checkpoints that differ in the order of the next tasks\<close>

text \<open>What is relied on of a checkpoint store: whether it accepts a checkpoint does not depend on
  the list of next nodes or on the journal position stamped into it.\<close>

locale order_blind_store =
  fixes ck :: "'s store_ops"
  assumes blind: "is_ok (fst (so_put ck (cp \<lparr> cp_next_nodes := names, cp_journal_ref := jr \<rparr>) s)) \<longleftrightarrow>
    is_ok (fst (so_put ck cp s))"
begin

lemma put_accepts:
  assumes "so_put ck cp s = (Ok (), s1)"
  shows "so_put ck (cp \<lparr> cp_next_nodes := names, cp_journal_ref := jr \<rparr>) s =
    (Ok (), snd (so_put ck (cp \<lparr> cp_next_nodes := names, cp_journal_ref := jr \<rparr>) s))"
  using blind [where cp = cp and names = names and jr = jr and s = s] assms
  by (cases "so_put ck (cp \<lparr> cp_next_nodes := names, cp_journal_ref := jr \<rparr>) s";
      cases "fst (so_put ck (cp \<lparr> cp_next_nodes := names, cp_journal_ref := jr \<rparr>) s)") auto

end

interpretation memory_blind: order_blind_store memory_ops
  by unfold_locales (simp add: memory_ops_def memory_put_def)

definition tied :: "'s world \<Rightarrow> 's world \<Rightarrow> bool" where
  "tied w w' \<longleftrightarrow> in_step (w_journal w) (w_journal w') \<and> w_store w' = w_store w \<and> w_inbox w' = w_inbox w \<and>
     w_ids w' = w_ids w \<and> w_reads w' = w_reads w"

lemma read_clock_tied:
  assumes "tied w w'"
  shows "fst (read_clock x w') = fst (read_clock x w)" "tied (snd (read_clock x w)) (snd (read_clock x w'))"
    "j_events (w_journal (snd (read_clock x w))) = j_events (w_journal w)"
  using assms by (simp_all add: read_clock_def tied_def in_step_def split_beta)

lemma mint_id_tied:
  assumes "tied w w'"
  shows "fst (mint_id x w') = fst (mint_id x w)" "tied (snd (mint_id x w)) (snd (mint_id x w'))"
    "j_events (w_journal (snd (mint_id x w))) = j_events (w_journal w)"
  using assms by (simp_all add: mint_id_def tied_def)

lemma mint_checkpoint_tied:
  assumes "tied w w'" "mint_checkpoint en n st names ib w = (cp, w1)"
  obtains w1' jr where
    "mint_checkpoint en n st names' ib w' = (cp \<lparr> cp_next_nodes := names', cp_journal_ref := jr \<rparr>, w1')"
    "tied w1 w1'" "j_events (w_journal w1) = j_events (w_journal w)" "j_events (w_journal w1') = j_events (w_journal w')"
    "cp_state cp = st" "cp_next_nodes cp = names" "w_inbox w1 = w_inbox w" "w_store w1 = w_store w"
    "map_option jr_events jr = map_option jr_events (cp_journal_ref cp)"
proof -
  let ?x = "en_externals en"
  define a b c where "a = snd (mint_id ?x w)" and "b = snd (read_clock ?x a)" and "c = snd (read_clock ?x b)"
  define a' b' c' where "a' = snd (mint_id ?x w')" and "b' = snd (read_clock ?x a')" and "c' = snd (read_clock ?x b')"
  have t: "tied a a'" "tied b b'" "tied c c'"
    using assms(1) by (simp_all add: a_def a'_def b_def b'_def c_def c'_def mint_id_tied(2) read_clock_tied(2))
  have f: "fst (mint_id ?x w') = fst (mint_id ?x w)" "fst (read_clock ?x a') = fst (read_clock ?x a)"
    "fst (read_clock ?x b') = fst (read_clock ?x b)"
    using mint_id_tied(1) [OF assms(1)] read_clock_tied(1) [OF t(1)] read_clock_tied(1) [OF t(2)] by auto
  have ev: "j_events (w_journal c) = j_events (w_journal w)" "j_events (w_journal c') = j_events (w_journal w')"
    "w_inbox c = w_inbox w" "w_store c = w_store w"
    by (simp_all add: a_def b_def c_def a'_def b'_def c'_def read_clock_def mint_id_def split_beta)
  have len: "length (j_events (w_journal w')) = length (j_events (w_journal w))"
    using assms(1) by (simp add: tied_def in_step_def)
  show thesis
    using assms(2) t(3) ev f len
    by (intro that [of "Some (head_ref (w_journal c'))" c'])
      (auto simp: mint_checkpoint_def Let_def split_beta a_def b_def c_def a'_def b'_def c'_def head_ref_def)
qed

lemma record_draft_tied:
  assumes "tied w w'" "record_draft x d w = (eid, w1)"
  obtains w1' e outp where "record_draft x (d \<lparr> d_output := out \<rparr>) w' = (eid, w1')" "tied w1 w1'"
    "j_events (w_journal w1) = j_events (w_journal w) @ [e]"
    "j_events (w_journal w1') = j_events (w_journal w') @ [e \<lparr> ev_output := outp \<rparr>]"
    "out = d_output d \<longrightarrow> outp = ev_output e" "ev_kind e = d_kind d" "w_inbox w1 = w_inbox w" "w_store w1 = w_store w"
proof -
  have "in_step (w_journal w) (w_journal w')" using assms(1) by (simp add: tied_def)
  from record_in_step [OF this, of "rx_codec x" d out] obtain e outp where
    r: "j_events (snd (record_event (rx_codec x) d (w_journal w))) = j_events (w_journal w) @ [e]"
    "j_events (snd (record_event (rx_codec x) (d \<lparr> d_output := out \<rparr>) (w_journal w'))) =
       j_events (w_journal w') @ [e \<lparr> ev_output := outp \<rparr>]"
    "out = d_output d \<longrightarrow> outp = ev_output e" "ev_kind e = d_kind d"
    "fst (record_event (rx_codec x) (d \<lparr> d_output := out \<rparr>) (w_journal w')) = fst (record_event (rx_codec x) d (w_journal w))"
    "in_step (snd (record_event (rx_codec x) d (w_journal w)))
       (snd (record_event (rx_codec x) (d \<lparr> d_output := out \<rparr>) (w_journal w')))" by metis
  show thesis
    using assms r by (intro that [of "snd (record_draft x (d \<lparr> d_output := out \<rparr>) w')" e outp])
      (auto simp: record_draft_def tied_def split_beta)
qed

lemma record_draft_tied_same:
  assumes "tied w w'" "record_draft x d w = (eid, w1)"
  obtains w1' e where "record_draft x d w' = (eid, w1')" "tied w1 w1'"
    "j_events (w_journal w1) = j_events (w_journal w) @ [e]" "j_events (w_journal w1') = j_events (w_journal w') @ [e]"
    "w_inbox w1 = w_inbox w" "w_store w1 = w_store w"
proof (rule record_draft_tied [OF assms, of "d_output d"])
  fix w1' e outp
  assume "record_draft x (d \<lparr> d_output := d_output d \<rparr>) w' = (eid, w1')" "tied w1 w1'"
    "j_events (w_journal w1) = j_events (w_journal w) @ [e]"
    "j_events (w_journal w1') = j_events (w_journal w') @ [e \<lparr> ev_output := outp \<rparr>]"
    "d_output d = d_output d \<longrightarrow> outp = ev_output e" "w_inbox w1 = w_inbox w" "w_store w1 = w_store w"
  then show thesis by (intro that [of w1' e]) simp_all
qed

lemma put_checkpoint_tied:
  assumes "tied w w'" "order_blind_store ck" "put_checkpoint en ck cp es p w = (Ok (), w1)"
  obtains w1' e where "put_checkpoint en ck (cp \<lparr> cp_next_nodes := names, cp_journal_ref := jr \<rparr>) es p w' = (Ok (), w1')"
    "j_events (w_journal w1) = j_events (w_journal w) @ [e]" "j_events (w_journal w1') = j_events (w_journal w') @ [e]"
    "w_inbox w1 = w_inbox w" "w_inbox w1' = w_inbox w" "w_store w1 = snd (so_put ck cp (w_store w))"
    "w_store w1' = snd (so_put ck (cp \<lparr> cp_next_nodes := names, cp_journal_ref := jr \<rparr>) (w_store w))"
proof -
  let ?cp = "cp \<lparr> cp_next_nodes := names, cp_journal_ref := jr \<rparr>"
  let ?d = "written_draft (cp_id cp) (cp_step cp) es p"
  obtain r s where put: "so_put ck cp (w_store w) = (r, s)" by (metis surj_pair)
  have r: "r = Ok ()" using assms(3) by (cases r) (auto simp: put_checkpoint_def put)
  note put' = order_blind_store.put_accepts [OF assms(2) put [unfolded r], where names = names and jr = jr]
  define s' where "s' = snd (so_put ck ?cp (w_store w))"
  have t: "tied (w \<lparr> w_store := q \<rparr>) (w' \<lparr> w_store := q \<rparr>)" for q using assms(1) by (simp add: tied_def)
  obtain eid w2 where d: "record_draft (en_externals en) ?d (w \<lparr> w_store := s' \<rparr>) = (eid, w2)" by (metis surj_pair)
  from record_draft_tied_same [OF t d] obtain w2' e where
    d': "record_draft (en_externals en) ?d (w' \<lparr> w_store := s' \<rparr>) = (eid, w2')" "tied w2 w2'"
    "j_events (w_journal w2) = j_events (w_journal (w \<lparr> w_store := s' \<rparr>)) @ [e]"
    "j_events (w_journal w2') = j_events (w_journal (w' \<lparr> w_store := s' \<rparr>)) @ [e]"
    "w_inbox w2 = w_inbox (w \<lparr> w_store := s' \<rparr>)" "w_store w2 = w_store (w \<lparr> w_store := s' \<rparr>)" .
  have w2s: "record_draft (en_externals en) ?d (w \<lparr> w_store := s \<rparr>) = (eid, w2 \<lparr> w_store := s \<rparr>)"
    using d by (auto simp: record_draft_def split_beta)
  have ids: "cp_id ?cp = cp_id cp" "cp_step ?cp = cp_step cp" by simp_all
  have ws: "w_store w' = w_store w" using assms(1) by (simp add: tied_def)
  have w1: "w1 = emit (en_config en) (CheckpointSaved (cp_id cp) (cp_step cp)) (w2 \<lparr> w_store := s \<rparr>)"
    using assms(3) by (simp add: put_checkpoint_def put r w2s)
  have pc: "put_checkpoint en ck ?cp es p w' =
      (Ok (), emit (en_config en) (CheckpointSaved (cp_id cp) (cp_step cp)) w2')"
    using put' unfolding put_checkpoint_def ws by (simp add: d'(1) s'_def [symmetric] del: checkpoint.update_convs)
  show thesis
    using d'(2-6) by (intro that [OF pc, of e]) (auto simp: w1 emit_def put s'_def tied_def)
qed

text \<open>How the two results of a step may differ: \<open>s\<close> is the store before the step's checkpoint.\<close>

definition differ_in_order ::
  "'s engine \<Rightarrow> 's \<Rightarrow> channel_state \<Rightarrow> step_transition \<Rightarrow> 's world \<Rightarrow> step_transition \<Rightarrow> 's world \<Rightarrow> bool" where
  "differ_in_order en s st tr w tr' w' \<longleftrightarrow>
     mset (scheduled_tasks tr') = mset (scheduled_tasks tr) \<and> carried_batch tr' = carried_batch tr \<and>
     w_inbox w' = w_inbox w \<and>
     (\<exists>pre e outp post. j_events (w_journal w) = pre @ [e] @ post \<and>
        j_events (w_journal w') = pre @ [e \<lparr> ev_output := outp \<rparr>] @ post \<and> ev_kind e = KRoutingDecision) \<and>
     (case en_checkpointer en of
        None \<Rightarrow> w_store w = s \<and> w_store w' = s
      | Some ck \<Rightarrow> \<exists>cp jr. map_option jr_events jr = map_option jr_events (cp_journal_ref cp) \<and>
          cp_state cp = st \<and> cp_next_nodes cp = map at_name (scheduled_tasks tr) \<and>
          w_store w = snd (so_put ck cp s) \<and>
          w_store w' = snd (so_put ck
            (cp \<lparr> cp_next_nodes := map at_name (scheduled_tasks tr'), cp_journal_ref := jr \<rparr>) s))"

lemma boundary_checkpoint_tied:
  assumes "tied w w'" "\<And>ck. en_checkpointer en = Some ck \<Longrightarrow> order_blind_store ck"
    "boundary_checkpoint en n st nx ext re w = (Ok (), w1)"
  obtains w1' post where "boundary_checkpoint en n st nx' ext re w' = (Ok (), w1')"
    "j_events (w_journal w1) = j_events (w_journal w) @ post" "j_events (w_journal w1') = j_events (w_journal w') @ post"
    "w_inbox w1' = w_inbox w1"
    "case en_checkpointer en of
        None \<Rightarrow> w_store w1 = w_store w \<and> w_store w1' = w_store w
      | Some ck \<Rightarrow> \<exists>cp jr. map_option jr_events jr = map_option jr_events (cp_journal_ref cp) \<and>
          cp_state cp = st \<and> cp_next_nodes cp = map at_name nx \<and>
          w_store w1 = snd (so_put ck cp (w_store w)) \<and>
          w_store w1' = snd (so_put ck (cp \<lparr> cp_next_nodes := map at_name nx', cp_journal_ref := jr \<rparr>) (w_store w))"
proof (cases "en_checkpointer en")
  case None
  then show thesis using assms(1,3) by (intro that [of w' "[]"]) (auto simp: boundary_checkpoint_def tied_def)
next
  case (Some ck)
  have ib: "inbox_stamp ext w' = inbox_stamp ext w" using assms(1) by (simp add: inbox_stamp_def tied_def)
  obtain cp w2 where m: "mint_checkpoint en n st (map at_name nx) (inbox_stamp ext w) w = (cp, w2)" by (metis surj_pair)
  from mint_checkpoint_tied [OF assms(1) m, of "map at_name nx'"] obtain w2' jr where
    m': "mint_checkpoint en n st (map at_name nx') (inbox_stamp ext w) w' =
      (cp \<lparr> cp_next_nodes := map at_name nx', cp_journal_ref := jr \<rparr>, w2')"
    "tied w2 w2'" "j_events (w_journal w2) = j_events (w_journal w)" "j_events (w_journal w2') = j_events (w_journal w')"
    "cp_state cp = st" "cp_next_nodes cp = map at_name nx" "w_inbox w2 = w_inbox w" "w_store w2 = w_store w"
    "map_option jr_events jr = map_option jr_events (cp_journal_ref cp)" .
  have "put_checkpoint en ck cp [(''suspension'', JBool False)] (Some re) w2 = (Ok (), w1)"
    using assms(3) by (simp add: boundary_checkpoint_def Some m)
  from put_checkpoint_tied [OF m'(2) assms(2) [OF Some] this, where names = "map at_name nx'" and jr = jr] obtain w1' e where
    p': "put_checkpoint en ck (cp \<lparr> cp_next_nodes := map at_name nx', cp_journal_ref := jr \<rparr>)
      [(''suspension'', JBool False)] (Some re) w2' = (Ok (), w1')"
    "j_events (w_journal w1) = j_events (w_journal w2) @ [e]" "j_events (w_journal w1') = j_events (w_journal w2') @ [e]"
    "w_inbox w1 = w_inbox w2" "w_inbox w1' = w_inbox w2" "w_store w1 = snd (so_put ck cp (w_store w2))"
    "w_store w1' = snd (so_put ck (cp \<lparr> cp_next_nodes := map at_name nx', cp_journal_ref := jr \<rparr>) (w_store w2))" .
  have "boundary_checkpoint en n st nx' ext re w' = (Ok (), w1')"
    by (simp add: boundary_checkpoint_def Some ib m' p' del: checkpoint.update_convs)
  then show thesis
    using m'(3-9) p'(2-7) by (intro that [of w1' "[e]"]) (auto simp: Some simp del: checkpoint.update_convs)
qed

lemma act_store: "w_store (act x a w) = w_store w"
  by (cases a) (simp_all add: record_draft_journal read_clock_def split_beta)

lemma perform_store: "w_store (perform x acts w) = w_store w"
  by (induction acts arbitrary: w) (simp_all add: perform_def act_store)

lemma record_draft_store: "record_draft x d w = (eid, w1) \<Longrightarrow> w_store w1 = w_store w"
  using record_draft_journal(2) [of x d w] by simp

lemma extend_turn_store: "extend_turn en v n ev nx w = (nx', ext, p, w1) \<Longrightarrow> w_store w1 = w_store w"
  by (auto simp: extend_turn_def settle_world_def perform_store Let_def
      split: prod.splits option.splits if_splits dest!: record_draft_store)

lemma route_and_save_perm:
  assumes "route_and_save en v n st b ev w = (Ok (tr, st'), w')"
    "\<And>ck. en_checkpointer en = Some ck \<Longrightarrow> order_blind_store ck"
    "set (br_ran b) = set (br_ran b')" "br_commands b = [] \<longleftrightarrow> br_commands b' = []"
    "set (goto_targets (br_commands b)) = set (goto_targets (br_commands b'))"
  shows "\<exists>tr' w''. route_and_save en v n st b' ev (sunk es w) = (Ok (tr', st'), w'') \<and>
    differ_in_order en (w_store w) st' tr w' tr' w''"
proof -
  obtain routed where rt: "route_step (en_graph en) st (br_commands b) (br_ran b) = Ok routed"
    using assms(1) by (cases "route_step (en_graph en) st (br_commands b) (br_ran b)")
      (auto simp: route_and_save_def)
  obtain routed' where rt': "route_step (en_graph en) st (br_commands b') (br_ran b') = Ok routed'"
    "mset routed' = mset routed" using route_step_perm [OF rt assms(3-5)] by blast
  obtain nx ext p w1 where et: "extend_turn en v n ev routed w = (nx, ext, p, w1)" by (metis surj_pair)
  from extend_turn_perm [OF rt'(2) et] obtain nx' where
    et': "extend_turn en v n ev routed' w = (nx', ext, p, w1)" "mset nx' = mset nx" .
  let ?d = "routing_draft nx (br_commands b) p" and ?d' = "routing_draft nx' (br_commands b') p"
  obtain re w2 where r: "record_draft (en_externals en) ?d w1 = (re, w2)" by (metis surj_pair)
  have d': "?d' = ?d \<lparr> d_output := d_output ?d' \<rparr>" by (simp add: routing_draft_def)
  have t1: "tied w1 (sunk es w1)" by (simp add: tied_def)
  from record_draft_tied [OF t1 r, of "d_output ?d'"] obtain w2' e outp where
    rd: "record_draft (en_externals en) (?d \<lparr> d_output := d_output ?d' \<rparr>) (sunk es w1) = (re, w2')"
    and r': "tied w2 w2'" "j_events (w_journal w2) = j_events (w_journal w1) @ [e]"
      "j_events (w_journal w2') = j_events (w_journal (sunk es w1)) @ [e \<lparr> ev_output := outp \<rparr>]"
      "d_output ?d' = d_output ?d \<longrightarrow> outp = ev_output e" "ev_kind e = d_kind ?d" "w_inbox w2 = w_inbox w1"
      "w_store w2 = w_store w1" .
  have rd': "record_draft (en_externals en) ?d' (sunk es w1) = (re, w2')" using rd d' by simp
  have bc: "boundary_checkpoint en n st nx ext re w2 = (Ok (), w')" "st' = st"
    "tr = (if nx = [] then Finish (Done st) else Next nx re ext)"
    using assms(1) by (auto simp: route_and_save_def rt et r split: prod.splits sum.splits)
  from boundary_checkpoint_tied [OF r'(1) assms(2) bc(1), of nx'] obtain w3' post where
    bc': "boundary_checkpoint en n st nx' ext re w2' = (Ok (), w3')"
    "j_events (w_journal w') = j_events (w_journal w2) @ post" "j_events (w_journal w3') = j_events (w_journal w2') @ post"
    "w_inbox w3' = w_inbox w'"
    and stores: "case en_checkpointer en of
        None \<Rightarrow> w_store w' = w_store w2 \<and> w_store w3' = w_store w2
      | Some ck \<Rightarrow> \<exists>cp jr. map_option jr_events jr = map_option jr_events (cp_journal_ref cp) \<and>
          cp_state cp = st \<and> cp_next_nodes cp = map at_name nx \<and>
          w_store w' = snd (so_put ck cp (w_store w2)) \<and>
          w_store w3' = snd (so_put ck (cp \<lparr> cp_next_nodes := map at_name nx', cp_journal_ref := jr \<rparr>) (w_store w2))"
    by blast
  define tr' where "tr' = (if nx' = [] then Finish (Done st) else Next nx' re ext)"
  have rs: "route_and_save en v n st b' ev (sunk es w) = (Ok (tr', st'), w3')"
    by (simp add: route_and_save_def rt' extend_turn_sunk et' rd' bc' bc(2) tr'_def)
  have sw: "w_store w2 = w_store w" using r'(7) extend_turn_store [OF et] by simp
  have "nx' = [] \<longleftrightarrow> nx = []" using et'(2) by auto
  then have sch: "scheduled_tasks tr = nx" "scheduled_tasks tr' = nx'" and ext: "carried_batch tr' = carried_batch tr"
    by (auto simp: bc(3) tr'_def)
  have "j_events (w_journal w') = j_events (w_journal w1) @ [e] @ post"
    "j_events (w_journal w3') = j_events (w_journal w1) @ [e \<lparr> ev_output := outp \<rparr>] @ post"
    "ev_kind e = KRoutingDecision"
    using bc'(2,3) r'(2,3,5) by (simp_all add: routing_draft_def draft_new_def)
  then have "differ_in_order en (w_store w) st' tr w' tr' w3'"
    unfolding differ_in_order_def sch bc(2) using stores [unfolded sw] et'(2) ext bc'(4) by blast
  with rs show ?thesis by blast
qed

lemma suspend_step_interrupts:
  "suspend_step en n delivery st active iv val w = (Ok tr, w') \<Longrightarrow> \<exists>cid. tr = Finish (Interrupted val st cid)"
  by (auto simp: suspend_step_def Let_def split: prod.splits option.splits sum.splits)

lemma record_outputs_store: "w_store (snd (record_outputs x ivs cs l w)) = w_store w"
proof (induction cs arbitrary: l w)
  case (Cons c cs)
  then show ?case by (cases c) (simp add: record_draft_journal split_beta)
qed simp

lemma commit_step_perm:
  assumes "commit_step en v si ivs (barrier_of v ivs is) w = (Ok (tr, st'), w')"
    "\<And>ck. en_checkpointer en = Some ck \<Longrightarrow> order_blind_store ck"
    "mset is = mset [0..<length ivs]" "mset is' = mset [0..<length ivs]"
  shows "\<exists>tr' w''. commit_step en v si ivs (barrier_of v ivs is') (sunk es w) = (Ok (tr', st'), w'') \<and>
    differ_in_order en (w_store w) st' tr w' tr' w''"
proof -
  let ?b = "barrier_of v ivs is" and ?b' = "barrier_of v ivs is'"
  define cs where "cs = br_completed (barrier_of v ivs [0..<length ivs])"
  define ws where "ws = map (\<lambda>iv. (iv_name iv, out_updates (output_of iv))) ivs"
  have sorted: "sort_key fst (br_completed ?b) = cs" "sort_key fst (br_completed ?b') = cs"
    "map snd (sort_key fst (br_writes ?b)) = ws" "map snd (sort_key fst (br_writes ?b')) = ws"
    using barrier_sorted [OF assms(3)] barrier_sorted [OF assms(4)] by (simp_all add: cs_def ws_def)
  have set_eq: "set is = set is'" using assms(3,4) by (metis mset_eq_setD)
  then have b: "set (br_ran ?b) = set (br_ran ?b')" "br_commands ?b = [] \<longleftrightarrow> br_commands ?b' = []"
    "set (goto_targets (br_commands ?b)) = set (goto_targets (br_commands ?b'))"
    by (auto simp: barrier_of_def goto_targets_def)
  obtain l w1 where ro: "record_outputs (en_externals en) ivs cs None w = (l, w1)" by (metis surj_pair)
  obtain st r where ap: "apply_super_step (en_spec en) (si_snapshot si) ws = (st, r)" by (metis surj_pair)
  obtain u where r: "r = Ok u" using assms(1) by (cases r) (simp_all add: commit_step_def sorted ro ap Let_def)
  let ?m = "merged_updates st ws"
  obtain ev w2 where e: "record_draft (en_externals en)
      (step_end_draft ?m (case l of Some l \<Rightarrow> l | None \<Rightarrow> si_start_event si)) w1 = (ev, w2)" by (metis surj_pair)
  define w3 where "w3 = (if ?m \<noteq> [] then emit (en_config en) (StateUpdate (si_step si) ?m) w2 else w2)"
  obtain es3 where es3: "(if ?m \<noteq> [] then emit (en_config en) (StateUpdate (si_step si) ?m) (sunk es w2)
      else sunk es w2) = sunk es3 w3"
    using emit_sunk [of "en_config en" _ es w2] emit_sinks [of "en_config en" _ w2]
    by (metis sunk_sunk w3_def)
  have rs: "route_and_save en v (si_step si) st ?b ev w3 = (Ok (tr, st'), w')"
    using assms(1) by (simp add: commit_step_def sorted ro ap r Let_def e w3_def)
  have "commit_step en v si ivs ?b' (sunk es w) = route_and_save en v (si_step si) st ?b' ev (sunk es3 w3)"
    unfolding es3 [symmetric] using e
    by (cases "?m = []") (simp_all add: commit_step_def sorted record_outputs_sunk ro ap r Let_def record_draft_sunk)
  moreover have "w_store w3 = w_store w"
    using record_outputs_store [of "en_externals en" ivs cs None w] ro record_draft_store [OF e]
    by (simp add: w3_def emit_def)
  ultimately show ?thesis using route_and_save_perm [OF rs assms(2) b, of es3] by simp
qed

lemma spawn_tasks_store: "w_store (snd (spawn_tasks en v si i ts w)) = w_store w"
proof (induction ts arbitrary: i w)
  case (Cons t ts)
  have "w_store (snd (spawn_task en si t w)) = w_store w"
    by (auto simp: spawn_task_def emit_def record_draft_journal Let_def split_beta split: option.split sum.split)
  then show ?case using Cons.IH by (auto simp: split_beta perform_store split: sum.split)
qed simp

lemma joined_store: "w_store (joined en v k m w) = w_store w"
  by (induction m arbitrary: k w) (simp_all add: perform_store)

lemma plan_step_store: "w_store (snd (plan_step en st active n resume parent delivery sa w)) = w_store w"
  by (simp add: plan_step_def emit_def record_draft_journal Let_def split_beta)

lemma execute_order_perm:
  assumes "execute_super_step en v st active n resume parent delivery sa w = (Ok (tr, st'), w')"
    "\<And>val s cid. tr \<noteq> Finish (Interrupted val s cid)"
    "\<And>ck. en_checkpointer en = Some ck \<Longrightarrow> order_blind_store ck"
  shows "\<exists>tr' w''. execute_super_step en (v \<lparr> sv_order := other \<rparr>) st active n resume parent delivery sa w =
      (Ok (tr', st'), w'') \<and> differ_in_order en (w_store w) st' tr w' tr' w''"
  using assms(1)
proof (cases rule: execute_cases)
  case (committed si w1 ivs w2 b w3)
  let ?is = "finish_order v (length active)"
  let ?is' = "finish_order (v \<lparr> sv_order := other \<rparr>) (length active)"
  have len: "length active = length ivs"
    using spawn_tasks_spawned [OF committed(2)] by (rule list_all2_lengthD)
  have perm: "mset ?is = mset [0..<length ivs]" "mset ?is' = mset [0..<length ivs]"
    using finish_order_mset len by simp_all
  have b: "b = barrier_of v ivs ?is"
    and oks: "\<forall>i \<in> set ?is. iv_result (ivs ! i) = Ok (output_of (ivs ! i)) \<and> i \<notin> set (sv_panics v)"
    using join_tasks_all [of en v n ivs 0 ?is "[]" w2] committed(3) by auto
  have "length ?is' = length ?is" "set ?is' = set ?is" using perm by (metis size_mset, metis mset_eq_setD)
  then obtain es es' where
    j: "join_tasks en v n ivs 0 ?is empty_barrier w2 = (AllJoined, b, sunk es (joined en v 0 (length ?is) w2))"
    and j': "join_tasks en v n ivs 0 ?is' empty_barrier w2 =
      (AllJoined, barrier_of v ivs ?is', sunk es' (joined en v 0 (length ?is) w2))"
    using join_tasks_ok [of ?is ivs v en n 0 "[]" w2] join_tasks_ok [of ?is' ivs v en n 0 "[]" w2] oks b by auto
  have w3: "w3 = sunk es (joined en v 0 (length ?is) w2)" using j committed(3) by simp
  then have "sunk es' (joined en v 0 (length ?is) w2) = sunk es' w3" by simp
  moreover have "w_store w3 = w_store w"
    using spawn_tasks_store [of en v si 0 active w1] plan_step_store [of en st active n resume parent delivery sa w]
      committed(1,2) by (simp add: w3 joined_store)
  ultimately show ?thesis
    using commit_step_perm [OF committed(4) [unfolded b] assms(3) perm, of es'] committed(1,2) j'
    by (simp add: execute_super_step_def spawn_tasks_order join_tasks_order commit_step_order)
next
  case (suspended si w1 ivs w2 i val b w3 s)
  then have "s = Ok tr" by (cases s) auto
  then have False using assms(2) suspend_step_interrupts suspended(4) by blast
  then show ?thesis ..
qed simp_all

text \<open>
  C2: the order in which the tasks of a super-step finish does not matter.  If a step merges its
  writes under some finish order, it does so under every other, with the same merged state, the
  same multiset of scheduled tasks, the same follow-up batch and the same inbox.  The journals
  are the same event for event, but for the payload of the routing decision, which lists the next
  tasks in finish order.  With a checkpointer the step puts the same checkpoint, but for the order
  of its next nodes and the head hash of the journal it refers to.  Of the checkpointer it is
  relied on that these two fields do not decide whether a checkpoint is accepted.
\<close>

theorem finish_order_irrelevant:
  assumes "execute_super_step en v st active n resume parent delivery sa w = (Ok (tr, st'), w')"
    "\<And>val s cid. tr \<noteq> Finish (Interrupted val s cid)"
    "\<And>ck. en_checkpointer en = Some ck \<Longrightarrow> order_blind_store ck"
  shows "\<exists>tr' w''. execute_super_step en (v \<lparr> sv_order := other \<rparr>) st active n resume parent delivery sa w =
      (Ok (tr', st'), w'') \<and>
    mset (scheduled_tasks tr') = mset (scheduled_tasks tr) \<and> carried_batch tr' = carried_batch tr \<and>
    w_inbox w'' = w_inbox w' \<and>
    (\<exists>pre e outp post. j_events (w_journal w') = pre @ [e] @ post \<and>
       j_events (w_journal w'') = pre @ [e \<lparr> ev_output := outp \<rparr>] @ post \<and> ev_kind e = KRoutingDecision) \<and>
    (case en_checkpointer en of
       None \<Rightarrow> w_store w' = w_store w \<and> w_store w'' = w_store w
     | Some ck \<Rightarrow> \<exists>cp jr. map_option jr_events jr = map_option jr_events (cp_journal_ref cp) \<and>
         cp_state cp = st' \<and> cp_next_nodes cp = map at_name (scheduled_tasks tr) \<and>
         w_store w' = snd (so_put ck cp (w_store w)) \<and>
         w_store w'' = snd (so_put ck
           (cp \<lparr> cp_next_nodes := map at_name (scheduled_tasks tr'), cp_journal_ref := jr \<rparr>) (w_store w)))"
  using execute_order_perm [OF assms, of other] unfolding differ_in_order_def .

text \<open>A fan-out of two nodes whose routes differ; the second one finishes first.\<close>

definition fan_engine :: "memory_store engine" where
  "fan_engine = \<lparr> en_externals = \<lparr> rx_codec = \<lparr> sha256_hex = (\<lambda>_. ''h''), ser_event = (\<lambda>_. Some []),
         ser_value = (\<lambda>_. None), wall = (\<lambda>n. n), representable = (\<lambda>_. True) \<rparr>,
       rx_uuid = show_nat, rx_wall = (\<lambda>n. n), rx_timestamp = show_nat, rx_timestamp_millis = show_nat,
       rx_number = (\<lambda>_. JNull), rx_usd = (\<lambda>_. []), rx_display = (\<lambda>_. []) \<rparr>,
     en_checkpointer = Some memory_ops,
     en_graph = \<lparr> g_nodes = map (\<lambda>n. (n, closure_node (\<lambda>ctx. Ok (output_update ''log'' (JArray [JString n])))))
         [''a'', ''b'', ''c'', ''d''],
       g_edges = [Direct ''a'' ''c'', Direct ''b'' ''d''], g_entry = ''a'' \<rparr>,
     en_spec = [''log'' \<mapsto> Append], en_config = config_new ''t'',
     en_recorder = \<lparr> rec_graph_version = [], rec_graph_hash = [], rec_policy_version = [], rec_manifest = None \<rparr> \<rparr>"

definition fan_env :: "nat list \<Rightarrow> step_env" where
  "fan_env finished = \<lparr> sv_arrivals = [], sv_boundary = [], sv_cancelled = False, sv_during = (\<lambda>_. []),
     sv_joining = (\<lambda>_. []), sv_order = finished, sv_panics = [], sv_latency = (\<lambda>_. 0), sv_late = [] \<rparr>"

definition fan_step :: "nat list \<Rightarrow> (rusty_error + step_transition \<times> channel_state) \<times> memory_store world" where
  "fan_step finished = execute_super_step fan_engine (fan_env finished) [] [unscoped ''a'', unscoped ''b''] 0 None None
     [] None \<lparr> w_journal = journal_new (rx_codec (en_externals fan_engine)) ''r'' ''t'' SystemClock, w_store = (\<lambda>_. []),
       w_inbox = None, w_ids = 0, w_reads = 0, w_events = [] \<rparr>"

theorem finish_order_irrelevant_witness:
  "\<exists>tr' st' cp. fst (fan_step [1, 0]) = Ok (tr', st') \<and> st' = [(''log'', JArray [JString ''a'', JString ''b''])] \<and>
     mset (scheduled_tasks tr') = {# unscoped ''c'', unscoped ''d'' #} \<and>
     w_store (snd (fan_step [1, 0])) = snd (memory_put cp (\<lambda>_. [])) \<and> cp_state cp = st'"
proof -
  let ?tr = "Next [unscoped ''c'', unscoped ''d''] ''r:6'' []"
  let ?st = "[(''log'', JArray [JString ''a'', JString ''b''])]"
  have "fst (fan_step []) = Ok (?tr, ?st)" by code_simp
  then have "fan_step [] = (Ok (?tr, ?st), snd (fan_step []))" by (metis prod.collapse)
  note eq = this [unfolded fan_step_def]
  have env: "fan_env [1, 0] = (fan_env []) \<lparr> sv_order := [1, 0] \<rparr>" by (simp add: fan_env_def)
  have ck: "en_checkpointer fan_engine = Some memory_ops" by (simp add: fan_engine_def)
  then have blind: "order_blind_store ck" if "en_checkpointer fan_engine = Some ck" for ck
    using that memory_blind.order_blind_store_axioms by simp
  from finish_order_irrelevant [OF eq _ blind, of "[1, 0]"] obtain tr' w'' cp jr where
    f: "fan_step [1, 0] = (Ok (tr', ?st), w'')" "mset (scheduled_tasks tr') = {# unscoped ''c'', unscoped ''d'' #}"
    and s: "cp_state cp = ?st"
      "w_store w'' = snd (memory_put (cp \<lparr> cp_next_nodes := map at_name (scheduled_tasks tr'), cp_journal_ref := jr \<rparr>) (\<lambda>_. []))"
    unfolding env [symmetric] fan_step_def [symmetric] ck by (fastforce simp: memory_ops_def)
  then show ?thesis
    by (intro exI [of _ tr'] exI [of _ ?st]
        exI [of _ "cp \<lparr> cp_next_nodes := map at_name (scheduled_tasks tr'), cp_journal_ref := jr \<rparr>"]) simp
qed

text \<open>The list of next tasks itself does follow the finish order.\<close>

lemma next_follows_finish_order:
  "fst (fan_step []) = Ok (Next [unscoped ''c'', unscoped ''d''] ''r:6'' [], [(''log'', JArray [JString ''a'', JString ''b''])])"
  "fst (fan_step [1, 0]) = Ok (Next [unscoped ''d'', unscoped ''c''] ''r:6'' [], [(''log'', JArray [JString ''a'', JString ''b''])])"
  by code_simp+

end
