(* ===== verification/Package_Versions.thy ===== *)
theory Package_Versions
  imports Rust_Text "HOL-Library.Product_Lexorder"
begin

text \<open>
  Package identifiers, versions and dependency ranges (rusty-core package.rs): validation of
  ids, strict parsing and printing of \<open>major.minor.patch-pre+build\<close>, the precedence order
  of versions, and the constraint language of dependency ranges.

  What a component may rely on when it sorts or compares versions is the interface
  \<open>precedence\<close>: a comparison that is reflexive, antisymmetric up to equal precedence and
  transitive.  It is interpreted on \<open>version_cmp\<close>, which is shown to compare lexicographic
  keys.  \<open>Ord\<close> of a version is not an order on versions: equal precedence does not mean
  equality.
\<close>

section \<open>Comparison results\<close>

datatype ordering = Less | Equal | Greater

fun ord_reverse :: "ordering \<Rightarrow> ordering" where
  "ord_reverse Less = Greater"
| "ord_reverse Equal = Equal"
| "ord_reverse Greater = Less"

fun then_with :: "ordering \<Rightarrow> ordering \<Rightarrow> ordering" where
  "then_with Equal o2 = o2"
| "then_with o1 o2 = o1"

definition cmp_of :: "'a::linorder \<Rightarrow> 'a \<Rightarrow> ordering" where
  "cmp_of x y = (if x < y then Less else if x = y then Equal else Greater)"

locale precedence =
  fixes cmp :: "'a \<Rightarrow> 'a \<Rightarrow> ordering"
  assumes same: "cmp x x = Equal"
    and reversed: "cmp y x = ord_reverse (cmp x y)"
    and chained: "cmp x y \<noteq> Greater \<Longrightarrow> cmp y z \<noteq> Greater \<Longrightarrow> cmp x z \<noteq> Greater"
begin

lemma greater_iff: "cmp x y = Greater \<longleftrightarrow> cmp y x = Less"
  by (cases "cmp x y"; cases "cmp y x") (use reversed [of x y] in simp_all)

lemma equal_sym: "cmp x y = Equal \<Longrightarrow> cmp y x = Equal"
  by (cases "cmp y x") (use reversed [of x y] in simp_all)

lemma total: "cmp x y \<noteq> Greater \<or> cmp y x \<noteq> Greater"
  using greater_iff [of x y] by auto

lemma chained_less: "cmp x y \<noteq> Greater \<Longrightarrow> cmp y z = Less \<Longrightarrow> cmp x z = Less"
  using chained [of z x y] greater_iff [of x z] greater_iff [of z y] equal_sym [of x z]
  by (cases "cmp x z") auto

lemma less_chained: "cmp x y = Less \<Longrightarrow> cmp y z \<noteq> Greater \<Longrightarrow> cmp x z = Less"
  using chained [of y z x] greater_iff [of x z] greater_iff [of y x] equal_sym [of x z]
  by (cases "cmp x z") auto

lemma equal_trans: "cmp x y = Equal \<Longrightarrow> cmp y z = Equal \<Longrightarrow> cmp x z = Equal"
  using chained [of x y z] chained [of z y x] greater_iff [of z x] equal_sym [of x y] equal_sym [of y z]
  by (cases "cmp x z") auto

end

section \<open>Identifiers\<close>

datatype package_fault =
    BadId string string nat
  | VersionTooLong string
  | VersionShape string
  | MajorNotANumber string
  | MinorNotANumber string
  | PatchNotANumber string
  | FilePathLength
  | FilePathUnsafe string
  | FileHashLength string
  | FileHashNotHex string
  | DependencyIdInvalid
  | DependencyConstraintLength
  | TooManyCapabilities
  | ToolNameLength
  | EgressHostLength
  | NameLength
  | TooManyFiles
  | TooManyDependencies
  | DuplicateMigration nat "nat \<times> nat \<times> nat"

definition MAX_PACKAGE_ID_LEN :: nat where "MAX_PACKAGE_ID_LEN = 64"
definition MAX_PUBLISHER_ID_LEN :: nat where "MAX_PUBLISHER_ID_LEN = 64"
definition MAX_VERSION_LEN :: nat where "MAX_VERSION_LEN = 32"

definition is_ascii_lowercase :: "char \<Rightarrow> bool" where
  "is_ascii_lowercase b \<longleftrightarrow> CHR ''a'' \<le> b \<and> b \<le> CHR ''z''"

definition validate_id :: "string \<Rightarrow> nat \<Rightarrow> string \<Rightarrow> package_fault + unit" where
  "validate_id ident limit what =
     (if ident \<noteq> [] \<and> length ident \<le> limit \<and>
         list_all (\<lambda>b. is_ascii_lowercase b \<or> is_digit b \<or> b = CHR ''-'') ident \<and>
         \<not> starts_with ''-'' ident \<and> \<not> ends_with ''-'' ident \<and> \<not> contains_text ''--'' ident
      then Ok () else Err (BadId what ident limit))"

text \<open>\<open>PackageId\<close> and \<open>PublisherId\<close> are validated strings.\<close>

definition package_id_new :: "string \<Rightarrow> package_fault + string" where
  "package_id_new ident = rbind (validate_id ident MAX_PACKAGE_ID_LEN ''package id'') (\<lambda>_. Ok ident)"

definition publisher_id_new :: "string \<Rightarrow> package_fault + string" where
  "publisher_id_new ident = rbind (validate_id ident MAX_PUBLISHER_ID_LEN ''publisher id'') (\<lambda>_. Ok ident)"

section \<open>Versions\<close>

record version =
  v_major :: nat
  v_minor :: nat
  v_patch :: nat
  v_pre :: "string option"
  v_build :: "string option"

definition version_new :: "nat \<Rightarrow> nat \<Rightarrow> nat \<Rightarrow> version" where
  "version_new ma mi pa = \<lparr> v_major = ma, v_minor = mi, v_patch = pa, v_pre = None, v_build = None \<rparr>"

definition with_pre :: "string \<Rightarrow> version \<Rightarrow> version" where
  "with_pre p v = v\<lparr> v_pre := Some p \<rparr>"

definition with_build :: "string \<Rightarrow> version \<Rightarrow> version" where
  "with_build b v = v\<lparr> v_build := Some b \<rparr>"

definition split_label :: "char \<Rightarrow> string \<Rightarrow> string \<times> string option" where
  "split_label c s = (case split_once c s of Some (a, b) \<Rightarrow> (a, Some b) | None \<Rightarrow> (s, None))"

definition parse_number :: "(string \<Rightarrow> package_fault) \<Rightarrow> string \<Rightarrow> package_fault + nat" where
  "parse_number fault s = (case parse_u64 s of Some n \<Rightarrow> Ok n | None \<Rightarrow> Err (fault s))"

definition version_parse :: "string \<Rightarrow> package_fault + version" where
  "version_parse s =
     (if MAX_VERSION_LEN < length s then Err (VersionTooLong s)
      else
        let (s1, build) = split_label CHR ''+'' s;
            (s2, pre) = split_label CHR ''-'' s1;
            parts = split_on CHR ''.'' s2 in
        if length parts \<noteq> 3 then Err (VersionShape s2)
        else
          rbind (parse_number MajorNotANumber (parts ! 0)) (\<lambda>ma.
          rbind (parse_number MinorNotANumber (parts ! 1)) (\<lambda>mi.
          rbind (parse_number PatchNotANumber (parts ! 2)) (\<lambda>pa.
            Ok \<lparr> v_major = ma, v_minor = mi, v_patch = pa, v_pre = pre, v_build = build \<rparr>))))"

definition version_display :: "version \<Rightarrow> string" where
  "version_display v =
     show_nat (v_major v) @ ''.'' @ show_nat (v_minor v) @ ''.'' @ show_nat (v_patch v) @
     (case v_pre v of None \<Rightarrow> [] | Some p \<Rightarrow> ''-'' @ p) @
     (case v_build v of None \<Rightarrow> [] | Some b \<Rightarrow> ''+'' @ b)"

definition cmp_identifier :: "string \<Rightarrow> string \<Rightarrow> ordering" where
  "cmp_identifier a b =
     (case (parse_u64 a, parse_u64 b) of
        (Some an, Some bn) \<Rightarrow> cmp_of an bn
      | (Some _, None) \<Rightarrow> Less
      | (None, Some _) \<Rightarrow> Greater
      | (None, None) \<Rightarrow> cmp_of a b)"

fun cmp_parts :: "string list \<Rightarrow> string list \<Rightarrow> ordering" where
  "cmp_parts [] [] = Equal"
| "cmp_parts [] (b # bs) = Less"
| "cmp_parts (a # as) [] = Greater"
| "cmp_parts (a # as) (b # bs) =
     (let o1 = cmp_identifier a b in if o1 \<noteq> Equal then o1 else cmp_parts as bs)"

definition cmp_pre_identifiers :: "string \<Rightarrow> string \<Rightarrow> ordering" where
  "cmp_pre_identifiers a b = cmp_parts (split_on CHR ''.'' a) (split_on CHR ''.'' b)"

fun cmp_pre :: "string option \<Rightarrow> string option \<Rightarrow> ordering" where
  "cmp_pre None None = Equal"
| "cmp_pre None (Some _) = Greater"
| "cmp_pre (Some _) None = Less"
| "cmp_pre (Some a) (Some b) = cmp_pre_identifiers a b"

definition version_cmp :: "version \<Rightarrow> version \<Rightarrow> ordering" where
  "version_cmp v w =
     then_with (then_with (then_with (cmp_of (v_major v) (v_major w)) (cmp_of (v_minor v) (v_minor w)))
       (cmp_of (v_patch v) (v_patch w))) (cmp_pre (v_pre v) (v_pre w))"

definition version_le :: "version \<Rightarrow> version \<Rightarrow> bool" where
  "version_le v w \<longleftrightarrow> version_cmp v w \<noteq> Greater"

definition version_lt :: "version \<Rightarrow> version \<Rightarrow> bool" where
  "version_lt v w \<longleftrightarrow> version_cmp v w = Less"

section \<open>Dependency ranges\<close>

datatype vconstraint =
    Exact version | Caret version | Tilde version | Gte version | Gt version | Lte version | Lt version
  | AndC vconstraint vconstraint

fun constraint_satisfies :: "vconstraint \<Rightarrow> version \<Rightarrow> bool" where
  "constraint_satisfies (Exact v) w = (w = v)"
| "constraint_satisfies (Caret v) w =
     (v_major w = v_major v \<and> (v_major w \<noteq> 0 \<or> v_minor w = v_minor v) \<and> version_le v w)"
| "constraint_satisfies (Tilde v) w =
     (v_major w = v_major v \<and> v_minor w = v_minor v \<and> version_le v w)"
| "constraint_satisfies (Gte v) w = version_le v w"
| "constraint_satisfies (Gt v) w = version_lt v w"
| "constraint_satisfies (Lte v) w = version_le w v"
| "constraint_satisfies (Lt v) w = version_lt w v"
| "constraint_satisfies (AndC a b) w = (constraint_satisfies a w \<and> constraint_satisfies b w)"

definition parse_ok :: "(version \<Rightarrow> vconstraint) \<Rightarrow> string \<Rightarrow> vconstraint option" where
  "parse_ok mk s = (case version_parse s of Inr v \<Rightarrow> Some (mk v) | Inl _ \<Rightarrow> None)"

definition parse_simple_constraint :: "string \<Rightarrow> vconstraint option" where
  "parse_simple_constraint s =
     (case strip_prefix ''='' s of Some rest \<Rightarrow> parse_ok Exact rest | None \<Rightarrow>
     (case strip_prefix ''^'' s of Some rest \<Rightarrow> parse_ok Caret rest | None \<Rightarrow>
     (case strip_prefix ''~'' s of Some rest \<Rightarrow> parse_ok Tilde rest | None \<Rightarrow>
     (case strip_prefix ''>='' s of Some rest \<Rightarrow> parse_ok Gte rest | None \<Rightarrow>
     (case strip_prefix ''>'' s of Some rest \<Rightarrow> parse_ok Gt rest | None \<Rightarrow>
     (case strip_prefix ''<='' s of Some rest \<Rightarrow> parse_ok Lte rest | None \<Rightarrow>
     (case strip_prefix ''<'' s of Some rest \<Rightarrow> parse_ok Lt rest | None \<Rightarrow> parse_ok Exact s)))))))"

function parse_constraint :: "string \<Rightarrow> vconstraint option" where
  "parse_constraint text0 =
     (let s = trim text0 in
      case split_once CHR '','' s of
        Some (left, right) \<Rightarrow>
          (case parse_constraint left of
             None \<Rightarrow> None
           | Some a \<Rightarrow> (case parse_constraint right of None \<Rightarrow> None | Some b \<Rightarrow> Some (AndC a b)))
      | None \<Rightarrow> parse_simple_constraint s)"
  by auto
termination
proof (relation "measure length")
  fix text0 s x left right
  assume "s = trim text0" "split_once CHR '','' s = Some x" "(left, right) = x"
  then show "(left, text0) \<in> measure length"
    using split_once_shorter [of "CHR '',''" s left right] length_trim [of text0] by auto
next
  fix text0 s x left right a
  assume "s = trim text0" "split_once CHR '','' s = Some x" "(left, right) = x"
  then show "(right, text0) \<in> measure length"
    using split_once_shorter [of "CHR '',''" s left right] length_trim [of text0] by auto
qed simp

declare parse_constraint.simps [simp del]

record dependency_range =
  dr_id :: string
  dr_constraint :: string

definition range_satisfies :: "dependency_range \<Rightarrow> version \<Rightarrow> bool" where
  "range_satisfies r v =
     (case parse_constraint (dr_constraint r) of None \<Rightarrow> False | Some c \<Rightarrow> constraint_satisfies c v)"

definition dependency_validate :: "dependency_range \<Rightarrow> package_fault + unit" where
  "dependency_validate r =
     (if dr_id r = [] \<or> MAX_PACKAGE_ID_LEN < length (dr_id r) then Err DependencyIdInvalid
      else if dr_constraint r = [] \<or> 128 < length (dr_constraint r) then Err DependencyConstraintLength
      else Ok ())"

section \<open>Precedence of versions\<close>

definition identifier_key :: "string \<Rightarrow> nat \<times> nat \<times> string" where
  "identifier_key s = (case parse_u64 s of Some n \<Rightarrow> (0, n, []) | None \<Rightarrow> (1, 0, s))"

definition pre_key :: "string option \<Rightarrow> nat \<times> (nat \<times> nat \<times> string) list" where
  "pre_key p = (case p of None \<Rightarrow> (1, []) | Some s \<Rightarrow> (0, map identifier_key (split_on CHR ''.'' s)))"

definition version_key :: "version \<Rightarrow> nat \<times> nat \<times> nat \<times> nat \<times> (nat \<times> nat \<times> string) list" where
  "version_key v = (v_major v, v_minor v, v_patch v, pre_key (v_pre v))"

lemma cmp_of_pair: "cmp_of (a, b) (c, d) = then_with (cmp_of a c) (cmp_of b d)"
  by (auto simp: cmp_of_def less_prod_def)

lemma cmp_of_list:
  "cmp_of (a # as) (b # bs) = then_with (cmp_of a b) (cmp_of as bs)"
  by (auto simp: cmp_of_def Cons_less_Cons)

lemma cmp_identifier_key: "cmp_identifier a b = cmp_of (identifier_key a) (identifier_key b)"
  unfolding cmp_identifier_def identifier_key_def
  by (cases "parse_u64 a"; cases "parse_u64 b") (simp_all add: cmp_of_pair, simp_all add: cmp_of_def)

lemma cmp_parts_key: "cmp_parts as bs = cmp_of (map identifier_key as) (map identifier_key bs)"
proof (induction as bs rule: cmp_parts.induct)
  case (4 a as b bs)
  then show ?case
    unfolding cmp_parts.simps cmp_identifier_key list.map cmp_of_list Let_def
    by (cases "cmp_of (identifier_key a) (identifier_key b)") simp_all
qed (simp_all add: cmp_of_def)

lemma cmp_pre_key: "cmp_pre p q = cmp_of (pre_key p) (pre_key q)"
  by (cases p; cases q) (simp_all add: pre_key_def cmp_pre_identifiers_def cmp_parts_key cmp_of_pair,
      simp_all add: cmp_of_def)

lemma then_with_assoc: "then_with (then_with a b) c = then_with a (then_with b c)"
  by (cases a) auto

lemma version_cmp_by_key: "version_cmp v w = cmp_of (version_key v) (version_key w)"
  unfolding version_cmp_def version_key_def cmp_of_pair cmp_pre_key then_with_assoc ..

interpretation ver: precedence version_cmp
proof
  fix x y z :: version
  show "version_cmp x x = Equal" by (simp add: version_cmp_by_key cmp_of_def)
  show "version_cmp y x = ord_reverse (version_cmp x y)"
    by (auto simp: version_cmp_by_key cmp_of_def)
  show "version_cmp x y \<noteq> Greater \<Longrightarrow> version_cmp y z \<noteq> Greater \<Longrightarrow> version_cmp x z \<noteq> Greater"
    by (auto simp: version_cmp_by_key cmp_of_def split: if_splits)
qed

text \<open>
  C30: the hand-written comparison of versions is a total precedence.  It is the
  lexicographic comparison of a key: the three numbers, then releases above pre-releases,
  then the dot-separated identifiers, numeric ones compared as numbers and placed below
  alphanumeric ones.
\<close>

theorem version_precedence:
  "precedence version_cmp \<and>
   (version_cmp v w = Less \<longleftrightarrow> version_key v < version_key w) \<and>
   (version_cmp v w = Equal \<longleftrightarrow> version_key v = version_key w)"
  using ver.precedence_axioms by (auto simp: version_cmp_by_key cmp_of_def)

lemma version_le_key: "version_le v w \<longleftrightarrow> version_key v \<le> version_key w"
  by (auto simp: version_le_def version_cmp_by_key cmp_of_def split: if_splits)

lemma version_lt_key: "version_lt v w \<longleftrightarrow> version_key v < version_key w"
  by (auto simp: version_lt_def version_cmp_by_key cmp_of_def split: if_splits)

text \<open>
  \<open>Ord\<close> and the derived \<open>Eq\<close> disagree: versions that differ in their build label, or in
  leading zeros of a numeric identifier, compare as equal.
\<close>

lemma equal_precedence_not_equal:
  "version_cmp (with_build ''a'' (version_new 1 0 0)) (version_new 1 0 0) = Equal"
  "with_build ''a'' (version_new 1 0 0) \<noteq> version_new 1 0 0"
  by (simp_all add: version_cmp_def with_build_def version_new_def cmp_of_def)

section \<open>Ranges are intervals of precedence\<close>

fun exact_free :: "vconstraint \<Rightarrow> bool" where
  "exact_free (Exact _) = False"
| "exact_free (AndC a b) = (exact_free a \<and> exact_free b)"
| "exact_free _ = True"

lemma major_mono: "version_le v w \<Longrightarrow> v_major v \<le> v_major w"
  by (auto simp: version_le_key version_key_def less_eq_prod_def)

lemma minor_mono: "version_le v w \<Longrightarrow> v_major v = v_major w \<Longrightarrow> v_minor v \<le> v_minor w"
  by (auto simp: version_le_key version_key_def less_eq_prod_def)

lemma version_le_trans: "version_le u v \<Longrightarrow> version_le v w \<Longrightarrow> version_le u w"
  unfolding version_le_def by (rule ver.chained)

lemma between_major:
  "version_le lo v \<Longrightarrow> version_le v hi \<Longrightarrow> v_major lo = m \<Longrightarrow> v_major hi = m \<Longrightarrow> v_major v = m"
  using major_mono [of lo v] major_mono [of v hi] by simp

lemma between_minor:
  "version_le lo v \<Longrightarrow> version_le v hi \<Longrightarrow> v_major lo = m \<Longrightarrow> v_major hi = m \<Longrightarrow> v_major v = m \<Longrightarrow>
   v_minor lo = n \<Longrightarrow> v_minor hi = n \<Longrightarrow> v_minor v = n"
  using minor_mono [of lo v] minor_mono [of v hi] by simp

text \<open>
  a dependency range without exact pins denotes an interval of precedence: a version
  between two accepted ones is accepted, so checking the ends of a span checks the span.
\<close>

lemma range_is_interval:
  assumes "exact_free c" "constraint_satisfies c lo" "constraint_satisfies c hi"
    "version_le lo v" "version_le v hi"
  shows "constraint_satisfies c v"
  using assms
proof (induction c)
  case (Caret b)
  have ma: "v_major v = v_major b" by (rule between_major [of lo v hi]) (use Caret in auto)
  have mi: "v_minor v = v_minor b" if "v_major b = 0"
    by (rule between_minor [of lo v hi "v_major b"]) (use Caret ma that in auto)
  show ?case using Caret.prems ma mi version_le_trans [of b lo v] by auto
next
  case (Tilde b)
  have ma: "v_major v = v_major b" by (rule between_major [of lo v hi]) (use Tilde in auto)
  have mi: "v_minor v = v_minor b"
    by (rule between_minor [of lo v hi "v_major b"]) (use Tilde ma in auto)
  show ?case using Tilde.prems ma mi version_le_trans [of b lo v] by auto
next
  case (Gt b)
  then show ?case
    using ver.less_chained [of b lo v] by (simp add: version_lt_def version_le_def)
next
  case (Lt b)
  then show ?case
    using ver.chained_less [of v hi b] by (simp add: version_lt_def version_le_def)
next
  case (Gte b)
  then show ?case using version_le_trans [of b lo v] by simp
next
  case (Lte b)
  then show ?case using version_le_trans [of v hi b] by simp
qed auto

lemma range_is_interval_witness:
  "exact_free (Caret (version_new 1 2 0)) \<and> constraint_satisfies (Caret (version_new 1 2 0)) (version_new 1 2 0) \<and>
   constraint_satisfies (Caret (version_new 1 2 0)) (version_new 1 9 0) \<and>
   version_le (version_new 1 2 0) (version_new 1 5 7) \<and> version_le (version_new 1 5 7) (version_new 1 9 0) \<and>
   constraint_satisfies (Caret (version_new 1 2 0)) (version_new 1 5 7)"
proof -
  have a: "exact_free (Caret (version_new 1 2 0))"
    "constraint_satisfies (Caret (version_new 1 2 0)) (version_new 1 2 0)"
    "constraint_satisfies (Caret (version_new 1 2 0)) (version_new 1 9 0)"
    "version_le (version_new 1 2 0) (version_new 1 5 7)"
    "version_le (version_new 1 5 7) (version_new 1 9 0)"
    by (simp_all add: version_new_def version_le_def version_cmp_def cmp_of_def)
  then show ?thesis using range_is_interval [OF a] by blast
qed

section \<open>Parsing and printing versions\<close>

definition version_wf :: "version \<Rightarrow> bool" where
  "version_wf v \<longleftrightarrow>
     v_major v < 2 ^ 64 \<and> v_minor v < 2 ^ 64 \<and> v_patch v < 2 ^ 64 \<and>
     (\<forall>p. v_pre v = Some p \<longrightarrow> CHR ''+'' \<notin> set p) \<and> length (version_display v) \<le> MAX_VERSION_LEN"

definition core_text :: "version \<Rightarrow> string" where
  "core_text v = join_with ''.'' [show_nat (v_major v), show_nat (v_minor v), show_nat (v_patch v)]"

lemma core_text_lacks: "\<not> is_digit c \<Longrightarrow> c \<noteq> CHR ''.'' \<Longrightarrow> c \<notin> set (core_text v)"
  using show_nat_lacks [of c] by (simp add: core_text_def)

lemma not_digit [simp]: "\<not> is_digit CHR ''.''" "\<not> is_digit CHR ''-''" "\<not> is_digit CHR ''+''"
  by (simp_all add: is_digit_def less_eq_char_def)

lemma split_core: "split_on CHR ''.'' (core_text v) = [show_nat (v_major v), show_nat (v_minor v), show_nat (v_patch v)]"
  unfolding core_text_def by (rule split_join) (auto simp: show_nat_lacks)

lemma split_label_hit: "c \<notin> set a \<Longrightarrow> split_label c (a @ c # b) = (a, Some b)"
  using split_once_Some [of c "a @ c # b" a b] by (simp add: split_label_def)

lemma split_label_miss: "c \<notin> set a \<Longrightarrow> split_label c a = (a, None)"
  by (simp add: split_label_def flip: split_once_None)

lemma version_display_core:
  "version_display v = core_text v @ (case v_pre v of None \<Rightarrow> [] | Some p \<Rightarrow> ''-'' @ p) @
     (case v_build v of None \<Rightarrow> [] | Some b \<Rightarrow> ''+'' @ b)"
  by (simp add: version_display_def core_text_def)

lemma version_wf_parses:
  assumes "version_wf v"
  shows "version_parse (version_display v) = Ok v"
proof -
  let ?c = "core_text v" and ?p = "case v_pre v of None \<Rightarrow> [] | Some p \<Rightarrow> ''-'' @ p"
  have "CHR ''+'' \<notin> set (?c @ ?p)"
    using assms by (auto simp: version_wf_def core_text_lacks split: option.splits)
  then have b: "split_label CHR ''+'' (version_display v) = (?c @ ?p, v_build v)"
    by (cases "v_build v")
      (simp_all add: version_display_core split_label_miss split_label_hit
         split_label_hit [of _ "?c @ ?p", simplified])
  have p: "split_label CHR ''-'' (?c @ ?p) = (?c, v_pre v)"
    by (cases "v_pre v") (simp_all add: split_label_miss split_label_hit core_text_lacks)
  show ?thesis
    using assms
    by (simp add: version_parse_def b p split_core version_wf_def parse_number_def)
qed

lemma show_nat_length: "n < 10 ^ k \<Longrightarrow> 0 < k \<Longrightarrow> length (show_nat n) \<le> k"
proof (induction n arbitrary: k rule: show_nat.induct)
  case (1 n)
  show ?case
  proof (cases "n < 10")
    case False
    then obtain j where k: "k = Suc j" "0 < j"
      using 1(2,3) by (cases k; cases "k - 1") auto
    then have "n div 10 < 10 ^ j" using 1(2) by (simp add: less_mult_imp_div_less mult.commute)
    then show ?thesis
      using 1(1) [OF False, of j] k False by (simp add: show_nat.simps [of n])
  qed (use 1(3) in \<open>simp add: show_nat.simps [of n]\<close>)
qed

lemma digit_value: "is_digit c \<Longrightarrow> of_char c - 48 < (10::nat)"
  by (auto simp: is_digit_def less_eq_char_def)

lemma read_nat_snoc: "read_nat (ds @ [c]) = 10 * read_nat ds + (of_char c - 48)"
  by (simp add: read_nat_def)

lemma read_nat_less: "list_all is_digit ds \<Longrightarrow> read_nat ds < 10 ^ length ds"
proof (induction ds rule: rev_induct)
  case (snoc c ds)
  then show ?case using digit_value [of c] by (simp add: read_nat_snoc)
qed (simp add: read_nat_def)

lemma parse_plain_length:
  assumes "parse_uint bound s = Some n" "CHR ''+'' \<notin> set s"
  shows "length (show_nat n) \<le> length s"
proof -
  have "s \<noteq> []" "list_all is_digit s" "n = read_nat s"
    using assms by (cases s; auto simp: parse_uint_def Let_def split: if_splits)+
  then show ?thesis using read_nat_less [of s] show_nat_length by simp
qed

lemma split_label_parts:
  "split_label c s = (a, l) \<Longrightarrow> c \<notin> set a \<and> s = a @ (case l of None \<Rightarrow> [] | Some b \<Rightarrow> c # b)"
  by (auto simp: split_label_def split_once_Some split: option.splits)

lemma version_parse_cases:
  assumes "version_parse s = Ok v"
  obtains core where "CHR ''+'' \<notin> set core" "\<forall>p. v_pre v = Some p \<longrightarrow> CHR ''+'' \<notin> set p"
    "s = core @ (case v_pre v of None \<Rightarrow> [] | Some p \<Rightarrow> CHR ''-'' # p) @
       (case v_build v of None \<Rightarrow> [] | Some b \<Rightarrow> CHR ''+'' # b)"
    "length (split_on CHR ''.'' core) = 3"
    "parse_u64 (split_on CHR ''.'' core ! 0) = Some (v_major v)"
    "parse_u64 (split_on CHR ''.'' core ! 1) = Some (v_minor v)"
    "parse_u64 (split_on CHR ''.'' core ! 2) = Some (v_patch v)"
    "length s \<le> MAX_VERSION_LEN"
proof -
  obtain s1 build where b: "split_label CHR ''+'' s = (s1, build)" by fastforce
  obtain s2 pre where p: "split_label CHR ''-'' s1 = (s2, pre)" by fastforce
  note parts = split_label_parts [OF b] split_label_parts [OF p]
  have "length s \<le> MAX_VERSION_LEN"
    and v: "v_pre v = pre" "v_build v = build" "length (split_on CHR ''.'' s2) = 3"
      "parse_u64 (split_on CHR ''.'' s2 ! 0) = Some (v_major v)"
      "parse_u64 (split_on CHR ''.'' s2 ! 1) = Some (v_minor v)"
      "parse_u64 (split_on CHR ''.'' s2 ! 2) = Some (v_patch v)"
    using assms
    by (auto simp: version_parse_def b p parse_number_def Let_def split: if_splits option.splits)
  then show thesis
    using that [of s2] parts by (cases pre; cases build) auto
qed

lemma version_parse_wf:
  assumes "version_parse s = Ok v"
  shows "version_wf v"
  using assms
proof (cases rule: version_parse_cases)
  case (1 core)
  obtain a b c where abc: "split_on CHR ''.'' core = [a, b, c]"
    using 1(4) by (auto simp: numeral_3_eq_3 length_Suc_conv)
  then have core: "core = a @ ''.'' @ b @ ''.'' @ c"
    using join_split [of "CHR ''.''" core] by simp
  have nums: "parse_u64 a = Some (v_major v)" "parse_u64 b = Some (v_minor v)" "parse_u64 c = Some (v_patch v)"
    using 1(5-7) by (simp_all add: abc)
  have "CHR ''+'' \<notin> set a" "CHR ''+'' \<notin> set b" "CHR ''+'' \<notin> set c"
    using 1(1) by (auto simp: core)
  then have "length (show_nat (v_major v)) \<le> length a" "length (show_nat (v_minor v)) \<le> length b"
    "length (show_nat (v_patch v)) \<le> length c"
    using nums parse_plain_length by blast+
  then have "length (version_display v) \<le> length s"
    by (simp add: 1(3) core version_display_def split: option.split)
  then show ?thesis
    using 1(2,8) nums [THEN parse_uint_bound] by (auto simp: version_wf_def)
qed

text \<open>
  the versions that the parser can produce are exactly the ones that survive being
  printed and parsed again, which is how versions travel through every serialized document.
\<close>

lemma version_roundtrip:
  "(\<exists>s. version_parse s = Ok v) \<longleftrightarrow> version_parse (version_display v) = Ok v"
  using version_parse_wf version_wf_parses by blast

text \<open>A label set with the builder need not survive the trip.\<close>

lemma built_label_does_not_roundtrip:
  "version_parse (version_display (with_pre ''a+b'' (version_new 1 0 0))) \<noteq> Ok (with_pre ''a+b'' (version_new 1 0 0))"
proof
  assume "version_parse (version_display (with_pre ''a+b'' (version_new 1 0 0))) = Ok (with_pre ''a+b'' (version_new 1 0 0))"
  from version_parse_wf [OF this] show False by (simp add: version_wf_def with_pre_def)
qed

end
