(* ===== verification/Package_Catalog.thy ===== *)
theory Package_Catalog
  imports Package_Versions Json
begin

text \<open>
  The plugin catalog: package manifests with their validation and content hash (package.rs),
  the doctor blocks they carry (doctor.rs), the signed registry index (registry_index.rs)
  and the organization's allowlist (allowlist.rs).

  Ed25519 verification, SHA-256 and the JSON printer are third-party code: the fields of
  \<open>catalog_crypto\<close>.
\<close>

record catalog_crypto =
  cc_sha256_hex :: "string \<Rightarrow> string"
  cc_to_vec :: "json \<Rightarrow> string"
  cc_key_ok :: "nat list \<Rightarrow> bool"
  cc_verify :: "nat list \<Rightarrow> string \<Rightarrow> nat list \<Rightarrow> bool"

section \<open>Doctor blocks\<close>

datatype config_repair =
    RenameKey string string
  | SplitValue string string
  | SupplyDefault string json

record state_migration =
  sm_version :: version
  sm_order :: nat
  sm_description :: string

record doctor_block =
  db_config_repairs :: "(version \<times> config_repair list) list"
  db_state_migrations :: "state_migration list"

definition migration_key :: "state_migration \<Rightarrow> nat \<times> nat \<times> nat \<times> nat" where
  "migration_key m = (v_major (sm_version m), v_minor (sm_version m), v_patch (sm_version m), sm_order m)"

fun check_migrations :: "(nat \<times> nat \<times> nat \<times> nat) list \<Rightarrow> state_migration list \<Rightarrow> package_fault + unit" where
  "check_migrations seen [] = Ok ()"
| "check_migrations seen (m # ms) =
     (if migration_key m \<in> set seen
      then Err (DuplicateMigration (sm_order m)
             (v_major (sm_version m), v_minor (sm_version m), v_patch (sm_version m)))
      else check_migrations (migration_key m # seen) ms)"

definition doctor_validate :: "doctor_block \<Rightarrow> package_fault + unit" where
  "doctor_validate d = check_migrations [] (db_state_migrations d)"

section \<open>Manifests\<close>

datatype sandbox_requirement = SandboxNone | SandboxPreferred | SandboxRequired

datatype package_kind = Connector | ToolPack | SkillPack | BlueprintTemplate

record file_entry =
  fe_path :: string
  fe_sha256 :: string
  fe_bytes :: nat

definition is_hexdigit :: "char \<Rightarrow> bool" where
  "is_hexdigit b \<longleftrightarrow> is_digit b \<or> (CHR ''a'' \<le> b \<and> b \<le> CHR ''f'') \<or> (CHR ''A'' \<le> b \<and> b \<le> CHR ''F'')"

definition MAX_PACKAGE_NAME_LEN :: nat where "MAX_PACKAGE_NAME_LEN = 128"
definition MAX_FILE_ENTRIES :: nat where "MAX_FILE_ENTRIES = 256"
definition MAX_DEPENDENCIES :: nat where "MAX_DEPENDENCIES = 32"
definition MAX_CAPABILITIES :: nat where "MAX_CAPABILITIES = 64"
definition MAX_FILE_PATH_LEN :: nat where "MAX_FILE_PATH_LEN = 512"

definition file_validate :: "file_entry \<Rightarrow> package_fault + unit" where
  "file_validate f =
     (if fe_path f = [] \<or> MAX_FILE_PATH_LEN < length (fe_path f) then Err FilePathLength
      else if starts_with ''/'' (fe_path f) \<or> contains_text ''..'' (fe_path f)
        then Err (FilePathUnsafe (fe_path f))
      else if length (fe_sha256 f) \<noteq> 64 then Err (FileHashLength (fe_path f))
      else if \<not> list_all is_hexdigit (fe_sha256 f) then Err (FileHashNotHex (fe_path f))
      else Ok ())"

datatype declared_effect =
    DeclaredPure | DeclaredReadOnly | DeclaredIdempotent | DeclaredCompensatable | DeclaredWrite

record tool_capability_decl =
  tc_name :: string
  tc_effect :: declared_effect
  tc_sandbox :: sandbox_requirement

record egress_dest_decl =
  ed_host :: string
  ed_methods :: "string list"
  ed_path_patterns :: "string list"

record secret_ref_decl =
  sr_store :: string
  sr_key :: string

record rest_scope_decl =
  rsd_family :: string
  rsd_actions :: "string list"

record capability_decl =
  cd_tools :: "tool_capability_decl list"
  cd_channels :: "string list"
  cd_providers :: "string list"
  cd_backends :: "string list"
  cd_skills :: "string list"
  cd_blueprints :: "string list"
  cd_secret_refs :: "secret_ref_decl list"
  cd_egress :: "egress_dest_decl list"
  cd_scopes :: "rest_scope_decl list"

definition capability_decl_default :: capability_decl where
  "capability_decl_default =
     \<lparr> cd_tools = [], cd_channels = [], cd_providers = [], cd_backends = [], cd_skills = [],
       cd_blueprints = [], cd_secret_refs = [], cd_egress = [], cd_scopes = [] \<rparr>"

definition capability_validate :: "capability_decl \<Rightarrow> package_fault + unit" where
  "capability_validate c =
     (if MAX_CAPABILITIES <
           length (cd_tools c) + length (cd_channels c) + length (cd_providers c) +
           length (cd_backends c) + length (cd_skills c) + length (cd_blueprints c) +
           length (cd_secret_refs c) + length (cd_egress c) + length (cd_scopes c)
      then Err TooManyCapabilities
      else if list_ex (\<lambda>t. tc_name t = [] \<or> 128 < length (tc_name t)) (cd_tools c) then Err ToolNameLength
      else if list_ex (\<lambda>d. ed_host d = [] \<or> 256 < length (ed_host d)) (cd_egress c)
        then Err EgressHostLength
      else Ok ())"

record package_signature =
  ps_sig_hex :: string
  ps_pubkey_hex :: string

record package_manifest =
  pm_id :: string
  pm_name :: string
  pm_kind :: package_kind
  pm_version :: version
  pm_publisher :: string
  pm_files :: "file_entry list"
  pm_dependencies :: "dependency_range list"
  pm_capabilities :: capability_decl
  pm_doctor :: "doctor_block option"
  pm_signature :: "package_signature option"
  pm_hash :: string

text \<open>The canonical content view that the manifest hash covers.\<close>

fun kind_name :: "package_kind \<Rightarrow> string" where
  "kind_name Connector = ''connector''"
| "kind_name ToolPack = ''tool_pack''"
| "kind_name SkillPack = ''skill_pack''"
| "kind_name BlueprintTemplate = ''blueprint_template''"

fun declared_effect_name :: "declared_effect \<Rightarrow> string" where
  "declared_effect_name DeclaredPure = ''pure''"
| "declared_effect_name DeclaredReadOnly = ''read_only''"
| "declared_effect_name DeclaredIdempotent = ''idempotent''"
| "declared_effect_name DeclaredCompensatable = ''compensatable''"
| "declared_effect_name DeclaredWrite = ''write''"

fun sandbox_name :: "sandbox_requirement \<Rightarrow> string" where
  "sandbox_name SandboxNone = ''none''"
| "sandbox_name SandboxPreferred = ''preferred''"
| "sandbox_name SandboxRequired = ''required''"

definition json_object :: "(string \<times> json) list \<Rightarrow> json" where
  "json_object kvs = JObject (bt_of_list kvs)"

definition json_strings :: "string list \<Rightarrow> json" where
  "json_strings ss = JArray (map JString ss)"

definition json_nat :: "nat \<Rightarrow> json" where
  "json_nat n = JNumber (PosInt n)"

definition unless_empty :: "string \<Rightarrow> json list \<Rightarrow> (string \<times> json) list" where
  "unless_empty key vs = (if vs = [] then [] else [(key, JArray vs)])"

definition file_to_json :: "file_entry \<Rightarrow> json" where
  "file_to_json f = json_object [(''path'', JString (fe_path f)), (''sha256'', JString (fe_sha256 f)),
     (''bytes'', json_nat (fe_bytes f))]"

definition dependency_to_json :: "dependency_range \<Rightarrow> json" where
  "dependency_to_json d = json_object [(''id'', JString (dr_id d)), (''constraint'', JString (dr_constraint d))]"

definition tool_decl_to_json :: "tool_capability_decl \<Rightarrow> json" where
  "tool_decl_to_json t = json_object [(''name'', JString (tc_name t)),
     (''effect'', JString (declared_effect_name (tc_effect t))),
     (''sandbox'', JString (sandbox_name (tc_sandbox t)))]"

definition egress_decl_to_json :: "egress_dest_decl \<Rightarrow> json" where
  "egress_decl_to_json e = json_object ([(''host'', JString (ed_host e)), (''methods'', json_strings (ed_methods e))] @
     unless_empty ''path_patterns'' (map JString (ed_path_patterns e)))"

definition secret_decl_to_json :: "secret_ref_decl \<Rightarrow> json" where
  "secret_decl_to_json s = json_object [(''store'', JString (sr_store s)), (''key'', JString (sr_key s))]"

definition scope_decl_to_json :: "rest_scope_decl \<Rightarrow> json" where
  "scope_decl_to_json s = json_object [(''family'', JString (rsd_family s)), (''actions'', json_strings (rsd_actions s))]"

definition capabilities_to_json :: "capability_decl \<Rightarrow> json" where
  "capabilities_to_json c = json_object (
     unless_empty ''tools'' (map tool_decl_to_json (cd_tools c)) @
     unless_empty ''channels'' (map JString (cd_channels c)) @
     unless_empty ''providers'' (map JString (cd_providers c)) @
     unless_empty ''backends'' (map JString (cd_backends c)) @
     unless_empty ''skills'' (map JString (cd_skills c)) @
     unless_empty ''blueprints'' (map JString (cd_blueprints c)) @
     unless_empty ''secret_refs'' (map secret_decl_to_json (cd_secret_refs c)) @
     unless_empty ''egress'' (map egress_decl_to_json (cd_egress c)) @
     unless_empty ''scopes'' (map scope_decl_to_json (cd_scopes c)))"

fun repair_to_json :: "config_repair \<Rightarrow> json" where
  "repair_to_json (RenameKey f t) =
     json_object [(''kind'', JString ''rename_key''), (''from'', JString f), (''to'', JString t)]"
| "repair_to_json (SplitValue p d) =
     json_object [(''kind'', JString ''split_value''), (''path'', JString p), (''delimiter'', JString d)]"
| "repair_to_json (SupplyDefault p v) =
     json_object [(''kind'', JString ''supply_default''), (''path'', JString p), (''value'', v)]"

definition migration_to_json :: "state_migration \<Rightarrow> json" where
  "migration_to_json m = json_object [(''version'', JString (version_display (sm_version m))),
     (''order'', json_nat (sm_order m)), (''description'', JString (sm_description m))]"

definition doctor_to_json :: "doctor_block \<Rightarrow> json" where
  "doctor_to_json d = json_object [
     (''config_repairs'', json_object
        (map (\<lambda>(v, rs). (version_display v, JArray (map repair_to_json rs))) (db_config_repairs d))),
     (''state_migrations'', JArray (map migration_to_json (db_state_migrations d)))]"

definition signature_to_json :: "package_signature \<Rightarrow> json" where
  "signature_to_json s = json_object [(''sig_hex'', JString (ps_sig_hex s)), (''pubkey_hex'', JString (ps_pubkey_hex s))]"

definition manifest_content :: "package_manifest \<Rightarrow> json" where
  "manifest_content m = json_object (
     [(''id'', JString (pm_id m)), (''name'', JString (pm_name m)), (''kind'', JString (kind_name (pm_kind m))),
      (''version'', JString (version_display (pm_version m))), (''publisher'', JString (pm_publisher m)),
      (''files'', JArray (map file_to_json (pm_files m))),
      (''dependencies'', JArray (map dependency_to_json (pm_dependencies m))),
      (''capabilities'', capabilities_to_json (pm_capabilities m))] @
     (case pm_doctor m of None \<Rightarrow> [] | Some d \<Rightarrow> [(''doctor'', doctor_to_json d)]) @
     (case pm_signature m of None \<Rightarrow> [] | Some s \<Rightarrow> [(''signature'', signature_to_json s)]))"

definition compute_hash :: "catalog_crypto \<Rightarrow> package_manifest \<Rightarrow> string" where
  "compute_hash cc m = cc_sha256_hex cc (cc_to_vec cc (canonicalize_value (manifest_content m)))"

definition verify_hash :: "catalog_crypto \<Rightarrow> package_manifest \<Rightarrow> bool" where
  "verify_hash cc m \<longleftrightarrow> pm_hash m \<noteq> [] \<and> pm_hash m = compute_hash cc m"

fun validate_each :: "('a \<Rightarrow> package_fault + unit) \<Rightarrow> 'a list \<Rightarrow> package_fault + unit" where
  "validate_each f [] = Ok ()"
| "validate_each f (x # xs) = rbind (f x) (\<lambda>_. validate_each f xs)"

text \<open>\<open>PackageManifest::new\<close>: the arguments are the fields of the draft, whose hash is ignored.\<close>

definition manifest_new :: "catalog_crypto \<Rightarrow> package_manifest \<Rightarrow> package_fault + package_manifest" where
  "manifest_new cc d =
     (if pm_name d = [] \<or> MAX_PACKAGE_NAME_LEN < length (pm_name d) then Err NameLength
      else if MAX_FILE_ENTRIES < length (pm_files d) then Err TooManyFiles
      else
        rbind (validate_each file_validate (pm_files d)) (\<lambda>_.
        if MAX_DEPENDENCIES < length (pm_dependencies d) then Err TooManyDependencies
        else
          rbind (validate_each dependency_validate (pm_dependencies d)) (\<lambda>_.
          rbind (capability_validate (pm_capabilities d)) (\<lambda>_.
          rbind (case pm_doctor d of None \<Rightarrow> Ok () | Some b \<Rightarrow> doctor_validate b) (\<lambda>_.
            let m = d\<lparr> pm_files := sort_key fe_path (pm_files d), pm_hash := [] \<rparr> in
            Ok (m\<lparr> pm_hash := compute_hash cc m \<rparr>))))))"

definition declares_tool :: "package_manifest \<Rightarrow> string \<Rightarrow> bool" where
  "declares_tool m name = list_ex (\<lambda>t. tc_name t = name) (cd_tools (pm_capabilities m))"

definition declares_egress :: "package_manifest \<Rightarrow> string \<Rightarrow> bool" where
  "declares_egress m host = list_ex (\<lambda>e. ed_host e = host) (cd_egress (pm_capabilities m))"

section \<open>Signatures\<close>

datatype signature_fault =
    PubkeyHexInvalid | SignatureHexInvalid | PubkeyLength nat | SignatureLength nat | PubkeyInvalid
  | SignatureMismatch | UntrustedKey string string

definition hex_nibble :: "char \<Rightarrow> nat option" where
  "hex_nibble b =
     (if is_digit b then Some (of_char b - 48)
      else if CHR ''a'' \<le> b \<and> b \<le> CHR ''f'' then Some (of_char b - 87)
      else if CHR ''A'' \<le> b \<and> b \<le> CHR ''F'' then Some (of_char b - 55)
      else None)"

text \<open>\<open>u8::from_str_radix\<close> on two characters: a leading plus sign is accepted.\<close>

definition hex_byte :: "char \<Rightarrow> char \<Rightarrow> nat option" where
  "hex_byte a b =
     (if a = CHR ''+'' then hex_nibble b
      else case (hex_nibble a, hex_nibble b) of (Some h, Some l) \<Rightarrow> Some (16 * h + l) | _ \<Rightarrow> None)"

text \<open>
  \<open>hex_decode\<close> slices the string at every second byte.  On a string with multi-byte characters
  that slice can panic; the model answers \<open>None\<close> there.
\<close>

fun hex_decode :: "string \<Rightarrow> nat list option" where
  "hex_decode [] = Some []"
| "hex_decode [a] = None"
| "hex_decode (a # b # s) =
     (case hex_byte a b of
        None \<Rightarrow> None
      | Some n \<Rightarrow> (case hex_decode s of None \<Rightarrow> None | Some ns \<Rightarrow> Some (n # ns)))"

definition signature_verify ::
    "catalog_crypto \<Rightarrow> package_signature \<Rightarrow> string \<Rightarrow> signature_fault + unit" where
  "signature_verify cc s message =
     (case hex_decode (ps_pubkey_hex s) of
        None \<Rightarrow> Err PubkeyHexInvalid
      | Some key \<Rightarrow>
     (case hex_decode (ps_sig_hex s) of
        None \<Rightarrow> Err SignatureHexInvalid
      | Some sig \<Rightarrow>
          if length key \<noteq> 32 then Err (PubkeyLength (length key))
          else if length sig \<noteq> 64 then Err (SignatureLength (length sig))
          else if \<not> cc_key_ok cc key then Err PubkeyInvalid
          else if \<not> cc_verify cc key message sig then Err SignatureMismatch
          else Ok ()))"

definition verify_against_trust_root ::
    "catalog_crypto \<Rightarrow> package_signature \<Rightarrow> string \<Rightarrow> string \<Rightarrow> signature_fault + unit" where
  "verify_against_trust_root cc s index_bytes trusted_key_hex =
     rbind (signature_verify cc s index_bytes) (\<lambda>_.
       if ps_pubkey_hex s \<noteq> trusted_key_hex then Err (UntrustedKey (ps_pubkey_hex s) trusted_key_hex)
       else Ok ())"

end
