(* ===== verification/Catalog_Policy.thy ===== *)
theory Catalog_Policy
  imports Package_Catalog "HOL-Library.AList"
begin

text \<open>
  What may be installed: dependency resolution (package.rs), the registry index with its
  lookup, revocations and merge (registry_index.rs), and the organization's allowlist with
  its approval obligations and compliance report (allowlist.rs).
\<close>

section \<open>Dependency resolution\<close>

datatype conflict_reason = NotAvailable | NoVersionSatisfies "version list"

record resolution_conflict =
  rc_dependency_id :: string
  rc_requested :: string
  rc_reason :: conflict_reason

datatype resolution_outcome = Satisfied | Conflicts "resolution_conflict list"

definition dependency_conflict ::
    "(string \<times> version list) list \<Rightarrow> dependency_range \<Rightarrow> resolution_conflict option" where
  "dependency_conflict available dep =
     (case map_of available (dr_id dep) of
        None \<Rightarrow> Some \<lparr> rc_dependency_id = dr_id dep, rc_requested = dr_constraint dep, rc_reason = NotAvailable \<rparr>
      | Some versions \<Rightarrow>
          if \<not> list_ex (\<lambda>v. range_satisfies dep v) versions
          then Some \<lparr> rc_dependency_id = dr_id dep, rc_requested = dr_constraint dep,
                      rc_reason = NoVersionSatisfies versions \<rparr>
          else None)"

definition resolve_dependencies ::
    "package_manifest \<Rightarrow> (string \<times> version list) list \<Rightarrow> resolution_outcome" where
  "resolve_dependencies m available =
     (let conflicts = List.map_filter (dependency_conflict available) (pm_dependencies m) in
      if conflicts = [] then Satisfied else Conflicts conflicts)"

section \<open>The registry index\<close>

datatype registry_origin = PublicOrigin | MirrorOrigin

record registry_version =
  rv_version :: version
  rv_content_hash :: string
  rv_publisher_pubkey_hex :: string
  rv_dependencies :: "dependency_range list"
  rv_capabilities :: capability_decl
  rv_revoked :: "string option"
  rv_eval_evidence_url :: "string option"

record registry_entry =
  re_id :: string
  re_name :: string
  re_kind :: package_kind
  re_publisher :: string
  re_versions :: "registry_version list"
  re_docs_url :: "string option"
  re_origin :: registry_origin

record registry_index =
  ri_format_version :: nat
  ri_generated_at :: string
  ri_entries :: "(string \<times> registry_entry) list"
  ri_signature :: package_signature

definition find_version :: "registry_entry \<Rightarrow> version \<Rightarrow> registry_version option" where
  "find_version e v = List.find (\<lambda>rv. rv_version rv = v) (re_versions e)"

definition latest_safe_version :: "registry_entry \<Rightarrow> registry_version option" where
  "latest_safe_version e = List.find (\<lambda>rv. rv_revoked rv = None) (re_versions e)"

definition is_revoked :: "registry_entry \<Rightarrow> version \<Rightarrow> string option" where
  "is_revoked e v = Option.bind (find_version e v) rv_revoked"

definition registry_index_new :: "nat \<Rightarrow> string \<Rightarrow> registry_entry list \<Rightarrow> registry_index" where
  "registry_index_new format_version generated_at entries =
     \<lparr> ri_format_version = format_version, ri_generated_at = generated_at,
       ri_entries = fold (\<lambda>e m. AList.update (re_id e) e m) entries [],
       ri_signature = \<lparr> ps_sig_hex = [], ps_pubkey_hex = [] \<rparr> \<rparr>"

definition index_get :: "registry_index \<Rightarrow> string \<Rightarrow> registry_entry option" where
  "index_get ri package_id = map_of (ri_entries ri) package_id"

definition by_origin :: "registry_index \<Rightarrow> registry_origin \<Rightarrow> registry_entry list" where
  "by_origin ri o1 = filter (\<lambda>e. re_origin e = o1) (map snd (ri_entries ri))"

definition merge_entry :: "string \<times> registry_entry \<Rightarrow> (string \<times> registry_entry) list \<Rightarrow> (string \<times> registry_entry) list" where
  "merge_entry = (\<lambda>(i, e) entries.
     let should_replace = (case map_of entries i of Some _ \<Rightarrow> re_origin e = MirrorOrigin | None \<Rightarrow> True) in
     if should_replace then AList.update i e entries else entries)"

definition index_merge :: "registry_index \<Rightarrow> registry_index \<Rightarrow> registry_index" where
  "index_merge self other = self\<lparr> ri_entries := fold merge_entry (ri_entries other) (ri_entries self) \<rparr>"

section \<open>The allowlist\<close>

datatype policy_mode = Open | Curated

datatype capability_constraint = KindIs package_kind | NoEgress | NoSecretRefs

record allowlist_entry =
  ae_package_id_pattern :: string
  ae_publisher :: "string option"
  ae_version_constraint :: string
  ae_capability_constraints :: "capability_constraint list"

fun constraint_met :: "package_manifest \<Rightarrow> capability_constraint \<Rightarrow> bool" where
  "constraint_met m (KindIs k) = (pm_kind m = k)"
| "constraint_met m NoEgress = (cd_egress (pm_capabilities m) = [])"
| "constraint_met m NoSecretRefs = (cd_secret_refs (pm_capabilities m) = [])"

definition entry_permits :: "allowlist_entry \<Rightarrow> package_manifest \<Rightarrow> version \<Rightarrow> bool" where
  "entry_permits e m v =
     (if ae_package_id_pattern e \<noteq> ''*'' \<and> ae_package_id_pattern e \<noteq> pm_id m then False
      else if (case ae_publisher e of None \<Rightarrow> False | Some p \<Rightarrow> p \<noteq> pm_publisher m) then False
      else if \<not> range_satisfies \<lparr> dr_id = pm_id m, dr_constraint = ae_version_constraint e \<rparr> v then False
      else list_all (constraint_met m) (ae_capability_constraints e))"

record org_policy =
  op_mode :: policy_mode
  op_entries :: "allowlist_entry list"

record approval_obligation =
  ao_package_id :: string
  ao_package_name :: string
  ao_publisher :: string
  ao_version :: version
  ao_capabilities :: capability_decl
  ao_egress :: "string list"
  ao_secret_refs :: "string list"
  ao_eval_evidence_url :: "string option"

datatype allowlist_outcome =
    Permitted | NeedsApproval approval_obligation | RevokedVersion string

record allowlist_checker =
  ac_policy :: org_policy
  ac_revocations :: "((string \<times> version) \<times> string) list"

definition checker_new :: "org_policy \<Rightarrow> allowlist_checker" where
  "checker_new p = \<lparr> ac_policy = p, ac_revocations = [] \<rparr>"

definition with_revocations ::
    "((string \<times> version) \<times> string) list \<Rightarrow> allowlist_checker \<Rightarrow> allowlist_checker" where
  "with_revocations r c = c\<lparr> ac_revocations := r \<rparr>"

definition obligation_for :: "package_manifest \<Rightarrow> version \<Rightarrow> approval_obligation" where
  "obligation_for m v =
     \<lparr> ao_package_id = pm_id m, ao_package_name = pm_name m, ao_publisher = pm_publisher m, ao_version = v,
       ao_capabilities = pm_capabilities m, ao_egress = map ed_host (cd_egress (pm_capabilities m)),
       ao_secret_refs = map sr_key (cd_secret_refs (pm_capabilities m)), ao_eval_evidence_url = None \<rparr>"

definition allowlist_check :: "allowlist_checker \<Rightarrow> package_manifest \<Rightarrow> version \<Rightarrow> allowlist_outcome" where
  "allowlist_check c m v =
     (case map_of (ac_revocations c) (pm_id m, v) of
        Some reason \<Rightarrow> RevokedVersion reason
      | None \<Rightarrow>
          (case op_mode (ac_policy c) of
             Open \<Rightarrow> Permitted
           | Curated \<Rightarrow>
               if list_ex (\<lambda>e. entry_permits e m v) (op_entries (ac_policy c)) then Permitted
               else NeedsApproval (obligation_for m v)))"

datatype compliance_status = Compliant | NonCompliant

datatype compliance_reason = WithinAllowlist | NarrowedOut | RevokedReason string

record compliance_flag =
  cf_package_id :: string
  cf_installed_version :: version
  cf_status :: compliance_status
  cf_reason :: compliance_reason

definition evaluate_compliance ::
    "org_policy \<Rightarrow> (package_manifest \<times> version) list \<Rightarrow> compliance_flag list" where
  "evaluate_compliance p installed =
     map (\<lambda>(m, v).
       let (status, reason) =
         (case allowlist_check (checker_new p) m v of
            Permitted \<Rightarrow> (Compliant, WithinAllowlist)
          | NeedsApproval _ \<Rightarrow> (NonCompliant, NarrowedOut)
          | RevokedVersion r \<Rightarrow> (NonCompliant, RevokedReason r)) in
       \<lparr> cf_package_id = pm_id m, cf_installed_version = v, cf_status = status, cf_reason = reason \<rparr>) installed"

text \<open>The in-memory approval store: obligations in order, ids from a counter.\<close>

record memory_approval_store =
  mas_obligations :: "approval_obligation list"
  mas_next_id :: nat

definition create_obligation ::
    "approval_obligation \<Rightarrow> memory_approval_store \<Rightarrow> string \<times> memory_approval_store" where
  "create_obligation ob st =
     (''ob-'' @ show_nat (mas_next_id st),
      \<lparr> mas_obligations = mas_obligations st @ [ob], mas_next_id = (mas_next_id st + 1) mod 2 ^ 64 \<rparr>)"

datatype allowlist_check_result = Allowed | Blocked string | PendingApprovalOf string

section \<open>What the gates decide\<close>

lemma map_filter_eq_Nil: "List.map_filter f xs = [] \<longleftrightarrow> list_all (\<lambda>x. f x = None) xs"
  by (induction xs) (auto simp: map_filter_simps split: option.splits)

lemma dependency_conflict_None:
  "dependency_conflict available dep = None \<longleftrightarrow>
     (\<exists>versions v. map_of available (dr_id dep) = Some versions \<and> v \<in> set versions \<and> range_satisfies dep v)"
  by (auto simp: dependency_conflict_def list_ex_iff split: option.splits)

lemma resolve_satisfied_iff:
  "resolve_dependencies m available = Satisfied \<longleftrightarrow>
     list_all (\<lambda>dep. \<exists>versions v. map_of available (dr_id dep) = Some versions \<and> v \<in> set versions \<and>
        range_satisfies dep v) (pm_dependencies m)"
  by (simp add: resolve_dependencies_def Let_def map_filter_eq_Nil dependency_conflict_None)

text \<open>
  C29: the allowlist verdict.  A revoked version is refused in every mode; an unrevoked one
  is permitted in open mode, and in curated mode exactly when an entry of the policy admits
  its id, publisher, version and declared capabilities; otherwise an obligation that names
  exactly that package, version and capability block is raised.
\<close>

theorem allowlist_verdict:
  "(allowlist_check c m v = RevokedVersion r \<longleftrightarrow> map_of (ac_revocations c) (pm_id m, v) = Some r) \<and>
   (allowlist_check c m v = Permitted \<longleftrightarrow>
      map_of (ac_revocations c) (pm_id m, v) = None \<and>
      (op_mode (ac_policy c) = Open \<or>
       (\<exists>e. e \<in> set (op_entries (ac_policy c)) \<and>
          (ae_package_id_pattern e = ''*'' \<or> ae_package_id_pattern e = pm_id m) \<and>
          (ae_publisher e = None \<or> ae_publisher e = Some (pm_publisher m)) \<and>
          (\<exists>k. parse_constraint (ae_version_constraint e) = Some k \<and> constraint_satisfies k v) \<and>
          list_all (constraint_met m) (ae_capability_constraints e)))) \<and>
   (allowlist_check c m v = NeedsApproval ob \<longleftrightarrow>
      map_of (ac_revocations c) (pm_id m, v) = None \<and> op_mode (ac_policy c) = Curated \<and>
      list_all (\<lambda>e. \<not> entry_permits e m v) (op_entries (ac_policy c)) \<and> ob = obligation_for m v)"
proof -
  have "entry_permits e m v \<longleftrightarrow>
      (ae_package_id_pattern e = ''*'' \<or> ae_package_id_pattern e = pm_id m) \<and>
      (ae_publisher e = None \<or> ae_publisher e = Some (pm_publisher m)) \<and>
      (\<exists>k. parse_constraint (ae_version_constraint e) = Some k \<and> constraint_satisfies k v) \<and>
      list_all (constraint_met m) (ae_capability_constraints e)" for e
    by (auto simp: entry_permits_def range_satisfies_def split: option.splits)
  then show ?thesis
    by (auto simp: allowlist_check_def list_ex_iff list_all_iff
        split: option.splits policy_mode.splits if_splits)
qed

text \<open>
  The compliance report consults a checker without revocations, so a package whose version
  was revoked after installation is reported as compliant.
\<close>

lemma compliance_ignores_revocations:
  "op_mode p = Open \<Longrightarrow> evaluate_compliance p [(m, v)] =
     [\<lparr> cf_package_id = pm_id m, cf_installed_version = v, cf_status = Compliant, cf_reason = WithinAllowlist \<rparr>]"
  by (simp add: evaluate_compliance_def allowlist_check_def checker_new_def)

section \<open>Merging indexes\<close>

lemma map_of_merge_entry:
  "map_of (merge_entry (i, e) entries) =
     (if map_of entries i = None \<or> re_origin e = MirrorOrigin then (map_of entries)(i \<mapsto> e)
      else map_of entries)"
  by (auto simp: merge_entry_def update_conv' Let_def split: option.splits)

lemma map_of_fold_merge:
  assumes "distinct (map fst others)"
  shows "map_of (fold merge_entry others entries) i =
     (case map_of others i of
        None \<Rightarrow> map_of entries i
      | Some e \<Rightarrow> if map_of entries i = None \<or> re_origin e = MirrorOrigin then Some e else map_of entries i)"
  using assms
proof (induction others arbitrary: entries)
  case (Cons x others)
  obtain j e where x: "x = (j, e)" by fastforce
  have "map_of others j = None" if "j = i"
    using Cons.prems that by (simp add: x map_of_eq_None_iff)
  then show ?case
    using Cons by (auto simp: x map_of_merge_entry split: option.splits)
qed simp

text \<open>
  Merging a second index keeps every package of the first, adds the packages only the
  second has, and lets an entry of the second replace one of the first exactly when it comes
  from a private mirror.
\<close>

lemma merge_prefers_mirror:
  assumes "distinct (map fst (ri_entries other))"
  shows "index_get (index_merge self other) i =
     (case (index_get self i, index_get other i) of
        (None, e) \<Rightarrow> e
      | (Some e, None) \<Rightarrow> Some e
      | (Some e, Some e') \<Rightarrow> if re_origin e' = MirrorOrigin then Some e' else Some e)"
  using map_of_fold_merge [OF assms, of "ri_entries self" i]
  by (auto simp: index_get_def index_merge_def split: option.splits)

end
