(* ===== verification/Package_Install.thy ===== *)
theory Package_Install
  imports Catalog_Policy
begin

text \<open>
  The catalog installer (rusty-core install.rs): install, update and rollback with scope
  check, idempotency, allowlist gate, dependency resolution, capability registration,
  evaluation and audit, and the upgrade chain of the doctor (doctor.rs).

  The installer talks to its surroundings through five traits: the install store, the audit
  ledger, the capability registrar, the evaluation runner and the approval store.  The model
  keeps the sequence of calls it makes.  A \<open>catalog_backend\<close> answers each call, with a
  result or an error, as a function of the calls made before; it can be any implementation of
  the traits.
\<close>

section \<open>Requests, outcomes and records\<close>

record install_request =
  irq_package_id :: string
  irq_version :: version
  irq_idempotency_key :: string
  irq_actor :: string

datatype install_step =
    VerifySignatures | EnforceAllowlist | ResolveDependencies | StageFiles | DoctorInit
  | RegisterCapabilities | RunEvalSuite | Activate

record install_step_record =
  isr_step :: install_step
  isr_detail :: json

datatype install_error =
    ScopeRequired string
  | PackageNotFound string
  | VersionNotFound version string
  | VersionRevoked version string
  | BackendError string
  | ManifestInvalid package_fault
  | AllowlistBlocked string
  | DependencyFailed "resolution_conflict list"
  | RegistrationFailed string
  | EvalFailed string
  | NotInstalled string
  | NoDeclaredPath version version
  | ChainGap version version
  | UpdatePending string

datatype install_outcome =
    Installed string version "install_step_record list"
  | IdempotentInstall string version
  | PendingApproval string version string
  | FailedInstall string version install_step install_error

record catalog_audit_record =
  car_actor :: string
  car_operation :: string
  car_package_id :: string
  car_version :: version
  car_step :: "install_step option"
  car_detail :: json

record installed_package =
  ip_manifest :: package_manifest
  ip_installed_version :: version
  ip_config :: json
  ip_state_version :: version

section \<open>Calls to the surroundings\<close>

datatype backend_call =
    GetOutcome string
  | RecordOutcome string install_outcome
  | AppendAudit catalog_audit_record
  | CreateObligation approval_obligation
  | ListInstalled
  | RegisterCaps package_manifest
  | UnregisterCaps string
  | RunEval package_manifest
  | PutInstalled installed_package

record catalog_backend =
  be_get_outcome :: "backend_call list \<Rightarrow> string \<Rightarrow> string + install_outcome option"
  be_record_outcome :: "backend_call list \<Rightarrow> string \<Rightarrow> install_outcome \<Rightarrow> string + unit"
  be_append :: "backend_call list \<Rightarrow> catalog_audit_record \<Rightarrow> string + unit"
  be_create_obligation :: "backend_call list \<Rightarrow> approval_obligation \<Rightarrow> string + string"
  be_list_installed :: "backend_call list \<Rightarrow> string + installed_package list"
  be_register :: "backend_call list \<Rightarrow> package_manifest \<Rightarrow> string + unit"
  be_unregister :: "backend_call list \<Rightarrow> string \<Rightarrow> string + unit"
  be_eval :: "backend_call list \<Rightarrow> package_manifest \<Rightarrow> string + unit"
  be_put_installed :: "backend_call list \<Rightarrow> installed_package \<Rightarrow> string + unit"

type_synonym 'a action = "backend_call list \<Rightarrow> (install_error + 'a) \<times> backend_call list"

definition ret :: "'a \<Rightarrow> 'a action" where
  "ret a = (\<lambda>log. (Ok a, log))"

definition fail :: "install_error \<Rightarrow> 'a action" where
  "fail e = (\<lambda>log. (Err e, log))"

definition bnd :: "'a action \<Rightarrow> ('a \<Rightarrow> 'b action) \<Rightarrow> 'b action" where
  "bnd m f = (\<lambda>log. case m log of (Inl e, log') \<Rightarrow> (Inl e, log') | (Inr a, log') \<Rightarrow> f a log')"

definition lift :: "install_error + 'a \<Rightarrow> 'a action" where
  "lift r = (\<lambda>log. (r, log))"

text \<open>A backend call with \<open>?\<close>, and one whose error the caller inspects.\<close>

definition perform :: "backend_call \<Rightarrow> (backend_call list \<Rightarrow> string + 'a) \<Rightarrow> 'a action" where
  "perform c answer = (\<lambda>log. (case answer log of Inl e \<Rightarrow> Err (BackendError e) | Inr a \<Rightarrow> Ok a, log @ [c]))"

definition attempt :: "backend_call \<Rightarrow> (backend_call list \<Rightarrow> string + 'a) \<Rightarrow> (string + 'a) action" where
  "attempt c answer = (\<lambda>log. (Ok (answer log), log @ [c]))"

section \<open>Scopes of catalog operations\<close>

definition scope_text_matches :: "string \<Rightarrow> string \<Rightarrow> bool" where
  "scope_text_matches held required =
     (if held = required then True
      else
        let held_parts = split_on CHR '':'' held; req_parts = split_on CHR '':'' required in
        if length held_parts \<noteq> length req_parts then False
        else list_all (\<lambda>(h, r). h = r \<or> h = ''*'') (zip held_parts req_parts))"

definition scope_grants :: "string list \<Rightarrow> string \<Rightarrow> string \<Rightarrow> bool" where
  "scope_grants held family action =
     list_ex (\<lambda>s. scope_text_matches s (family @ '':'' @ action)) held"

section \<open>The install sequence\<close>

definition build_manifest ::
    "catalog_crypto \<Rightarrow> registry_entry \<Rightarrow> registry_version \<Rightarrow> package_fault + package_manifest" where
  "build_manifest cc e rv =
     manifest_new cc
       \<lparr> pm_id = re_id e, pm_name = re_name e, pm_kind = re_kind e, pm_version = rv_version rv,
         pm_publisher = re_publisher e,
         pm_files = [\<lparr> fe_path = ''manifest.json'', fe_sha256 = rv_content_hash rv, fe_bytes = 0 \<rparr>],
         pm_dependencies = rv_dependencies rv, pm_capabilities = rv_capabilities rv, pm_doctor = None,
         pm_signature = Some \<lparr> ps_sig_hex = [], ps_pubkey_hex = rv_publisher_pubkey_hex rv \<rparr>,
         pm_hash = [] \<rparr>"

definition build_initial_config :: "package_manifest \<Rightarrow> json" where
  "build_initial_config m = json_object []"

definition audit_install ::
    "catalog_backend \<Rightarrow> install_request \<Rightarrow> install_step \<Rightarrow> json \<Rightarrow> install_step_record action" where
  "audit_install be req step detail =
     (let r = \<lparr> car_actor = irq_actor req, car_operation = ''install'', car_package_id = irq_package_id req,
                car_version = irq_version req, car_step = Some step, car_detail = detail \<rparr> in
      bnd (perform (AppendAudit r) (\<lambda>log. be_append be log r)) (\<lambda>_.
        ret \<lparr> isr_step = step, isr_detail = detail \<rparr>))"

text \<open>\<open>AllowlistChecker::check_install\<close>; the version checked is the manifest's.\<close>

definition check_install ::
    "catalog_backend \<Rightarrow> allowlist_checker \<Rightarrow> package_manifest \<Rightarrow> string option \<Rightarrow> allowlist_check_result action" where
  "check_install be c m revoked =
     (case revoked of
        Some reason \<Rightarrow> ret (Blocked (''revoked: '' @ reason))
      | None \<Rightarrow>
          (case allowlist_check c m (pm_version m) of
             Permitted \<Rightarrow> ret Allowed
           | RevokedVersion reason \<Rightarrow> ret (Blocked (''revoked: '' @ reason))
           | NeedsApproval ob \<Rightarrow>
               bnd (perform (CreateObligation ob) (\<lambda>log. be_create_obligation be log ob)) (\<lambda>i.
                 ret (PendingApprovalOf i))))"

definition push_version :: "string \<Rightarrow> version \<Rightarrow> (string \<times> version list) list \<Rightarrow> (string \<times> version list) list" where
  "push_version i v avail =
     AList.update i ((case map_of avail i of None \<Rightarrow> [] | Some vs \<Rightarrow> vs) @ [v]) avail"

definition available_versions ::
    "registry_index \<Rightarrow> installed_package list \<Rightarrow> (string \<times> version list) list" where
  "available_versions idx installed =
     fold (\<lambda>(k, e). fold (\<lambda>rv. push_version (re_id e) (rv_version rv)) (re_versions e)) (ri_entries idx)
       (fold (\<lambda>p. push_version (pm_id (ip_manifest p)) (ip_installed_version p)) installed [])"

definition locate_version ::
    "registry_index \<Rightarrow> install_request \<Rightarrow> install_error + (registry_entry \<times> registry_version)" where
  "locate_version idx req =
     (case index_get idx (irq_package_id req) of
        None \<Rightarrow> Err (PackageNotFound (irq_package_id req))
      | Some e \<Rightarrow>
     (case find_version e (irq_version req) of
        None \<Rightarrow> Err (VersionNotFound (irq_version req) (irq_package_id req))
      | Some rv \<Rightarrow>
     (case rv_revoked rv of
        Some reason \<Rightarrow> Err (VersionRevoked (irq_version req) reason)
      | None \<Rightarrow> Ok (e, rv))))"

definition resolve_step :: "catalog_backend \<Rightarrow> registry_index \<Rightarrow> package_manifest \<Rightarrow> unit action" where
  "resolve_step be idx m =
     bnd (perform ListInstalled (\<lambda>log. be_list_installed be log)) (\<lambda>installed.
       case resolve_dependencies m (available_versions idx installed) of
         Conflicts cs \<Rightarrow> fail (DependencyFailed cs)
       | Satisfied \<Rightarrow> ret ())"

definition register_step :: "catalog_backend \<Rightarrow> install_request \<Rightarrow> package_manifest \<Rightarrow> unit action" where
  "register_step be req m =
     bnd (attempt (RegisterCaps m) (\<lambda>log. be_register be log m)) (\<lambda>r.
       case r of
         Inr _ \<Rightarrow> ret ()
       | Inl e \<Rightarrow>
           bnd (attempt (UnregisterCaps (irq_package_id req)) (\<lambda>log. be_unregister be log (irq_package_id req)))
             (\<lambda>_. fail (RegistrationFailed e)))"

definition eval_step :: "catalog_backend \<Rightarrow> install_request \<Rightarrow> package_manifest \<Rightarrow> unit action" where
  "eval_step be req m =
     bnd (attempt (RunEval m) (\<lambda>log. be_eval be log m)) (\<lambda>r.
       case r of
         Inr _ \<Rightarrow> ret ()
       | Inl e \<Rightarrow>
           bnd (attempt (UnregisterCaps (irq_package_id req)) (\<lambda>log. be_unregister be log (irq_package_id req)))
             (\<lambda>_. fail (EvalFailed e)))"

definition activate_step ::
    "catalog_backend \<Rightarrow> install_request \<Rightarrow> package_manifest \<Rightarrow> install_step_record list \<Rightarrow>
     install_outcome action" where
  "activate_step be req m steps =
     (let pkg = \<lparr> ip_manifest = m, ip_installed_version = irq_version req,
                  ip_config = build_initial_config m, ip_state_version = irq_version req \<rparr> in
      bnd (perform (PutInstalled pkg) (\<lambda>log. be_put_installed be log pkg)) (\<lambda>_.
      bnd (audit_install be req Activate (json_object [(''activated'', JBool True)])) (\<lambda>s8.
        ret (Installed (irq_package_id req) (irq_version req) (steps @ [s8])))))"

definition prepare_steps ::
    "catalog_backend \<Rightarrow> registry_index \<Rightarrow> install_request \<Rightarrow> package_manifest \<Rightarrow> install_step_record list action" where
  "prepare_steps be idx req m =
     bnd (resolve_step be idx m) (\<lambda>_.
     bnd (audit_install be req ResolveDependencies (json_object [(''resolved'', JBool True)])) (\<lambda>s3.
     bnd (audit_install be req StageFiles (json_object [(''staged'', json_nat (length (pm_files m)))])) (\<lambda>s4.
     bnd (audit_install be req DoctorInit (json_object [(''config_keys'', json_nat 0)])) (\<lambda>s5.
       ret [s3, s4, s5]))))"

definition register_steps ::
    "catalog_backend \<Rightarrow> install_request \<Rightarrow> package_manifest \<Rightarrow> install_step_record action" where
  "register_steps be req m =
     bnd (register_step be req m) (\<lambda>_.
       audit_install be req RegisterCapabilities
         (json_object [(''capabilities'', json_nat (length (cd_tools (pm_capabilities m))))]))"

definition eval_steps ::
    "catalog_backend \<Rightarrow> install_request \<Rightarrow> package_manifest \<Rightarrow> install_step_record action" where
  "eval_steps be req m =
     bnd (eval_step be req m) (\<lambda>_.
       audit_install be req RunEvalSuite (json_object [(''passed'', JBool True)]))"

definition after_gate ::
    "catalog_backend \<Rightarrow> registry_index \<Rightarrow> install_request \<Rightarrow> package_manifest \<Rightarrow> install_step_record list \<Rightarrow>
     install_outcome action" where
  "after_gate be idx req m steps =
     bnd (prepare_steps be idx req m) (\<lambda>prepared.
     bnd (register_steps be req m) (\<lambda>s6.
     bnd (eval_steps be req m) (\<lambda>s7.
       activate_step be req m (steps @ prepared @ [s6, s7]))))"

definition verdict_step ::
    "catalog_backend \<Rightarrow> registry_index \<Rightarrow> install_request \<Rightarrow> package_manifest \<Rightarrow> install_step_record \<Rightarrow>
     allowlist_check_result \<Rightarrow> install_outcome action" where
  "verdict_step be idx req m s1 verdict =
     (case verdict of
        Blocked reason \<Rightarrow> fail (AllowlistBlocked reason)
      | PendingApprovalOf i \<Rightarrow>
          bnd (audit_install be req EnforceAllowlist (json_object [(''pending_approval'', JString i)])) (\<lambda>_.
            ret (PendingApproval (irq_package_id req) (irq_version req) i))
      | Allowed \<Rightarrow>
          bnd (audit_install be req EnforceAllowlist (json_object [(''allowed'', JBool True)])) (\<lambda>s2.
            after_gate be idx req m [s1, s2]))"

definition install_inner ::
    "catalog_backend \<Rightarrow> catalog_crypto \<Rightarrow> registry_index \<Rightarrow> allowlist_checker \<Rightarrow> install_request \<Rightarrow>
     install_outcome action" where
  "install_inner be cc idx checker req =
     bnd (lift (locate_version idx req)) (\<lambda>(e, rv).
     bnd (audit_install be req VerifySignatures
            (json_object [(''publisher_pubkey'', JString (rv_publisher_pubkey_hex rv))])) (\<lambda>s1.
     bnd (lift (case build_manifest cc e rv of Inl f \<Rightarrow> Err (ManifestInvalid f) | Inr m \<Rightarrow> Ok m)) (\<lambda>m.
     bnd (check_install be checker m (rv_revoked rv)) (verdict_step be idx req m s1))))"

definition settle_outcome ::
    "catalog_backend \<Rightarrow> install_request \<Rightarrow> install_outcome action \<Rightarrow> install_outcome action" where
  "settle_outcome be req inner =
     (\<lambda>log. case inner log of (result, log') \<Rightarrow>
        (case result of
           Inr (PendingApproval i v ob) \<Rightarrow> (Ok (PendingApproval i v ob), log')
         | _ \<Rightarrow>
             let outcome = (case result of
                   Inr o1 \<Rightarrow> o1
                 | Inl e \<Rightarrow> FailedInstall (irq_package_id req) (irq_version req) VerifySignatures e) in
             bnd (perform (RecordOutcome (irq_idempotency_key req) outcome)
                    (\<lambda>log. be_record_outcome be log (irq_idempotency_key req) outcome))
               (\<lambda>_. ret outcome) log'))"

definition install ::
    "catalog_backend \<Rightarrow> catalog_crypto \<Rightarrow> registry_index \<Rightarrow> allowlist_checker \<Rightarrow> string list \<Rightarrow>
     install_request \<Rightarrow> install_outcome action" where
  "install be cc idx checker scopes req =
     bnd (perform (GetOutcome (irq_idempotency_key req))
            (\<lambda>log. be_get_outcome be log (irq_idempotency_key req))) (\<lambda>prior.
       case prior of
         Some o1 \<Rightarrow> ret o1
       | None \<Rightarrow>
           if \<not> scope_grants scopes ''catalog'' ''install'' then fail (ScopeRequired ''catalog:install'')
           else settle_outcome be req (install_inner be cc idx checker req))"

section \<open>The doctor's upgrade chain\<close>

record chain_step =
  cs_from :: version
  cs_to :: version
  cs_repairs :: "config_repair list"
  cs_migrations :: "state_migration list"

text \<open>The versions a block declares, sorted by precedence; \<open>sort\<close> is stable.\<close>

definition declared_versions :: "doctor_block \<Rightarrow> version list" where
  "declared_versions block =
     remdups_adj (sort_key version_key (map sm_version (db_state_migrations block) @ map fst (db_config_repairs block)))"

fun chain_steps :: "doctor_block \<Rightarrow> version \<Rightarrow> version list \<Rightarrow> chain_step list" where
  "chain_steps block prev [] = []"
| "chain_steps block prev (v # vs) =
     \<lparr> cs_from = prev, cs_to = v,
       cs_repairs = (case map_of (db_config_repairs block) v of None \<Rightarrow> [] | Some rs \<Rightarrow> rs),
       cs_migrations = filter (\<lambda>m. sm_version m = v) (db_state_migrations block) \<rparr> # chain_steps block v vs"

definition doctor_chain ::
    "version \<Rightarrow> version \<Rightarrow> doctor_block \<Rightarrow> install_error + chain_step list" where
  "doctor_chain from_version target block =
     (if from_version = target then Ok []
      else
        let path = filter (\<lambda>v. version_lt from_version v \<and> version_le v target) (declared_versions block) in
        if path = [] then Err (NoDeclaredPath from_version target)
        else if last path \<noteq> target then Err (ChainGap from_version target)
        else Ok (chain_steps block from_version path))"

section \<open>Update\<close>

record update_request =
  uq_package_id :: string
  uq_target_version :: version
  uq_idempotency_key :: string
  uq_actor :: string

datatype update_outcome =
    Updated string version version "install_step_record list"
  | IdempotentUpdate string version
  | FailedUpdate string install_step install_error

definition find_installed :: "string \<Rightarrow> installed_package list \<Rightarrow> install_error + installed_package" where
  "find_installed i installed =
     (case List.find (\<lambda>p. pm_id (ip_manifest p) = i) installed of
        None \<Rightarrow> Err (NotInstalled i) | Some p \<Rightarrow> Ok p)"

definition audit_chain :: "catalog_backend \<Rightarrow> update_request \<Rightarrow> chain_step list \<Rightarrow> unit action" where
  "audit_chain be req chain =
     (if chain = [] then ret ()
      else
        let r = \<lparr> car_actor = uq_actor req, car_operation = ''update'', car_package_id = uq_package_id req,
                  car_version = uq_target_version req, car_step = None,
                  car_detail = json_object [(''doctor_chain_steps'', json_nat (length chain))] \<rparr> in
        perform (AppendAudit r) (\<lambda>log. be_append be log r))"

definition update_of_install ::
    "update_request \<Rightarrow> version \<Rightarrow> install_outcome \<Rightarrow> install_error + update_outcome" where
  "update_of_install req from_version o1 =
     (case o1 of
        Installed i v steps \<Rightarrow> Ok (Updated (uq_package_id req) from_version (uq_target_version req) steps)
      | IdempotentInstall i v \<Rightarrow> Ok (IdempotentUpdate i v)
      | PendingApproval i v ob \<Rightarrow> Err (UpdatePending ob)
      | FailedInstall i v step e \<Rightarrow> Ok (FailedUpdate i step e))"

definition update ::
    "catalog_backend \<Rightarrow> catalog_crypto \<Rightarrow> registry_index \<Rightarrow> allowlist_checker \<Rightarrow> string list \<Rightarrow>
     update_request \<Rightarrow> update_outcome action" where
  "update be cc idx checker scopes req =
     (if \<not> scope_grants scopes ''catalog'' ''install'' then fail (ScopeRequired ''catalog:install'')
      else
        bnd (perform ListInstalled (\<lambda>log. be_list_installed be log)) (\<lambda>installed.
        bnd (lift (find_installed (uq_package_id req) installed)) (\<lambda>pkg.
        bnd (case pm_doctor (ip_manifest pkg) of
               None \<Rightarrow> ret ()
             | Some block \<Rightarrow>
                 bnd (lift (doctor_chain (ip_installed_version pkg) (uq_target_version req) block))
                   (audit_chain be req)) (\<lambda>_.
        bnd (install be cc idx checker scopes
               \<lparr> irq_package_id = uq_package_id req, irq_version = uq_target_version req,
                 irq_idempotency_key = uq_idempotency_key req, irq_actor = uq_actor req \<rparr>) (\<lambda>o1.
          lift (update_of_install req (ip_installed_version pkg) o1))))))"

section \<open>Rollback\<close>

record rollback_request =
  rq_package_id :: string
  rq_target_version :: version
  rq_idempotency_key :: string
  rq_actor :: string

datatype rollback_outcome =
    RolledBack string version version
  | RollbackRefused string string

definition irreversible_migrations :: "doctor_block \<Rightarrow> version \<Rightarrow> version \<Rightarrow> state_migration list" where
  "irreversible_migrations block from_version to =
     filter (\<lambda>m. version_lt to (sm_version m) \<and> version_le (sm_version m) from_version) (db_state_migrations block)"

definition refusal_text :: "nat \<Rightarrow> version \<Rightarrow> version \<Rightarrow> string" where
  "refusal_text n to from_version =
     ''catalog error: install: rollback refused: '' @ show_nat n @ '' forward state migration(s) between '' @
     version_display to @ '' and '' @ version_display from_version @
     '' are not declared reversible; restore from backup (EP-13-S10) is the supported alternative''"

definition audit_rollback :: "catalog_backend \<Rightarrow> rollback_request \<Rightarrow> json \<Rightarrow> unit action" where
  "audit_rollback be req detail =
     (let r = \<lparr> car_actor = rq_actor req, car_operation = ''rollback'', car_package_id = rq_package_id req,
                car_version = rq_target_version req, car_step = None, car_detail = detail \<rparr> in
      perform (AppendAudit r) (\<lambda>log. be_append be log r))"

definition restore_version ::
    "catalog_backend \<Rightarrow> catalog_crypto \<Rightarrow> registry_index \<Rightarrow> rollback_request \<Rightarrow> installed_package \<Rightarrow>
     rollback_outcome action" where
  "restore_version be cc idx req pkg =
     bnd (perform (UnregisterCaps (rq_package_id req)) (\<lambda>log. be_unregister be log (rq_package_id req))) (\<lambda>_.
     bnd (lift (case index_get idx (rq_package_id req) of
                  None \<Rightarrow> Err (PackageNotFound (rq_package_id req)) | Some e \<Rightarrow> Ok e)) (\<lambda>e.
     bnd (lift (case find_version e (rq_target_version req) of
                  None \<Rightarrow> Err (VersionNotFound (rq_target_version req) (rq_package_id req)) | Some rv \<Rightarrow> Ok rv)) (\<lambda>rv.
     bnd (lift (case build_manifest cc e rv of Inl f \<Rightarrow> Err (ManifestInvalid f) | Inr m \<Rightarrow> Ok m)) (\<lambda>m.
       let restored = \<lparr> ip_manifest = m, ip_installed_version = rq_target_version req,
                        ip_config = ip_config pkg, ip_state_version = rq_target_version req \<rparr> in
     bnd (perform (PutInstalled restored) (\<lambda>log. be_put_installed be log restored)) (\<lambda>_.
     bnd (audit_rollback be req (json_object
            [(''from'', JString (version_display (ip_installed_version pkg))),
             (''to'', JString (version_display (rq_target_version req)))])) (\<lambda>_.
       ret (RolledBack (rq_package_id req) (ip_installed_version pkg) (rq_target_version req))))))))"

definition rollback ::
    "catalog_backend \<Rightarrow> catalog_crypto \<Rightarrow> registry_index \<Rightarrow> string list \<Rightarrow>
     rollback_request \<Rightarrow> rollback_outcome action" where
  "rollback be cc idx scopes req =
     (if \<not> scope_grants scopes ''catalog'' ''install'' then fail (ScopeRequired ''catalog:install'')
      else
        bnd (perform ListInstalled (\<lambda>log. be_list_installed be log)) (\<lambda>installed.
        bnd (lift (find_installed (rq_package_id req) installed)) (\<lambda>pkg.
          let relevant = (case pm_doctor (ip_manifest pkg) of
                            None \<Rightarrow> []
                          | Some block \<Rightarrow> irreversible_migrations block (ip_installed_version pkg) (rq_target_version req)) in
          if relevant \<noteq> [] then
            bnd (audit_rollback be req (json_object
                   [(''refused'', JBool True),
                    (''reason'', JString (refusal_text (length relevant) (rq_target_version req)
                                           (ip_installed_version pkg)))]))
              (\<lambda>_. ret (RollbackRefused (rq_package_id req)
                (refusal_text (length relevant) (rq_target_version req) (ip_installed_version pkg))))
          else restore_version be cc idx req pkg)))"

end
