(* ===== verification/Install_Safety.thy ===== *)
theory Install_Safety
  imports Package_Install
begin

text \<open>
  Properties of the installer for every backend: a package is activated only behind all of
  its gates and in the right order, and a retried request replays its recorded outcome
  without touching anything else.
\<close>

section \<open>Traces of actions\<close>

definition quiet :: "'a action \<Rightarrow> bool" where
  "quiet m \<longleftrightarrow> (\<forall>log. \<exists>new. snd (m log) = log @ new \<and> (\<forall>p. PutInstalled p \<notin> set new))"

named_theorems quiet_intros \<open>actions that activate nothing\<close>

lemma quiet_pure [quiet_intros]: "quiet (ret a)" "quiet (fail e)" "quiet (lift r)"
  by (simp_all add: quiet_def ret_def fail_def lift_def)

lemma quiet_perform [quiet_intros]: "\<forall>p. c \<noteq> PutInstalled p \<Longrightarrow> quiet (perform c answer)"
  by (auto simp: quiet_def perform_def)

lemma quiet_attempt [quiet_intros]: "\<forall>p. c \<noteq> PutInstalled p \<Longrightarrow> quiet (attempt c answer)"
  by (auto simp: quiet_def attempt_def)

lemma quiet_bnd [quiet_intros]:
  assumes "quiet m" "\<And>a. quiet (f a)"
  shows "quiet (bnd m f)"
  unfolding quiet_def
proof
  fix log
  obtain r new where m: "m log = (r, log @ new)" "\<forall>p. PutInstalled p \<notin> set new"
    using assms(1) unfolding quiet_def by (metis prod.collapse)
  show "\<exists>new. snd (bnd m f log) = log @ new \<and> (\<forall>p. PutInstalled p \<notin> set new)"
  proof (cases r)
    case (Inr a)
    obtain new' where "snd (f a (log @ new)) = (log @ new) @ new'" "\<forall>p. PutInstalled p \<notin> set new'"
      using assms(2) unfolding quiet_def by blast
    then show ?thesis using m Inr by (intro exI [of _ "new @ new'"]) (simp add: bnd_def)
  qed (use m in \<open>simp add: bnd_def\<close>)
qed

lemma quiet_steps [quiet_intros]:
  "quiet (audit_install be req step detail)" "quiet (check_install be c m revoked)"
  "quiet (resolve_step be idx m)" "quiet (register_step be req m)" "quiet (eval_step be req m)"
  unfolding audit_install_def check_install_def resolve_step_def register_step_def eval_step_def Let_def
  by (auto intro!: quiet_intros split: option.split allowlist_outcome.split resolution_outcome.split sum.split)

definition grows :: "'a action \<Rightarrow> bool" where
  "grows m \<longleftrightarrow> (\<forall>log. \<exists>new. snd (m log) = log @ new)"

named_theorems grows_intros \<open>actions only append to the call sequence\<close>

lemma quiet_grows [grows_intros]: "quiet m \<Longrightarrow> grows m"
  by (auto simp: quiet_def grows_def)

lemma grows_bnd [grows_intros]:
  assumes "grows m" "\<And>a. grows (f a)"
  shows "grows (bnd m f)"
  unfolding grows_def
proof
  fix log
  obtain r new where m: "m log = (r, log @ new)"
    using assms(1) unfolding grows_def by (metis prod.collapse)
  show "\<exists>new. snd (bnd m f log) = log @ new"
  proof (cases r)
    case (Inr a)
    obtain new' where "snd (f a (log @ new)) = (log @ new) @ new'"
      using assms(2) unfolding grows_def by blast
    then show ?thesis using m Inr by (simp add: bnd_def)
  qed (use m in \<open>simp add: bnd_def\<close>)
qed

lemma grows_perform [grows_intros]: "grows (perform c answer)"
  by (simp add: grows_def perform_def)

lemma quiet_stages [quiet_intros]:
  "quiet (prepare_steps be idx req m)" "quiet (register_steps be req m)" "quiet (eval_steps be req m)"
  unfolding prepare_steps_def register_steps_def eval_steps_def by (intro quiet_intros)+

lemma grows_activate [grows_intros]: "grows (activate_step be req m steps)"
  unfolding activate_step_def Let_def by (intro grows_intros quiet_intros)

lemma grows_after_gate [grows_intros]: "grows (after_gate be idx req m steps)"
  unfolding after_gate_def
  by (intro grows_bnd grows_activate quiet_grows quiet_stages)

text \<open>An activation in a sequence happens after its quiet part succeeded.\<close>

lemma activation_in_bnd:
  assumes "bnd m f log = (r, log @ new)" "PutInstalled p \<in> set new" "quiet m" "\<And>a. grows (f a)"
  obtains a mid new' where "m log = (Ok a, log @ mid)" "f a (log @ mid) = (r, (log @ mid) @ new')"
    "new = mid @ new'" "PutInstalled p \<in> set new'"
proof -
  obtain r1 mid where m: "m log = (r1, log @ mid)" "\<forall>p. PutInstalled p \<notin> set mid"
    using assms(3) unfolding quiet_def by (metis prod.collapse)
  show thesis
  proof (cases r1)
    case (Inl e)
    then show thesis using m assms(1,2) by (auto simp: bnd_def)
  next
    case (Inr a)
    then have f: "f a (log @ mid) = (r, log @ new)" using m assms(1) by (simp add: bnd_def)
    obtain new' where "snd (f a (log @ mid)) = (log @ mid) @ new'"
      using assms(4) unfolding grows_def by blast
    then have "new = mid @ new'" using f by simp
    then show thesis using that m Inr f assms(2) by auto
  qed
qed

lemma quiet_calls:
  "quiet m \<Longrightarrow> m log = (r, log @ mid) \<Longrightarrow> list_all (\<lambda>call. \<forall>q. call \<noteq> PutInstalled q) mid"
  unfolding quiet_def list_all_iff by (metis same_append_eq snd_conv)

section \<open>What an activation implies\<close>

lemma prepare_steps_Ok:
  "prepare_steps be idx req m log = (Ok a, log @ mid) \<Longrightarrow>
     \<exists>installed r3 r4 r5. mid = [ListInstalled, AppendAudit r3, AppendAudit r4, AppendAudit r5] \<and>
       be_list_installed be log = Ok installed \<and>
       resolve_dependencies m (available_versions idx installed) = Satisfied"
  by (auto simp: prepare_steps_def resolve_step_def audit_install_def Let_def bnd_def perform_def ret_def fail_def
      split: sum.splits resolution_outcome.splits)

lemma register_steps_Ok:
  "register_steps be req m log = (Ok a, log @ mid) \<Longrightarrow>
     \<exists>r6. mid = [RegisterCaps m, AppendAudit r6] \<and> be_register be log m = Ok ()"
  by (auto simp: register_steps_def register_step_def audit_install_def Let_def bnd_def perform_def
      attempt_def ret_def fail_def split: sum.splits)

lemma eval_steps_Ok:
  "eval_steps be req m log = (Ok a, log @ mid) \<Longrightarrow>
     \<exists>r7. mid = [RunEval m, AppendAudit r7] \<and> be_eval be log m = Ok ()"
  by (auto simp: eval_steps_def eval_step_def audit_install_def Let_def bnd_def perform_def
      attempt_def ret_def fail_def split: sum.splits)

lemma activate_step_put:
  assumes "activate_step be req m steps log = (r, log @ new)" "PutInstalled p \<in> set new"
  shows "ip_manifest p = m \<and> ip_installed_version p = irq_version req \<and>
    (\<exists>rest. new = PutInstalled p # rest \<and> list_all (\<lambda>call. \<forall>q. call \<noteq> PutInstalled q) rest)"
  using assms
  by (auto simp: activate_step_def Let_def bnd_def perform_def ret_def audit_install_def
      split: sum.splits prod.splits)

text \<open>The calls of a complete activation, in order, with the answers that let it go on.\<close>

definition activation_trace ::
    "catalog_backend \<Rightarrow> registry_index \<Rightarrow> package_manifest \<Rightarrow> installed_package \<Rightarrow> backend_call list \<Rightarrow>
     backend_call list \<Rightarrow> bool" where
  "activation_trace be idx m p log new \<longleftrightarrow>
     (\<exists>installed pre a b c d. new = pre @ ListInstalled # a @ RegisterCaps m # b @ RunEval m # c @ PutInstalled p # d \<and>
        be_list_installed be (log @ pre) = Ok installed \<and>
        resolve_dependencies m (available_versions idx installed) = Satisfied \<and>
        be_register be (log @ pre @ ListInstalled # a) m = Ok () \<and>
        be_eval be (log @ pre @ ListInstalled # a @ RegisterCaps m # b) m = Ok () \<and>
        list_all (\<lambda>call. \<forall>q. call \<noteq> PutInstalled q) (pre @ a @ b @ c @ d))"

lemma activation_trace_pre:
  assumes "activation_trace be idx m p (log @ mid) new" "list_all (\<lambda>call. \<forall>q. call \<noteq> PutInstalled q) mid"
  shows "activation_trace be idx m p log (mid @ new)"
proof -
  obtain installed pre a b c d where
    "new = pre @ ListInstalled # a @ RegisterCaps m # b @ RunEval m # c @ PutInstalled p # d \<and>
      be_list_installed be ((log @ mid) @ pre) = Ok installed \<and>
      resolve_dependencies m (available_versions idx installed) = Satisfied \<and>
      be_register be ((log @ mid) @ pre @ ListInstalled # a) m = Ok () \<and>
      be_eval be ((log @ mid) @ pre @ ListInstalled # a @ RegisterCaps m # b) m = Ok () \<and>
      list_all (\<lambda>call. \<forall>q. call \<noteq> PutInstalled q) (pre @ a @ b @ c @ d)"
    using assms(1) unfolding activation_trace_def by metis
  then show ?thesis
    unfolding activation_trace_def
    by (intro exI [of _ installed] exI [of _ "mid @ pre"] exI [of _ a] exI [of _ b] exI [of _ c] exI [of _ d])
      (use assms(2) in simp)
qed

lemma activation_trace_post:
  assumes "activation_trace be idx m p log new" "list_all (\<lambda>call. \<forall>q. call \<noteq> PutInstalled q) rest"
  shows "activation_trace be idx m p log (new @ rest)"
proof -
  obtain installed pre a b c d where
    "new = pre @ ListInstalled # a @ RegisterCaps m # b @ RunEval m # c @ PutInstalled p # d \<and>
      be_list_installed be (log @ pre) = Ok installed \<and>
      resolve_dependencies m (available_versions idx installed) = Satisfied \<and>
      be_register be (log @ pre @ ListInstalled # a) m = Ok () \<and>
      be_eval be (log @ pre @ ListInstalled # a @ RegisterCaps m # b) m = Ok () \<and>
      list_all (\<lambda>call. \<forall>q. call \<noteq> PutInstalled q) (pre @ a @ b @ c @ d)"
    using assms(1) unfolding activation_trace_def by metis
  then show ?thesis
    unfolding activation_trace_def
    by (intro exI [of _ installed] exI [of _ pre] exI [of _ a] exI [of _ b] exI [of _ c] exI [of _ "d @ rest"])
      (use assms(2) in simp)
qed

lemma after_gate_put:
  assumes "after_gate be idx req m steps log = (r, log @ new)" "PutInstalled p \<in> set new"
  shows "ip_manifest p = m \<and> ip_installed_version p = irq_version req \<and> activation_trace be idx m p log new"
proof -
  obtain prepared c1 n1 where 1: "prepare_steps be idx req m log = (Ok prepared, log @ c1)"
      "new = c1 @ n1" "PutInstalled p \<in> set n1"
    and k1: "bnd (register_steps be req m) (\<lambda>s6. bnd (eval_steps be req m) (\<lambda>s7.
        activate_step be req m (steps @ prepared @ [s6, s7]))) (log @ c1) = (r, (log @ c1) @ n1)"
    using assms unfolding after_gate_def
    by (rule activation_in_bnd) (intro quiet_stages, intro grows_bnd grows_activate quiet_grows quiet_stages)
  obtain s6 c2 n2 where 2: "register_steps be req m (log @ c1) = (Ok s6, (log @ c1) @ c2)"
      "n1 = c2 @ n2" "PutInstalled p \<in> set n2"
    and k2: "bnd (eval_steps be req m) (\<lambda>s7. activate_step be req m (steps @ prepared @ [s6, s7]))
      ((log @ c1) @ c2) = (r, ((log @ c1) @ c2) @ n2)"
    using k1 1(3) by (rule activation_in_bnd) (intro quiet_stages, intro grows_bnd grows_activate quiet_grows quiet_stages)
  obtain s7 c3 n3 where 3: "eval_steps be req m ((log @ c1) @ c2) = (Ok s7, ((log @ c1) @ c2) @ c3)"
      "n2 = c3 @ n3" "PutInstalled p \<in> set n3"
    and k3: "activate_step be req m (steps @ prepared @ [s6, s7]) (((log @ c1) @ c2) @ c3)
      = (r, (((log @ c1) @ c2) @ c3) @ n3)"
    using k2 2(3) by (rule activation_in_bnd) (intro quiet_stages, intro grows_activate)
  obtain rest where p: "ip_manifest p = m" "ip_installed_version p = irq_version req"
      "n3 = PutInstalled p # rest" "list_all (\<lambda>call. \<forall>q. call \<noteq> PutInstalled q) rest"
    using activate_step_put [OF k3 3(3)] by blast
  obtain installed r3 r4 r5 where c1: "c1 = [ListInstalled, AppendAudit r3, AppendAudit r4, AppendAudit r5]"
      "be_list_installed be log = Ok installed"
      "resolve_dependencies m (available_versions idx installed) = Satisfied"
    using prepare_steps_Ok [OF 1(1)] by blast
  obtain r6 r7 where c2: "c2 = [RegisterCaps m, AppendAudit r6]" "be_register be (log @ c1) m = Ok ()"
    and c3: "c3 = [RunEval m, AppendAudit r7]" "be_eval be ((log @ c1) @ c2) m = Ok ()"
    using register_steps_Ok [OF 2(1)] eval_steps_Ok [OF 3(1)] by blast
  have "activation_trace be idx m p log new"
    unfolding activation_trace_def
    by (intro exI [of _ installed] exI [of _ "[]"] exI [of _ "tl c1"] exI [of _ "tl c2"] exI [of _ "tl c3"]
        exI [of _ rest]) (use 1 2 3 p c1 c2 c3 in simp)
  then show ?thesis using p by simp
qed

lemma check_install_Ok:
  "check_install be c m revoked log = (Ok Allowed, log @ mid) \<Longrightarrow>
     allowlist_check c m (pm_version m) = Permitted"
  by (auto simp: check_install_def bnd_def perform_def ret_def
      split: option.splits allowlist_outcome.splits sum.splits)

lemma build_manifest_id:
  "build_manifest cc e rv = Ok m \<Longrightarrow> pm_id m = re_id e \<and> pm_version m = rv_version rv"
  by (auto simp: build_manifest_def manifest_new_def Let_def split: if_splits)

lemma grows_verdict [grows_intros]: "grows (verdict_step be idx req m s1 verdict)"
proof (cases verdict)
  case Allowed
  then show ?thesis
    unfolding verdict_step_def by simp (intro grows_bnd grows_after_gate quiet_grows quiet_steps)
qed (simp_all add: verdict_step_def quiet_grows quiet_bnd quiet_pure quiet_steps)

lemma verdict_step_put:
  assumes "verdict_step be idx req m s1 verdict log = (r, log @ new)" "PutInstalled p \<in> set new"
  shows "verdict = Allowed \<and> ip_manifest p = m \<and> ip_installed_version p = irq_version req \<and>
    activation_trace be idx m p log new"
proof -
  have "quiet (verdict_step be idx req m s1 verdict)" if "verdict \<noteq> Allowed"
    using that unfolding verdict_step_def by (cases verdict) (auto intro!: quiet_intros)
  then have v: "verdict = Allowed"
    using assms unfolding quiet_def by (metis append_same_eq same_append_eq snd_conv)
  have k: "bnd (audit_install be req EnforceAllowlist (json_object [(''allowed'', JBool True)])) (\<lambda>s2.
      after_gate be idx req m [s1, s2]) log = (r, log @ new)"
    using assms(1) by (simp add: verdict_step_def v)
  obtain s2 c n where 1: "audit_install be req EnforceAllowlist (json_object [(''allowed'', JBool True)]) log
        = (Ok s2, log @ c)" "new = c @ n" "PutInstalled p \<in> set n"
    and k1: "after_gate be idx req m [s1, s2] (log @ c) = (r, (log @ c) @ n)"
    using k assms(2) by (rule activation_in_bnd) (intro quiet_steps, intro grows_after_gate)
  have "list_all (\<lambda>call. \<forall>q. call \<noteq> PutInstalled q) c"
    by (rule quiet_calls [OF quiet_steps(1) 1(1)])
  then show ?thesis
    using after_gate_put [OF k1 1(3)] activation_trace_pre v 1(2) by blast
qed

lemma install_inner_put:
  assumes "install_inner be cc idx checker req log = (r, log @ new)" "PutInstalled p \<in> set new"
  shows "\<exists>e rv m. locate_version idx req = Ok (e, rv) \<and> build_manifest cc e rv = Ok m \<and>
    allowlist_check checker m (pm_version m) = Permitted \<and> ip_manifest p = m \<and>
    ip_installed_version p = irq_version req \<and> activation_trace be idx m p log new"
proof -
  obtain e rv where loc: "locate_version idx req = Ok (e, rv)"
    using assms by (cases "locate_version idx req") (auto simp: install_inner_def bnd_def lift_def)
  let ?build = "case build_manifest cc e rv of Inl f \<Rightarrow> Err (ManifestInvalid f) | Inr m \<Rightarrow> Ok m"
  have k: "bnd (audit_install be req VerifySignatures
        (json_object [(''publisher_pubkey'', JString (rv_publisher_pubkey_hex rv))])) (\<lambda>s1.
      bnd (lift ?build) (\<lambda>m. bnd (check_install be checker m (rv_revoked rv)) (verdict_step be idx req m s1))) log
      = (r, log @ new)"
    using assms(1) loc by (simp add: install_inner_def bnd_def lift_def)
  obtain s1 c1 n1 where 1: "audit_install be req VerifySignatures
        (json_object [(''publisher_pubkey'', JString (rv_publisher_pubkey_hex rv))]) log = (Ok s1, log @ c1)"
      "new = c1 @ n1" "PutInstalled p \<in> set n1"
    and k1: "bnd (lift ?build) (\<lambda>m. bnd (check_install be checker m (rv_revoked rv))
        (verdict_step be idx req m s1)) (log @ c1) = (r, (log @ c1) @ n1)"
    using k assms(2) by (rule activation_in_bnd) (intro quiet_steps, intro grows_bnd grows_verdict quiet_grows quiet_intros)
  then obtain m where m: "build_manifest cc e rv = Ok m"
    by (cases "build_manifest cc e rv") (auto simp: bnd_def lift_def)
  have k2: "bnd (check_install be checker m (rv_revoked rv)) (verdict_step be idx req m s1) (log @ c1)
      = (r, (log @ c1) @ n1)"
    using k1 m by (simp add: bnd_def lift_def)
  obtain verdict c2 n2 where 2: "check_install be checker m (rv_revoked rv) (log @ c1) = (Ok verdict, (log @ c1) @ c2)"
      "n1 = c2 @ n2" "PutInstalled p \<in> set n2"
    and k3: "verdict_step be idx req m s1 verdict ((log @ c1) @ c2) = (r, ((log @ c1) @ c2) @ n2)"
    using k2 1(3) by (rule activation_in_bnd) (intro quiet_steps, intro grows_verdict)
  note put = verdict_step_put [OF k3 2(3)]
  have "list_all (\<lambda>call. \<forall>q. call \<noteq> PutInstalled q) (c1 @ c2)"
    using quiet_calls [OF quiet_steps(1) 1(1)] quiet_calls [OF quiet_steps(2) 2(1)] by simp
  then have "activation_trace be idx m p log new"
    using put activation_trace_pre [of be idx m p log "c1 @ c2" n2] 1(2) 2(2) by simp
  then show ?thesis
    using loc m put 2(1) check_install_Ok by blast
qed

lemma locate_version_Ok:
  "locate_version idx req = Ok (e, rv) \<longleftrightarrow>
     index_get idx (irq_package_id req) = Some e \<and> find_version e (irq_version req) = Some rv \<and> rv_revoked rv = None"
  by (auto simp: locate_version_def split: option.splits)

lemma grows_install_inner: "grows (install_inner be cc idx checker req)"
  unfolding install_inner_def case_prod_beta
  by (intro grows_bnd grows_verdict quiet_grows quiet_pure quiet_steps)

text \<open>The ways an install can go: replayed, unauthorized, pending, or run and recorded.\<close>

lemma install_cases:
  assumes "install be cc idx checker scopes req log = (r, log')"
  obtains (unread) msg where "be_get_outcome be log (irq_idempotency_key req) = Err msg"
      "log' = log @ [GetOutcome (irq_idempotency_key req)]" "r = Err (BackendError msg)"
  | (replayed) o1 where "be_get_outcome be log (irq_idempotency_key req) = Ok (Some o1)"
      "log' = log @ [GetOutcome (irq_idempotency_key req)]" "r = Ok o1"
  | (unauthorized) "be_get_outcome be log (irq_idempotency_key req) = Ok None"
      "\<not> scope_grants scopes ''catalog'' ''install''"
      "log' = log @ [GetOutcome (irq_idempotency_key req)]" "r = Err (ScopeRequired ''catalog:install'')"
  | (pending) i v ob inner where "be_get_outcome be log (irq_idempotency_key req) = Ok None"
      "scope_grants scopes ''catalog'' ''install''"
      "install_inner be cc idx checker req (log @ [GetOutcome (irq_idempotency_key req)]) =
        (Ok (PendingApproval i v ob), (log @ [GetOutcome (irq_idempotency_key req)]) @ inner)"
      "log' = (log @ [GetOutcome (irq_idempotency_key req)]) @ inner" "r = Ok (PendingApproval i v ob)"
  | (settled) r1 inner outcome where "be_get_outcome be log (irq_idempotency_key req) = Ok None"
      "scope_grants scopes ''catalog'' ''install''"
      "install_inner be cc idx checker req (log @ [GetOutcome (irq_idempotency_key req)]) =
        (r1, (log @ [GetOutcome (irq_idempotency_key req)]) @ inner)"
      "outcome = (case r1 of Inr o1 \<Rightarrow> o1
         | Inl e \<Rightarrow> FailedInstall (irq_package_id req) (irq_version req) VerifySignatures e)"
      "log' = (log @ [GetOutcome (irq_idempotency_key req)]) @ inner @ [RecordOutcome (irq_idempotency_key req) outcome]"
      "r = (case be_record_outcome be ((log @ [GetOutcome (irq_idempotency_key req)]) @ inner)
              (irq_idempotency_key req) outcome of Inl e \<Rightarrow> Err (BackendError e) | Inr _ \<Rightarrow> Ok outcome)"
      "\<nexists>i v ob. outcome = PendingApproval i v ob"
proof -
  let ?log1 = "log @ [GetOutcome (irq_idempotency_key req)]"
  consider (e) msg where "be_get_outcome be log (irq_idempotency_key req) = Err msg"
    | (s) o1 where "be_get_outcome be log (irq_idempotency_key req) = Ok (Some o1)"
    | (n) "be_get_outcome be log (irq_idempotency_key req) = Ok None"
    by (metis sum.exhaust not_Some_eq)
  then show thesis
  proof cases
    case n
    show thesis
    proof (cases "scope_grants scopes ''catalog'' ''install''")
      case False
      then show thesis using n assms unauthorized by (simp add: install_def bnd_def perform_def fail_def)
    next
      case True
      obtain r1 inner where inner: "install_inner be cc idx checker req ?log1 = (r1, ?log1 @ inner)"
        using grows_install_inner unfolding grows_def by (metis prod.collapse)
      have k: "settle_outcome be req (install_inner be cc idx checker req) ?log1 = (r, log')"
        using n True assms by (simp add: install_def bnd_def perform_def)
      show thesis
      proof (cases "\<exists>i v ob. r1 = Ok (PendingApproval i v ob)")
        case True
        then show thesis using k inner n \<open>scope_grants _ _ _\<close> pending by (auto simp: settle_outcome_def)
      next
        case False
        then show thesis
          using k inner n \<open>scope_grants _ _ _\<close> settled [OF n _ inner refl]
          by (auto simp: settle_outcome_def bnd_def perform_def ret_def Let_def
              split: sum.splits install_outcome.splits)
      qed
    qed
  qed (use assms unread replayed in \<open>auto simp: install_def bnd_def perform_def ret_def\<close>)
qed

lemma gated_inner:
  assumes "install_inner be cc idx checker req (log @ [g]) = (r1, (log @ [g]) @ inner)"
    "PutInstalled p \<in> set inner" "list_all (\<lambda>call. \<forall>q. call \<noteq> PutInstalled q) (g # rest)"
  shows "\<exists>e rv m. index_get idx (irq_package_id req) = Some e \<and> find_version e (irq_version req) = Some rv \<and>
       rv_revoked rv = None \<and> build_manifest cc e rv = Ok m \<and>
       allowlist_check checker m (pm_version m) = Permitted \<and>
       ip_manifest p = m \<and> ip_installed_version p = irq_version req \<and>
       activation_trace be idx m p log ([g] @ inner @ rest)"
proof -
  obtain e rv m where put: "locate_version idx req = Ok (e, rv)" "build_manifest cc e rv = Ok m"
      "allowlist_check checker m (pm_version m) = Permitted" "ip_manifest p = m"
      "ip_installed_version p = irq_version req" "activation_trace be idx m p (log @ [g]) inner"
    using install_inner_put [OF assms(1,2)] by blast
  have "activation_trace be idx m p log ([g] @ inner @ rest)"
    by (rule activation_trace_pre, rule activation_trace_post) (use put(6) assms(3) in simp_all)
  then show ?thesis using put by (auto simp: locate_version_Ok)
qed

text \<open>
  C12: activation is gated.  Whatever the backend answers, a package is put in place only
  for a caller with the install scope, for a version that the index lists and does not
  revoke, whose manifest validates and passes the allowlist, whose dependencies resolve
  against what is installed and indexed, and after its capabilities were registered and its
  evaluation suite passed, in this order.
\<close>

theorem activation_is_gated:
  assumes "install be cc idx checker scopes req log = (r, log @ new)" "PutInstalled p \<in> set new"
  shows "scope_grants scopes ''catalog'' ''install'' \<and>
    (\<exists>e rv m. index_get idx (irq_package_id req) = Some e \<and> find_version e (irq_version req) = Some rv \<and>
       rv_revoked rv = None \<and> build_manifest cc e rv = Ok m \<and>
       allowlist_check checker m (pm_version m) = Permitted \<and>
       ip_manifest p = m \<and> ip_installed_version p = irq_version req \<and>
       activation_trace be idx m p log new)"
  using assms(1)
proof (cases rule: install_cases)
  case (settled r1 inner outcome)
  have new: "new = [GetOutcome (irq_idempotency_key req)] @ inner @ [RecordOutcome (irq_idempotency_key req) outcome]"
    using settled(5) by simp
  show ?thesis
    unfolding new by (intro conjI settled(2) gated_inner [OF settled(3)]) (use assms(2) new in simp_all)
next
  case (pending i v ob inner)
  have new: "new = [GetOutcome (irq_idempotency_key req)] @ inner @ []"
    using pending(4) by simp
  show ?thesis
    unfolding new by (intro conjI pending(2) gated_inner [OF pending(3)]) (use assms(2) new in simp_all)
qed (use assms(2) in auto)

text \<open>The outcome last recorded under a key.\<close>

fun last_recorded :: "string \<Rightarrow> backend_call list \<Rightarrow> install_outcome option" where
  "last_recorded key [] = None"
| "last_recorded key (c # cs) =
     (case last_recorded key cs of
        Some o1 \<Rightarrow> Some o1
      | None \<Rightarrow> (case c of RecordOutcome k o1 \<Rightarrow> if k = key then Some o1 else None | _ \<Rightarrow> None))"

text \<open>A small catalog to evaluate the installer on.\<close>

definition demo_crypto :: catalog_crypto where
  "demo_crypto = \<lparr> cc_sha256_hex = (\<lambda>s. ''h''), cc_to_vec = (\<lambda>v. ''v''), cc_key_ok = (\<lambda>k. True),
                   cc_verify = (\<lambda>k m s. True) \<rparr>"

definition demo_release :: registry_version where
  "demo_release =
     \<lparr> rv_version = version_new 1 0 0, rv_content_hash = replicate 64 CHR ''a'', rv_publisher_pubkey_hex = ''aa'',
       rv_dependencies = [], rv_capabilities = capability_decl_default, rv_revoked = None,
       rv_eval_evidence_url = None \<rparr>"

definition demo_entry :: registry_entry where
  "demo_entry = \<lparr> re_id = ''fs'', re_name = ''Files'', re_kind = ToolPack, re_publisher = ''acme'',
                  re_versions = [demo_release], re_docs_url = None, re_origin = PublicOrigin \<rparr>"

definition demo_index :: registry_index where
  "demo_index = registry_index_new 1 ''2026'' [demo_entry]"

definition demo_checker :: allowlist_checker where
  "demo_checker = checker_new \<lparr> op_mode = Open, op_entries = [] \<rparr>"

definition demo_backend :: catalog_backend where
  "demo_backend =
     \<lparr> be_get_outcome = (\<lambda>log key. Ok (last_recorded key log)), be_record_outcome = (\<lambda>log key o1. Ok ()),
       be_append = (\<lambda>log r. Ok ()), be_create_obligation = (\<lambda>log ob. Ok ''ob-0''),
       be_list_installed = (\<lambda>log. Ok []), be_register = (\<lambda>log m. Ok ()), be_unregister = (\<lambda>log i. Ok ()),
       be_eval = (\<lambda>log m. Ok ()), be_put_installed = (\<lambda>log p. Ok ()) \<rparr>"

definition demo_request :: install_request where
  "demo_request = \<lparr> irq_package_id = ''fs'', irq_version = version_new 1 0 0, irq_idempotency_key = ''k1'',
                    irq_actor = ''iris'' \<rparr>"

definition demo_install :: "string list \<Rightarrow> install_outcome action" where
  "demo_install scopes = install demo_backend demo_crypto demo_index demo_checker scopes demo_request"

definition demo_package :: installed_package where
  "demo_package =
     \<lparr> ip_manifest = (case build_manifest demo_crypto demo_entry demo_release of Inr m \<Rightarrow> m),
       ip_installed_version = version_new 1 0 0, ip_config = json_object [], ip_state_version = version_new 1 0 0 \<rparr>"

theorem activation_is_gated_witness:
  "PutInstalled demo_package \<in> set (snd (demo_install [''catalog:*''] [])) \<and>
   scope_grants [''catalog:*''] ''catalog'' ''install'' \<and>
   (\<exists>e rv m. index_get demo_index ''fs'' = Some e \<and> find_version e (version_new 1 0 0) = Some rv \<and>
      rv_revoked rv = None \<and> build_manifest demo_crypto e rv = Ok m \<and>
      allowlist_check demo_checker m (pm_version m) = Permitted \<and>
      ip_manifest demo_package = m \<and> ip_installed_version demo_package = version_new 1 0 0 \<and>
      activation_trace demo_backend demo_index m demo_package [] (snd (demo_install [''catalog:*''] [])))"
proof -
  have put: "PutInstalled demo_package \<in> set (snd (demo_install [''catalog:*''] []))" by code_simp
  have run: "install demo_backend demo_crypto demo_index demo_checker [''catalog:*''] demo_request [] =
      (fst (demo_install [''catalog:*''] []), [] @ snd (demo_install [''catalog:*''] []))"
    by (simp add: demo_install_def)
  have req: "irq_package_id demo_request = ''fs''" "irq_version demo_request = version_new 1 0 0"
    by (simp_all add: demo_request_def)
  show ?thesis using put activation_is_gated [OF run put] unfolding req by blast
qed

section \<open>Retries\<close>

text \<open>
  A store that remembers: the outcome looked up under a key is the last one recorded there.
\<close>

definition remembers :: "catalog_backend \<Rightarrow> bool" where
  "remembers be \<longleftrightarrow> (\<forall>log key. be_get_outcome be log key = Ok (last_recorded key log))"

lemma last_recorded_append:
  "last_recorded key (xs @ ys) =
     (case last_recorded key ys of Some o1 \<Rightarrow> Some o1 | None \<Rightarrow> last_recorded key xs)"
  by (induction xs) (auto split: option.splits)

text \<open>
  C16: a retried install is replayed.  Over a store that remembers what was recorded, once a
  request returned a final outcome, any later request with the same key returns that outcome
  after a single lookup, whoever sends it and whatever it asks for.
\<close>

theorem retry_replays_outcome:
  assumes "remembers be" "install be cc idx checker scopes req log = (Ok outcome, log')"
    "\<nexists>i v ob. outcome = PendingApproval i v ob" "irq_idempotency_key req' = irq_idempotency_key req"
  shows "install be cc idx checker scopes' req' log' = (Ok outcome, log' @ [GetOutcome (irq_idempotency_key req)])"
proof -
  have "last_recorded (irq_idempotency_key req) log' = Some outcome"
    using assms(2)
  proof (cases rule: install_cases)
    case (replayed o1)
    then show ?thesis using assms(1) by (simp add: remembers_def last_recorded_append)
  next
    case (settled r1 inner o1)
    then have "outcome = o1" by (auto split: sum.splits)
    then show ?thesis using settled(5) by (simp add: last_recorded_append)
  qed (use assms(3) in auto)
  then show ?thesis
    using assms(1,4) by (simp add: install_def bnd_def perform_def ret_def remembers_def)
qed

theorem retry_replays_outcome_witness:
  "remembers demo_backend \<and>
   (\<exists>outcome. fst (demo_install [''catalog:*''] []) = Ok outcome \<and> (\<nexists>i v ob. outcome = PendingApproval i v ob) \<and>
      install demo_backend demo_crypto demo_index demo_checker [] demo_request (snd (demo_install [''catalog:*''] [])) =
        (Ok outcome, snd (demo_install [''catalog:*''] []) @ [GetOutcome ''k1'']))"
proof -
  have r: "remembers demo_backend" by (simp add: remembers_def demo_backend_def)
  obtain steps where run: "fst (demo_install [''catalog:*''] []) = Ok (Installed ''fs'' (version_new 1 0 0) steps)"
  proof -
    have "case fst (demo_install [''catalog:*''] []) of Inr (Installed i v s) \<Rightarrow> i = ''fs'' \<and> v = version_new 1 0 0 | _ \<Rightarrow> False"
      by code_simp
    then show thesis using that by (auto split: sum.splits install_outcome.splits)
  qed
  then have "install demo_backend demo_crypto demo_index demo_checker [''catalog:*''] demo_request [] =
      (Ok (Installed ''fs'' (version_new 1 0 0) steps), snd (demo_install [''catalog:*''] []))"
    by (simp add: demo_install_def prod_eq_iff)
  from retry_replays_outcome [OF r this, of demo_request "[]"] show ?thesis
    using r run by (simp add: demo_request_def)
qed

section \<open>What the installer does not do\<close>

text \<open>
  No step checks a signature: the outcome and the calls of an install are the same for every
  verification function.
\<close>

lemma install_ignores_signatures:
  "install be (cc\<lparr> cc_verify := f, cc_key_ok := g \<rparr>) idx checker scopes req = install be cc idx checker scopes req"
proof -
  have "build_manifest (cc\<lparr> cc_verify := f, cc_key_ok := g \<rparr>) e rv = build_manifest cc e rv" for e rv
    by (simp add: build_manifest_def manifest_new_def compute_hash_def)
  then have "install_inner be (cc\<lparr> cc_verify := f, cc_key_ok := g \<rparr>) idx checker req = install_inner be cc idx checker req"
    unfolding install_inner_def by (simp only:)
  then show ?thesis by (simp only: install_def)
qed

text \<open>
  When the audit ledger fails after the capabilities were registered, the install is recorded
  as failed with the capabilities still in place.
\<close>

definition broken_ledger :: catalog_backend where
  "broken_ledger = demo_backend\<lparr> be_append := (\<lambda>log r.
     if car_step r = Some RegisterCapabilities then Err ''ledger down'' else Ok ()) \<rparr>"

lemma failed_install_keeps_capabilities:
  "let (r, log) = install broken_ledger demo_crypto demo_index demo_checker [''catalog:install''] demo_request [] in
     r = Ok (FailedInstall ''fs'' (version_new 1 0 0) VerifySignatures (BackendError ''ledger down'')) \<and>
     RegisterCaps (ip_manifest demo_package) \<in> set log \<and> UnregisterCaps ''fs'' \<notin> set log"
  by code_simp

text \<open>
  A rollback consults neither the revocations of the index nor the allowlist, and it
  registers no capabilities for the version it restores.
\<close>

definition revoked_index :: registry_index where
  "revoked_index = registry_index_new 1 ''2026'' [demo_entry\<lparr> re_versions := [demo_release\<lparr> rv_revoked := Some ''cve'' \<rparr>] \<rparr>]"

definition installed_backend :: catalog_backend where
  "installed_backend = demo_backend\<lparr> be_list_installed := (\<lambda>log.
     Ok [demo_package\<lparr> ip_installed_version := version_new 2 0 0 \<rparr>]) \<rparr>"

lemma rollback_restores_revoked:
  "let (r, log) = rollback installed_backend demo_crypto revoked_index [''catalog:install'']
        \<lparr> rq_package_id = ''fs'', rq_target_version = version_new 1 0 0, rq_idempotency_key = ''k2'', rq_actor = ''iris'' \<rparr> [] in
     r = Ok (RolledBack ''fs'' (version_new 2 0 0) (version_new 1 0 0)) \<and>
     UnregisterCaps ''fs'' \<in> set log \<and> list_all (\<lambda>c. case c of RegisterCaps m \<Rightarrow> False | _ \<Rightarrow> True) log"
  by code_simp

section \<open>The doctor's chain\<close>

lemma chain_steps_path: "map cs_to (chain_steps block prev path) = path"
  by (induction block prev path rule: chain_steps.induct) auto

lemma chain_steps_linked:
  "i < length path \<Longrightarrow> cs_from (chain_steps block prev path ! i) = (if i = 0 then prev else path ! (i - 1))"
proof (induction block prev path arbitrary: i rule: chain_steps.induct)
  case (2 block prev v vs)
  then show ?case by (cases i) (auto simp: nth_Cons split: nat.split)
qed simp

lemma sorted_remdups_adj_key: "sorted (map f xs) \<Longrightarrow> sorted (map f (remdups_adj xs))"
  by (induction xs rule: remdups_adj.induct) auto

lemma sorted_declared: "sorted (map version_key (declared_versions block))"
  unfolding declared_versions_def by (intro sorted_remdups_adj_key sorted_sort_key)

text \<open>
  A computed chain leads from the installed version to the target through linked steps of
  nondecreasing precedence, and passes through every declared version in between.
\<close>

lemma doctor_chain_connects:
  assumes "doctor_chain from_version target block = Ok steps" "from_version \<noteq> target"
  shows "steps \<noteq> [] \<and> cs_from (hd steps) = from_version \<and> cs_to (last steps) = target \<and>
    (\<forall>i < length steps - 1. cs_to (steps ! i) = cs_from (steps ! Suc i)) \<and>
    sorted (map (version_key \<circ> cs_to) steps) \<and>
    (\<forall>m \<in> set (db_state_migrations block). version_lt from_version (sm_version m) \<and>
       version_le (sm_version m) target \<longrightarrow> (\<exists>st \<in> set steps. m \<in> set (cs_migrations st)))"
proof -
  define path where "path = filter (\<lambda>v. version_lt from_version v \<and> version_le v target) (declared_versions block)"
  have path: "path \<noteq> []" "last path = target" and steps: "steps = chain_steps block from_version path"
    using assms by (auto simp: doctor_chain_def path_def Let_def split: if_splits)
  have to: "map cs_to steps = path" by (simp add: steps chain_steps_path)
  then have len: "length steps = length path" by (metis length_map)
  have linked: "cs_from (steps ! i) = (if i = 0 then from_version else path ! (i - 1))" if "i < length path" for i
    using chain_steps_linked [OF that] by (simp add: steps)
  have nonempty: "steps \<noteq> []" using path(1) len by auto
  have "cs_to (steps ! i) = cs_from (steps ! Suc i)" if "i < length steps - 1" for i
    using linked [of "Suc i"] that len to by (metis diff_Suc_1 less_diff_conv nat.distinct(1) nth_map
        add.commute plus_1_eq_Suc Suc_lessD)
  moreover have "sorted (map (version_key \<circ> cs_to) steps)"
    using sorted_declared [of block] to unfolding path_def
    by (metis map_map sorted_filter)
  moreover have "\<exists>st \<in> set steps. m \<in> set (cs_migrations st)"
    if "m \<in> set (db_state_migrations block)" "version_lt from_version (sm_version m)" "version_le (sm_version m) target" for m
  proof -
    have "sm_version m \<in> set path" using that by (auto simp: path_def declared_versions_def)
    then have "\<exists>st \<in> set (chain_steps block prev path). m \<in> set (cs_migrations st)" for prev
      using that(1) by (induction block prev path rule: chain_steps.induct) auto
    then show ?thesis by (simp add: steps)
  qed
  moreover have "cs_from (hd steps) = from_version"
    using linked [of 0] path(1) nonempty by (simp add: hd_conv_nth)
  moreover have "cs_to (last steps) = target"
    using to path(2) nonempty by (metis last_map)
  ultimately show ?thesis using nonempty by blast
qed

text \<open>
  Deduplication compares versions by equality after sorting by precedence: a build label
  declared between two equal versions makes the chain run the same step twice.
\<close>

lemma doctor_chain_repeats_step:
  "let mig = (\<lambda>b n. \<lparr> sm_version = with_build b (version_new 1 0 0), sm_order = n, sm_description = [] \<rparr>);
       block = \<lparr> db_config_repairs = [], db_state_migrations = [mig ''a'' 0, mig ''b'' 1, mig ''a'' 2] \<rparr> in
   doctor_validate block = Ok () \<and>
   map_sum id (map cs_to) (doctor_chain (version_new 0 9 0) (with_build ''a'' (version_new 1 0 0)) block) =
     Ok [with_build ''a'' (version_new 1 0 0), with_build ''b'' (version_new 1 0 0), with_build ''a'' (version_new 1 0 0)]"
  by code_simp

end
