(* ===== verification/Exact_Replay.thy ===== *)
theory Exact_Replay
  imports Tool_Dispatch Run_Config
begin

text \<open>
  The replay engine (rusty-core replay.rs): the wrappers that journal model and tool calls, the
  source that serves a recorded journal back in sequence, the wrappers that answer from it, the
  checks at both ends of a replay, the diff of two journals and the recorded world of a shadow
  run; with the approval gate of tool/approval.rs, whose evidence a recorded call can contain.

  Printing and reading of JSON text and the derived deserializers are serde's: the record
  \<open>chat_codec\<close> carries them as functions.  The journal of a run is threaded through its calls,
  with the shared cursor of the source beside it.  What a live call answers is an argument of
  the recording wrapper; the replaying wrapper has no such argument.
\<close>

section \<open>Requests and responses\<close>

abbreviation KRemoteCall :: run_event_kind where "KRemoteCall \<equiv> KOther ''remote_call''"
abbreviation KWasmCall :: run_event_kind where "KWasmCall \<equiv> KOther ''wasm_call''"
abbreviation KApprovalAsked :: run_event_kind where "KApprovalAsked \<equiv> KOther ''approval_asked''"
abbreviation KApprovalDecided :: run_event_kind where "KApprovalDecided \<equiv> KOther ''approval_decided''"
abbreviation KAssistantChunk :: run_event_kind where "KAssistantChunk \<equiv> KOther ''assistant_chunk''"

definition SERVABLE_KINDS :: "run_event_kind list" where
  "SERVABLE_KINDS = [KModelCall, KToolCall, KRemoteCall, KWasmCall]"

definition NESTED_EVIDENCE_KINDS :: "run_event_kind list" where
  "NESTED_EVIDENCE_KINDS = [KApprovalAsked, KApprovalDecided]"

definition is_servable :: "run_event_kind \<Rightarrow> bool" where
  "is_servable kind \<longleftrightarrow> List.member SERVABLE_KINDS kind"

definition is_nested :: "run_event_kind \<Rightarrow> bool" where
  "is_nested kind \<longleftrightarrow> List.member NESTED_EVIDENCE_KINDS kind"

text \<open>How an error message names a kind.\<close>

primrec kind_label :: "run_event_kind \<Rightarrow> string" where
  "kind_label KSuperStepStart = ''super_step_start''"
| "kind_label KSuperStepEnd = ''super_step_end''"
| "kind_label KNodeInput = ''node_input''"
| "kind_label KNodeOutput = ''node_output''"
| "kind_label KModelCall = ''model_call''"
| "kind_label KToolCall = ''tool_call''"
| "kind_label KInterrupt = ''interrupt''"
| "kind_label KResume = ''resume''"
| "kind_label KRoutingDecision = ''routing_decision''"
| "kind_label KCheckpointWritten = ''checkpoint_written''"
| "kind_label KEffectReceipt = ''effect_receipt''"
| "kind_label KInboxIntake = ''inbox_intake''"
| "kind_label KInboxConsumed = ''inbox_consumed''"
| "kind_label KRunCancelled = ''run_cancelled''"
| "kind_label KRunConfigDeclared = ''run_config_declared''"
| "kind_label KPolicyDecision = ''policy_decision''"
| "kind_label (KOther s) = s"

record chat_codec =
  cc_print :: "json \<Rightarrow> string"
  cc_message :: "json \<Rightarrow> chat_message option"
  cc_usage :: "json \<Rightarrow> usage option"

primrec role_value :: "role \<Rightarrow> json" where
  "role_value SystemRole = JString ''system''"
| "role_value UserRole = JString ''user''"
| "role_value AssistantRole = JString ''assistant''"
| "role_value ToolRole = JString ''tool''"

definition tool_call_value :: "chat_codec \<Rightarrow> tool_call \<Rightarrow> json" where
  "tool_call_value cc call = JObject (bt_of_list
     [(''id'', JString (tc_id call)), (''type'', JString ''function''),
      (''function'', JObject (bt_of_list
         [(''name'', JString (tc_name call)), (''arguments'', JString (cc_print cc (tc_arguments call)))]))])"

definition message_value :: "chat_codec \<Rightarrow> chat_message \<Rightarrow> json" where
  "message_value cc m = JObject (bt_of_list ([(''role'', role_value (cm_role m))] @
     opt_entry ''content'' (map_option JString (cm_content m)) @
     (if cm_tool_calls m = [] then [] else [(''tool_calls'', JArray (map (tool_call_value cc) (cm_tool_calls m)))]) @
     opt_entry ''tool_call_id'' (map_option JString (cm_tool_call_id m)) @
     opt_entry ''name'' (map_option JString (cm_name m))))"

definition usage_value :: "usage \<Rightarrow> json" where
  "usage_value u = JObject (bt_of_list ([(''prompt_tokens'', json_nat (prompt_tokens u)),
     (''completion_tokens'', json_nat (completion_tokens u)), (''total_tokens'', json_nat (total_tokens u))] @
     opt_entry ''cached_tokens'' (map_option json_nat (cached_tokens u)) @
     opt_entry ''reasoning_tokens'' (map_option json_nat (reasoning_tokens u))))"

definition or_null :: "json option \<Rightarrow> json" where
  "or_null v = (case v of None \<Rightarrow> JNull | Some x \<Rightarrow> x)"

text \<open>The call parameters an agent sets are the task-local \<open>current_call_params\<close>.\<close>

definition model_call_request :: "chat_codec \<Rightarrow> json option \<Rightarrow> chat_message list \<Rightarrow> json list \<Rightarrow> json" where
  "model_call_request cc params messages tools = JObject (bt_of_list (
     [(''messages'', JArray (map (message_value cc) messages)), (''tools'', JArray tools)] @
     opt_entry ''params'' params))"

definition model_call_response :: "chat_codec \<Rightarrow> chat_response \<Rightarrow> json" where
  "model_call_response cc r = JObject (bt_of_list
     [(''message'', message_value cc (rs_message r)), (''model'', or_null (map_option JString (rs_model r))),
      (''usage'', or_null (map_option usage_value (rs_usage r)))])"

definition recorded_key :: "nat \<Rightarrow> json \<Rightarrow> string \<Rightarrow> rusty_error + json" where
  "recorded_key n v k =
     (case json_get v k of None \<Rightarrow> Err (Replay (RecordedKeyMissing n k)) | Some x \<Rightarrow> Ok x)"

definition decoded :: "'a option \<Rightarrow> rusty_error + 'a" where
  "decoded v = (case v of None \<Rightarrow> Err (Serialization NotDecodable) | Some x \<Rightarrow> Ok x)"

definition nullable :: "(json \<Rightarrow> 'a option) \<Rightarrow> json \<Rightarrow> 'a option option" where
  "nullable f v = (if v = JNull then Some None else map_option Some (f v))"

definition chat_response_from_recorded :: "chat_codec \<Rightarrow> nat \<Rightarrow> json \<Rightarrow> rusty_error + chat_response" where
  "chat_response_from_recorded cc n v =
     rbind (recorded_key n v ''message'') (\<lambda>m. rbind (decoded (cc_message cc m)) (\<lambda>message.
     rbind (recorded_key n v ''model'') (\<lambda>m. rbind (decoded (nullable as_str m)) (\<lambda>model.
     rbind (recorded_key n v ''usage'') (\<lambda>u. rbind (decoded (nullable (cc_usage cc) u)) (\<lambda>usage.
       Ok \<lparr> rs_message = message, rs_model = model, rs_usage = usage \<rparr>))))))"

definition resolve_ref :: "(string \<times> json) list \<Rightarrow> payload_ref \<Rightarrow> json option" where
  "resolve_ref artifacts payload =
     (case payload of
        Inline v \<Rightarrow> Some v
      | Artifact reference \<Rightarrow> map_of artifacts (ref_sha256 reference))"

definition resolve_opt :: "(string \<times> json) list \<Rightarrow> payload_ref option \<Rightarrow> json option" where
  "resolve_opt artifacts payload = Option.bind payload (resolve_ref artifacts)"

definition request_hash :: "codec \<Rightarrow> json \<Rightarrow> rusty_error + string" where
  "request_hash cd request =
     (case ser_value cd request of
        None \<Rightarrow> Err (Serialization NotSerializable)
      | Some bytes \<Rightarrow> Ok (sha256_hex cd bytes))"

section \<open>Served effects\<close>

datatype served_effect = ServedEffect
  (se_event: run_event) (se_input: "json option") (se_output: "json option") (se_nested: "served_effect list")

definition recorded_error_text :: "served_effect \<Rightarrow> string" where
  "recorded_error_text s =
     (case Option.bind (Option.bind (se_output s) (\<lambda>v. json_get v ''error'')) as_str of
        Some text \<Rightarrow> text
      | None \<Rightarrow> ''<no recorded error payload>'')"

definition recorded_draft :: "served_effect \<Rightarrow> event_draft" where
  "recorded_draft s = (let e = se_event s in
     (draft_new (ev_kind e) (ev_effect e)) \<lparr> d_status := ev_status e, d_node := ev_node_id e,
       d_input := se_input s, d_output := se_output s, d_latency_ms := ev_latency_ms e,
       d_tokens := ev_tokens e, d_cost_usd := ev_cost_usd e \<rparr>)"

definition rejournal :: "codec \<Rightarrow> served_effect \<Rightarrow> string \<Rightarrow> journal \<Rightarrow> string \<times> journal" where
  "rejournal cd s parent j = record_event cd ((recorded_draft s) \<lparr> d_parent := Some parent \<rparr>) j"

definition rejournal_recorded :: "codec \<Rightarrow> served_effect \<Rightarrow> journal \<Rightarrow> string \<times> journal" where
  "rejournal_recorded cd s j = record_event cd ((recorded_draft s) \<lparr> d_parent := ev_parent (se_event s) \<rparr>) j"

record replay_source =
  sc_servable :: "run_event list"
  sc_nested :: "run_event list list"
  sc_stray :: "nat list"
  sc_artifacts :: "(string \<times> json) list"
  sc_cursor :: nat

text \<open>
  The walk of \<open>ReplaySource::new\<close>: gate evidence waits for the servable event it nests in, and
  any other event declares the waiting evidence stray.
\<close>

fun index_events :: "run_event list \<Rightarrow> run_event list \<Rightarrow> run_event list \<times> run_event list list \<times> nat list" where
  "index_events [] pending = ([], [], map ev_seq pending)"
| "index_events (e # es) pending =
     (if is_servable (ev_kind e) then
        (case index_events es [] of (servable, inner, stray) \<Rightarrow> (e # servable, pending # inner, stray))
      else if is_nested (ev_kind e) then index_events es (pending @ [e])
      else
        (case index_events es [] of (servable, inner, stray) \<Rightarrow> (servable, inner, map ev_seq pending @ stray)))"

definition source_new :: "journal_snapshot \<Rightarrow> replay_source" where
  "source_new snap = (case index_events (js_events snap) [] of (servable, inner, stray) \<Rightarrow>
     \<lparr> sc_servable = servable, sc_nested = inner, sc_stray = stray, sc_artifacts = js_artifacts snap,
       sc_cursor = 0 \<rparr>)"

definition serve_nested :: "(string \<times> json) list \<Rightarrow> run_event \<Rightarrow> served_effect" where
  "serve_nested artifacts e =
     ServedEffect e (resolve_opt artifacts (ev_input e)) (resolve_opt artifacts (ev_output e)) []"

definition serve :: "codec \<Rightarrow> run_event_kind \<Rightarrow> json \<Rightarrow> replay_source \<Rightarrow> (rusty_error + served_effect) \<times> replay_source" where
  "serve cd kind request src =
     (if \<not> is_servable kind then (Err (Replay (NotServable (kind_label kind))), src)
      else case request_hash cd request of
        Inl e \<Rightarrow> (Err e, src)
      | Inr issued \<Rightarrow>
          if length (sc_servable src) \<le> sc_cursor src
          then (Err (Replay (ReplayExhausted (kind_label kind) issued)), src)
          else (let event = sc_servable src ! sc_cursor src in
            if ev_kind event \<noteq> kind
            then (Err (Replay (OrderViolation (ev_seq event) (kind_label kind) (kind_label (ev_kind event)))), src)
            else case resolve_opt (sc_artifacts src) (ev_input event) of
              None \<Rightarrow> (Err (Replay (NoRecordedInput (kind_label (ev_kind event)) (ev_seq event))), src)
            | Some input \<Rightarrow>
                (case request_hash cd input of
                   Inl e \<Rightarrow> (Err e, src)
                 | Inr recorded \<Rightarrow>
                     if recorded \<noteq> issued
                     then (Err (Replay (ReplayDivergence (ev_seq event) (kind_label (ev_kind event)) issued recorded)), src)
                     else (Ok (ServedEffect event (Some input) (resolve_opt (sc_artifacts src) (ev_output event))
                             (map (serve_nested (sc_artifacts src)) (sc_nested src ! sc_cursor src))),
                           src \<lparr> sc_cursor := Suc (sc_cursor src) \<rparr>))))"

definition is_exhausted :: "replay_source \<Rightarrow> bool" where
  "is_exhausted src \<longleftrightarrow> sc_cursor src = length (sc_servable src)"

definition remaining :: "replay_source \<Rightarrow> (nat \<times> run_event_kind) list" where
  "remaining src = map (\<lambda>e. (ev_seq e, ev_kind e)) (drop (sc_cursor src) (sc_servable src))"

section \<open>The approval gate\<close>

text \<open>
  A gate journals what was asked and, parented to it, what was decided; the request and the
  outcome are the JSON values they serialize to.
\<close>

record gate_ask =
  ga_parent :: "string option"
  ga_request :: json
  ga_outcome :: json

definition gate_decide :: "codec \<Rightarrow> gate_ask \<Rightarrow> journal \<Rightarrow> journal" where
  "gate_decide cd ask j =
     (let (asked_id, j1) = record_event cd ((draft_new KApprovalAsked Pure)
            \<lparr> d_input := Some (ga_request ask), d_parent := ga_parent ask \<rparr>) j
      in snd (record_event cd ((draft_new KApprovalDecided Pure)
            \<lparr> d_output := Some (ga_outcome ask), d_parent := Some asked_id \<rparr>) j1))"

section \<open>Recording wrappers\<close>

text \<open>
  A handle is a wrapper as a node invocation constructs it.  The answer of the wrapped model or
  tool and the readings of a system clock before and after the call are arguments; \<open>err\<close> is the
  printed form of an error.
\<close>

record model_handle =
  mh_parent :: string
  mh_node :: "string option"
  mh_effect :: effect
  mh_pricing :: "model_pricing option"
  mh_capture_chunks :: bool

record tool_handle =
  th_parent :: string
  th_node :: "string option"
  th_name :: string
  th_effect :: effect

definition journal_now :: "codec \<Rightarrow> nat \<Rightarrow> journal \<Rightarrow> nat \<times> journal" where
  "journal_now cd reading j = (let (now, c) = clock_now cd reading (j_clock j) in (now, j \<lparr> j_clock := c \<rparr>))"

definition error_payload :: "(rusty_error \<Rightarrow> string) \<Rightarrow> rusty_error \<Rightarrow> json" where
  "error_payload err e = JObject [(''error'', JString (err e))]"

definition outcome_draft ::
    "chat_codec \<Rightarrow> (rusty_error \<Rightarrow> string) \<Rightarrow> model_handle \<Rightarrow> nat \<Rightarrow> json \<Rightarrow> rusty_error + chat_response \<Rightarrow> event_draft" where
  "outcome_draft cc err h latency input result =
     (let d = (draft_new KModelCall (mh_effect h)) \<lparr> d_parent := Some (mh_parent h), d_node := mh_node h,
            d_input := Some input, d_latency_ms := Some latency \<rparr>
      in case result of
           Inr r \<Rightarrow> d \<lparr> d_output := Some (model_call_response cc r), d_tokens := rs_usage r,
             d_cost_usd := Option.bind (rs_usage r) (\<lambda>u. map_option (\<lambda>p. cost_usd p u) (mh_pricing h)) \<rparr>
         | Inl e \<Rightarrow> d \<lparr> d_status := StatusError, d_output := Some (error_payload err e) \<rparr>)"

definition journal_outcome ::
    "codec \<Rightarrow> chat_codec \<Rightarrow> (rusty_error \<Rightarrow> string) \<Rightarrow> model_handle \<Rightarrow> nat \<Rightarrow> json \<Rightarrow> rusty_error + chat_response \<Rightarrow>
     journal \<Rightarrow> (rusty_error + chat_response) \<times> journal" where
  "journal_outcome cd cc err h latency input result j =
     (result, snd (record_event cd (outcome_draft cc err h latency input result) j))"

definition recording_chat ::
    "codec \<Rightarrow> chat_codec \<Rightarrow> (rusty_error \<Rightarrow> string) \<Rightarrow> model_handle \<Rightarrow> json option \<Rightarrow> chat_message list \<Rightarrow> json list \<Rightarrow>
     nat \<times> nat \<Rightarrow> rusty_error + chat_response \<Rightarrow> journal \<Rightarrow> (rusty_error + chat_response) \<times> journal" where
  "recording_chat cd cc err h params messages tools readings result j =
     (let (started, j1) = journal_now cd (fst readings) j;
          (ended, j2) = journal_now cd (snd readings) j1
      in journal_outcome cd cc err h (ended - started) (model_call_request cc params messages tools) result j2)"

record token_chunk =
  tk_delta :: string
  tk_finish :: bool

fun record_chunks :: "codec \<Rightarrow> model_handle \<Rightarrow> nat \<Rightarrow> token_chunk list \<Rightarrow> journal \<Rightarrow> journal" where
  "record_chunks cd h i [] j = j"
| "record_chunks cd h i (chunk # chunks) j = record_chunks cd h (Suc i) chunks
     (snd (record_event cd ((draft_new KAssistantChunk (mh_effect h)) \<lparr> d_parent := Some (mh_parent h),
        d_node := mh_node h, d_output := Some (JObject (bt_of_list [(''delta'', JString (tk_delta chunk)),
          (''stream_index'', json_nat i), (''finish'', JBool (tk_finish chunk))])) \<rparr>) j))"

definition recording_chat_stream ::
    "codec \<Rightarrow> chat_codec \<Rightarrow> (rusty_error \<Rightarrow> string) \<Rightarrow> model_handle \<Rightarrow> json option \<Rightarrow> chat_message list \<Rightarrow> json list \<Rightarrow>
     nat \<times> nat \<Rightarrow> token_chunk list \<Rightarrow> rusty_error + chat_response \<Rightarrow> journal \<Rightarrow> (rusty_error + chat_response) \<times> journal" where
  "recording_chat_stream cd cc err h params messages tools readings chunks result j =
     (let (started, j1) = journal_now cd (fst readings) j;
          j2 = (if mh_capture_chunks h then record_chunks cd h 0 chunks j1 else j1);
          assembled = concat (map tk_delta chunks);
          mismatch = (case result of
              Inl _ \<Rightarrow> None
            | Inr r \<Rightarrow> (let expected = (case cm_content (rs_message r) of None \<Rightarrow> [] | Some s \<Rightarrow> s)
                in if mh_capture_chunks h \<and> assembled \<noteq> expected then Some expected else None))
      in case mismatch of
           Some expected \<Rightarrow> (Err (ChunkAssemblyMismatch expected assembled), j2)
         | None \<Rightarrow>
             (let (ended, j3) = journal_now cd (snd readings) j2
              in journal_outcome cd cc err h (ended - started) (model_call_request cc params messages tools) result j3))"

definition tool_request :: "string \<Rightarrow> json \<Rightarrow> json" where
  "tool_request name args = tool_call_request \<lparr> tc_id = [], tc_name = name, tc_arguments = args \<rparr>"

definition tool_draft :: "(rusty_error \<Rightarrow> string) \<Rightarrow> tool_handle \<Rightarrow> nat \<Rightarrow> json \<Rightarrow> rusty_error + json \<Rightarrow> event_draft" where
  "tool_draft err h latency args result =
     (let d = (draft_new KToolCall (th_effect h)) \<lparr> d_input := Some (tool_request (th_name h) args),
            d_latency_ms := Some latency, d_parent := Some (th_parent h), d_node := th_node h \<rparr>
      in case result of
           Inr v \<Rightarrow> d \<lparr> d_output := Some v \<rparr>
         | Inl e \<Rightarrow> d \<lparr> d_status := StatusError, d_output := Some (error_payload err e) \<rparr>)"

text \<open>
  The body of a tool may pass gates before it answers.  A body that panics unwinds through the
  wrapper, which then journals nothing.
\<close>

definition recording_tool ::
    "codec \<Rightarrow> (rusty_error \<Rightarrow> string) \<Rightarrow> tool_handle \<Rightarrow> json \<Rightarrow> nat \<times> nat \<Rightarrow> gate_ask list \<Rightarrow> call_result \<Rightarrow> journal \<Rightarrow>
     call_result \<times> journal" where
  "recording_tool cd err h args readings asks result j =
     (let (started, j1) = journal_now cd (fst readings) j;
          j2 = fold (gate_decide cd) asks j1;
          journaled = (\<lambda>r. let (ended, j3) = journal_now cd (snd readings) j2
            in snd (record_event cd (tool_draft err h (ended - started) args r) j3))
      in case result of
           CallOk v \<Rightarrow> (CallOk v, journaled (Ok v))
         | CallErr e \<Rightarrow> (CallErr e, journaled (Err e))
         | CallPanic p \<Rightarrow> (CallPanic p, j2))"

section \<open>Replaying wrappers\<close>

definition rejournal_served :: "codec \<Rightarrow> string \<Rightarrow> nat \<times> nat \<Rightarrow> served_effect \<Rightarrow> journal \<Rightarrow> journal" where
  "rejournal_served cd parent readings s j =
     (let j1 = fold (\<lambda>n. snd \<circ> rejournal_recorded cd n) (se_nested s) j;
          j2 = snd (journal_now cd (fst readings) j1);
          j3 = snd (journal_now cd (snd readings) j2)
      in snd (rejournal cd s parent j3))"

definition replayed_failure :: "string \<Rightarrow> served_effect \<Rightarrow> string" where
  "replayed_failure what s = ''replayed '' @ what @ '' call at seq '' @ show_nat (ev_seq (se_event s)) @
     '' failed as recorded: '' @ recorded_error_text s"

definition replaying_chat ::
    "codec \<Rightarrow> chat_codec \<Rightarrow> string \<Rightarrow> json option \<Rightarrow> chat_message list \<Rightarrow> json list \<Rightarrow> nat \<times> nat \<Rightarrow>
     replay_source \<times> journal \<Rightarrow> (rusty_error + chat_response) \<times> replay_source \<times> journal" where
  "replaying_chat cd cc parent params messages tools readings st =
     (case serve cd KModelCall (model_call_request cc params messages tools) (fst st) of
        (Inl e, src) \<Rightarrow> (Err e, src, snd st)
      | (Inr s, src) \<Rightarrow>
          (case ev_status (se_event s) of
             StatusOk \<Rightarrow>
               (case se_output s of
                  None \<Rightarrow> Err (Replay (RecordedOutputMissing ''model'' (ev_seq (se_event s))))
                | Some out \<Rightarrow> chat_response_from_recorded cc (ev_seq (se_event s)) out)
           | StatusError \<Rightarrow> Err (Llm (replayed_failure ''model'' s))
           | StatusInterrupted \<Rightarrow> Err (Replay (RecordedInterrupted ''model'' (ev_seq (se_event s)))),
           src, rejournal_served cd parent readings s (snd st)))"

definition replaying_tool ::
    "codec \<Rightarrow> string \<Rightarrow> string \<Rightarrow> json \<Rightarrow> nat \<times> nat \<Rightarrow> replay_source \<times> journal \<Rightarrow>
     (rusty_error + json) \<times> replay_source \<times> journal" where
  "replaying_tool cd parent name args readings st =
     (case serve cd KToolCall (tool_request name args) (fst st) of
        (Inl e, src) \<Rightarrow> (Err e, src, snd st)
      | (Inr s, src) \<Rightarrow>
          (case ev_status (se_event s) of
             StatusOk \<Rightarrow>
               (case se_output s of
                  None \<Rightarrow> Err (Replay (RecordedOutputMissing ''tool'' (ev_seq (se_event s))))
                | Some out \<Rightarrow> Ok out)
           | StatusError \<Rightarrow> Err (Tool (replayed_failure ''tool'' s))
           | StatusInterrupted \<Rightarrow> Err (Replay (RecordedInterrupted ''tool'' (ev_seq (se_event s)))),
           src, rejournal_served cd parent readings s (snd st)))"

section \<open>The replay session\<close>

fun check_artifacts :: "codec \<Rightarrow> (string \<times> json) list \<Rightarrow> rusty_error + unit" where
  "check_artifacts cd [] = Ok ()"
| "check_artifacts cd ((hash, v) # artifacts) =
     rbind (request_hash cd v) (\<lambda>actual.
       if actual \<noteq> hash then Err (Replay (SnapshotArtifactCorrupt hash actual)) else check_artifacts cd artifacts)"

fun check_payloads :: "(string \<times> json) list \<Rightarrow> string \<Rightarrow> payload_ref option list \<Rightarrow> rusty_error + unit" where
  "check_payloads artifacts eid [] = Ok ()"
| "check_payloads artifacts eid (p # ps) =
     (case p of
        Some (Artifact reference) \<Rightarrow>
          if map_of artifacts (ref_sha256 reference) = None
          then Err (Replay (SnapshotTruncated eid (ref_sha256 reference))) else check_payloads artifacts eid ps
      | _ \<Rightarrow> check_payloads artifacts eid ps)"

fun check_references :: "(string \<times> json) list \<Rightarrow> run_event list \<Rightarrow> rusty_error + unit" where
  "check_references artifacts [] = Ok ()"
| "check_references artifacts (e # es) =
     rbind (check_payloads artifacts (ev_id e) [ev_input e, ev_output e]) (\<lambda>_. check_references artifacts es)"

definition verify_snapshot :: "codec \<Rightarrow> journal_snapshot \<Rightarrow> rusty_error + unit" where
  "verify_snapshot cd snap =
     rbind (from_snapshot cd snap SystemClock) (\<lambda>_.
     rbind (check_artifacts cd (js_artifacts snap)) (\<lambda>_. check_references (js_artifacts snap) (js_events snap)))"

definition exact_replay_new :: "codec \<Rightarrow> journal_snapshot \<Rightarrow> rusty_error + replay_source" where
  "exact_replay_new cd snap =
     rbind (verify_snapshot cd snap) (\<lambda>_.
       if list_ex (\<lambda>e. ev_kind e = KResume) (js_events snap) then Err (Replay ResumedRunUnsupported)
       else let src = source_new snap
         in if sc_stray src \<noteq> [] then Err (Replay (StrayGateEvidence (sc_stray src))) else Ok src)"

definition fresh_journal :: "codec \<Rightarrow> journal_snapshot \<Rightarrow> clock \<Rightarrow> journal" where
  "fresh_journal cd snap c = journal_new cd (js_run_id snap) (js_thread_id snap) c"

text \<open>
  The declared configuration of a run: the fields the envelope check compares, and \<open>rd_rest\<close> for
  the others.  Decoding a declaration is serde's and a parameter.  A divergence is reported by
  the name of its field.
\<close>

record run_manifest =
  mf_prompts :: "(string \<times> string) list"
  mf_tool_schemas :: "(string \<times> string) list"
  mf_model :: "string option"
  mf_model_params :: "string option"
  mf_memory_schema :: "string option"
  mf_capsules :: "(string \<times> string) list"
  mf_middleware :: "string option"
  mf_capability_set :: "string option"

record run_declaration =
  rd_graph_version :: string
  rd_graph_hash :: string
  rd_policy_version :: string
  rd_tool_allowlist :: "string list option"
  rd_manifest :: "run_manifest option"
  rd_rest :: "(string \<times> json) list"

fun declaration_in ::
    "(json \<Rightarrow> run_declaration option) \<Rightarrow> (string \<times> json) list \<Rightarrow> run_declaration option \<Rightarrow> run_event list \<Rightarrow>
     rusty_error + run_declaration option" where
  "declaration_in decode artifacts declared [] = Ok declared"
| "declaration_in decode artifacts declared (e # es) =
     (if ev_kind e \<noteq> KRunConfigDeclared then declaration_in decode artifacts declared es
      else if declared \<noteq> None then Err (Replay (SecondDeclaration (ev_seq e)))
      else case resolve_opt artifacts (ev_output e) of
        None \<Rightarrow> Err (Replay (DeclarationWithoutOutput (ev_seq e)))
      | Some out \<Rightarrow>
          (case decode out of
             None \<Rightarrow> Err (Replay (DeclarationUndecodable (ev_seq e)))
           | Some d \<Rightarrow> declaration_in decode artifacts (Some d) es))"

definition snapshot_declaration ::
    "(json \<Rightarrow> run_declaration option) \<Rightarrow> journal_snapshot \<Rightarrow> rusty_error + run_declaration option" where
  "snapshot_declaration decode snap = declaration_in decode (js_artifacts snap) None (js_events snap)"

definition schema_divergence :: "(string \<times> string) list \<Rightarrow> (string \<times> string) list \<Rightarrow> string" where
  "schema_divergence recorded replayed =
     (case find (\<lambda>(tool, digest). map_of replayed tool \<noteq> Some digest) recorded of
        Some (tool, _) \<Rightarrow> ''manifest.tool_schemas.'' @ tool
      | None \<Rightarrow>
          (case find (\<lambda>(tool, _). map_of recorded tool = None) replayed of
             Some (tool, _) \<Rightarrow> ''manifest.tool_schemas.'' @ tool
           | None \<Rightarrow> ''manifest.tool_schemas''))"

definition manifest_divergence :: "run_manifest option \<Rightarrow> run_manifest option \<Rightarrow> string option" where
  "manifest_divergence recorded replayed =
     (case (recorded, replayed) of
        (Some a, Some b) \<Rightarrow>
          if mf_model a \<noteq> mf_model b then Some ''manifest.model''
          else if mf_model_params a \<noteq> mf_model_params b then Some ''manifest.model_params''
          else if mf_tool_schemas a \<noteq> mf_tool_schemas b
          then Some (schema_divergence (mf_tool_schemas a) (mf_tool_schemas b))
          else if mf_prompts a \<noteq> mf_prompts b then Some ''manifest.prompts''
          else if mf_memory_schema a \<noteq> mf_memory_schema b then Some ''manifest.memory_schema''
          else if mf_capsules a \<noteq> mf_capsules b then Some ''manifest.capsules''
          else if mf_middleware a \<noteq> mf_middleware b then Some ''manifest.middleware''
          else if mf_capability_set a \<noteq> mf_capability_set b then Some ''manifest.capability_set''
          else None
      | (None, None) \<Rightarrow> None
      | _ \<Rightarrow> Some ''manifest'')"

definition envelope_divergence :: "run_declaration \<Rightarrow> run_declaration \<Rightarrow> string option" where
  "envelope_divergence recorded replayed =
     (if rd_graph_version recorded \<noteq> rd_graph_version replayed then Some ''graph_version''
      else if rd_graph_hash recorded \<noteq> rd_graph_hash replayed then Some ''graph_hash''
      else if rd_policy_version recorded \<noteq> rd_policy_version replayed then Some ''policy_version''
      else if rd_tool_allowlist recorded \<noteq> rd_tool_allowlist replayed then Some ''tool_allowlist''
      else manifest_divergence (rd_manifest recorded) (rd_manifest replayed))"

definition check_envelope :: "run_declaration option \<Rightarrow> run_declaration option \<Rightarrow> rusty_error + unit" where
  "check_envelope recorded replayed =
     (case (recorded, replayed) of
        (None, None) \<Rightarrow> Ok ()
      | (None, Some _) \<Rightarrow> Err (Replay (EnvelopeOnOneSide False))
      | (Some _, None) \<Rightarrow> Err (Replay (EnvelopeOnOneSide True))
      | (Some a, Some b) \<Rightarrow>
          (case envelope_divergence a b of
             None \<Rightarrow> Ok ()
           | Some where_ \<Rightarrow> Err (Replay (EnvelopeDivergence where_))))"

fun compare_events :: "run_event list \<Rightarrow> run_event list \<Rightarrow> rusty_error + unit" where
  "compare_events (a # as) (b # bs) =
     (if a \<noteq> b then Err (Replay (EventMismatch (ev_seq a))) else compare_events as bs)"
| "compare_events _ _ = Ok ()"

definition verify ::
    "(json \<Rightarrow> run_declaration option) \<Rightarrow> replay_source \<Rightarrow> journal_snapshot \<Rightarrow> journal_snapshot \<Rightarrow> rusty_error + unit" where
  "verify decode src recorded replayed =
     (if \<not> is_exhausted src
      then Err (Replay (EffectsUnserved (map (\<lambda>(n, k). (n, kind_label k)) (remaining src))))
      else if js_run_id recorded \<noteq> js_run_id replayed \<or> js_thread_id recorded \<noteq> js_thread_id replayed
      then Err (Replay (IdentityMismatch (js_run_id recorded) (js_thread_id recorded)
             (js_run_id replayed) (js_thread_id replayed)))
      else rbind (snapshot_declaration decode recorded) (\<lambda>a.
        rbind (snapshot_declaration decode replayed) (\<lambda>b.
        rbind (check_envelope a b) (\<lambda>_.
          if length (js_events recorded) \<noteq> length (js_events replayed)
          then Err (Replay (EventCountMismatch (length (js_events recorded)) (length (js_events replayed))))
          else rbind (compare_events (js_events recorded) (js_events replayed)) (\<lambda>_.
            if js_artifacts recorded \<noteq> js_artifacts replayed then Err (Replay ReplayArtifactMismatch)
            else if js_head_hash recorded \<noteq> js_head_hash replayed
            then Err (Replay (ReplayHeadMismatch (js_head_hash recorded) (js_head_hash replayed)))
            else Ok ())))))"

section \<open>The diff of two journals\<close>

definition logically_equal :: "run_event \<Rightarrow> journal_snapshot \<Rightarrow> run_event \<Rightarrow> journal_snapshot \<Rightarrow> bool" where
  "logically_equal a sa b sb \<longleftrightarrow>
     ev_seq a = ev_seq b \<and> ev_kind a = ev_kind b \<and> ev_node_id a = ev_node_id b \<and> ev_effect a = ev_effect b \<and>
     ev_latency_ms a = ev_latency_ms b \<and> ev_tokens a = ev_tokens b \<and> ev_cost_usd a = ev_cost_usd b \<and>
     ev_status a = ev_status b \<and>
     resolve_opt (js_artifacts sa) (ev_input a) = resolve_opt (js_artifacts sb) (ev_input b) \<and>
     resolve_opt (js_artifacts sa) (ev_output a) = resolve_opt (js_artifacts sb) (ev_output b)"

definition nth_opt :: "'a list \<Rightarrow> nat \<Rightarrow> 'a option" where
  "nth_opt xs i = (if i < length xs then Some (xs ! i) else None)"

definition diverges_at :: "journal_snapshot \<Rightarrow> journal_snapshot \<Rightarrow> nat \<Rightarrow> bool" where
  "diverges_at base branch i =
     (case (nth_opt (js_events base) i, nth_opt (js_events branch) i) of
        (Some a, Some b) \<Rightarrow> \<not> logically_equal a base b branch
      | _ \<Rightarrow> True)"

definition divergence_seq :: "journal_snapshot \<Rightarrow> journal_snapshot \<Rightarrow> nat option" where
  "divergence_seq base branch = map_option
     (\<lambda>i. case nth_opt (js_events base) i of
            Some e \<Rightarrow> ev_seq e
          | None \<Rightarrow> (case nth_opt (js_events branch) i of Some e \<Rightarrow> ev_seq e | None \<Rightarrow> i))
     (find (diverges_at base branch) [0..<max (length (js_events base)) (length (js_events branch))])"

record branch_totals =
  bt_events :: nat
  bt_prompt_tokens :: nat
  bt_completion_tokens :: nat
  bt_total_tokens :: nat
  bt_cost_usd :: f64

definition sat_u64 :: "nat \<Rightarrow> nat \<Rightarrow> nat" where
  "sat_u64 a b = min (a + b) (2 ^ 64 - 1)"

definition add_event_totals :: "run_event \<Rightarrow> branch_totals \<Rightarrow> branch_totals" where
  "add_event_totals e t =
     (let t1 = (case ev_tokens e of
            None \<Rightarrow> t
          | Some u \<Rightarrow> t \<lparr> bt_prompt_tokens := sat_u64 (bt_prompt_tokens t) (prompt_tokens u),
              bt_completion_tokens := sat_u64 (bt_completion_tokens t) (completion_tokens u),
              bt_total_tokens := sat_u64 (bt_total_tokens t) (total_tokens u) \<rparr>)
      in case ev_cost_usd e of None \<Rightarrow> t1 | Some c \<Rightarrow> t1 \<lparr> bt_cost_usd := f64_add (bt_cost_usd t1) c \<rparr>)"

definition totals :: "journal_snapshot \<Rightarrow> branch_totals" where
  "totals snap = fold add_event_totals (js_events snap)
     \<lparr> bt_events = length (js_events snap), bt_prompt_tokens = 0, bt_completion_tokens = 0,
       bt_total_tokens = 0, bt_cost_usd = 0 \<rparr>"

fun as_u64 :: "json \<Rightarrow> nat option" where
  "as_u64 (JNumber (PosInt n)) = Some n"
| "as_u64 _ = None"

fun as_object :: "json \<Rightarrow> (string \<times> json) list option" where
  "as_object (JObject m) = Some m"
| "as_object _ = None"

fun step_channel_values ::
    "(string \<times> json) list \<Rightarrow> nat option \<Rightarrow> run_event list \<Rightarrow> (nat \<times> (string \<times> json) list) list \<Rightarrow>
     (nat \<times> (string \<times> json) list) list" where
  "step_channel_values artifacts current [] steps = steps"
| "step_channel_values artifacts current (e # es) steps =
     (if ev_kind e = KSuperStepStart then
        step_channel_values artifacts
          (Option.bind (resolve_opt artifacts (ev_input e)) (\<lambda>v. Option.bind (json_get v ''step'') as_u64)) es steps
      else if ev_kind e = KSuperStepEnd then
        step_channel_values artifacts None es
          (case current of
             None \<Rightarrow> steps
           | Some step \<Rightarrow> bt_insert step
               (case Option.bind (resolve_opt artifacts (ev_output e)) as_object of None \<Rightarrow> [] | Some m \<Rightarrow> m) steps)
      else step_channel_values artifacts current es steps)"

definition key_union :: "('k::linorder \<times> 'v) list \<Rightarrow> ('k \<times> 'v) list \<Rightarrow> 'k list" where
  "key_union a b = map fst (bt_of_list (a @ b))"

record channel_diff =
  cf_channel :: string
  cf_base :: "json option"
  cf_branch :: "json option"

definition diff_channels :: "(string \<times> json) list \<Rightarrow> (string \<times> json) list \<Rightarrow> channel_diff list" where
  "diff_channels base branch =
     map (\<lambda>c. \<lparr> cf_channel = c, cf_base = map_of base c, cf_branch = map_of branch c \<rparr>)
       (filter (\<lambda>c. map_of base c \<noteq> map_of branch c) (key_union base branch))"

definition diff_steps :: "journal_snapshot \<Rightarrow> journal_snapshot \<Rightarrow> (nat \<times> channel_diff list) list" where
  "diff_steps base branch =
     (let xs = step_channel_values (js_artifacts base) None (js_events base) [];
          ys = step_channel_values (js_artifacts branch) None (js_events branch) [];
          channels = (\<lambda>steps step. case map_of steps step of None \<Rightarrow> [] | Some m \<Rightarrow> m)
      in filter (\<lambda>(step, ds). ds \<noteq> [])
           (map (\<lambda>step. (step, diff_channels (channels xs step) (channels ys step))) (key_union xs ys)))"

record branch_diff =
  df_first_divergent_seq :: "nat option"
  df_added :: "run_event list"
  df_removed :: "run_event list"
  df_step_diffs :: "(nat \<times> channel_diff list) list"
  df_base_totals :: branch_totals
  df_branch_totals :: branch_totals

definition diff_between :: "journal_snapshot \<Rightarrow> journal_snapshot \<Rightarrow> branch_diff" where
  "diff_between base branch =
     (let divergence = divergence_seq base branch;
          since = (\<lambda>es. case divergence of None \<Rightarrow> [] | Some n \<Rightarrow> filter (\<lambda>e. n \<le> ev_seq e) es)
      in \<lparr> df_first_divergent_seq = divergence, df_added = since (js_events branch),
           df_removed = since (js_events base), df_step_diffs = diff_steps base branch,
           df_base_totals = totals base, df_branch_totals = totals branch \<rparr>)"

section \<open>The recorded world of a shadow run\<close>

type_synonym shadow_queues = "(string \<times> (string \<times> json) list) list"

definition shadow_entry :: "codec \<Rightarrow> (string \<times> json) list \<Rightarrow> run_event \<Rightarrow> (string \<times> string \<times> json) option" where
  "shadow_entry cd artifacts e =
     (if ev_kind e \<noteq> KToolCall then None
      else Option.bind (resolve_opt artifacts (ev_input e)) (\<lambda>input.
        Option.bind (Option.bind (json_get input ''tool'') as_str) (\<lambda>tool.
          case content_hash cd (Inline input) of
            Inl _ \<Rightarrow> None
          | Inr hash \<Rightarrow> Some (tool, hash, or_null (resolve_opt artifacts (ev_output e))))))"

definition push_recorded :: "string \<times> string \<times> json \<Rightarrow> shadow_queues \<Rightarrow> shadow_queues" where
  "push_recorded entry queues = (case entry of (tool, call) \<Rightarrow>
     bt_insert tool ((case map_of queues tool of None \<Rightarrow> [] | Some q \<Rightarrow> q) @ [call]) queues)"

definition shadow_source_new :: "codec \<Rightarrow> journal_snapshot \<Rightarrow> shadow_queues" where
  "shadow_source_new cd snap =
     fold push_recorded (List.map_filter (shadow_entry cd (js_artifacts snap)) (js_events snap)) []"

definition shadow_serve :: "codec \<Rightarrow> string \<Rightarrow> json \<Rightarrow> shadow_queues \<Rightarrow> json option \<times> shadow_queues" where
  "shadow_serve cd kind request queues =
     (case content_hash cd (Inline request) of
        Inl _ \<Rightarrow> (None, queues)
      | Inr hash \<Rightarrow>
          (case map_of queues kind of
             Some ((front, out) # rest) \<Rightarrow>
               if front = hash then (Some out, bt_insert kind rest queues) else (None, queues)
           | _ \<Rightarrow> (None, queues)))"

definition unrequested :: "shadow_queues \<Rightarrow> string list" where
  "unrequested queues = map fst (filter (\<lambda>(_, queue). queue \<noteq> []) queues)"

end
