(* ===== verification/Replay_Fidelity.thy ===== *)
theory Replay_Fidelity
  imports Exact_Replay
begin

text \<open>
  What exact replay guarantees: a run re-driven against its own journal issues the same requests,
  gets the same answers and writes the same journal; what is served is the recorded sequence in
  order and nothing else; the final check accepts exactly the recorded evidence.  A run is any
  client of the wrappers, a tree that asks and continues with the answer, so the theorems cover
  the executor and every node body that talks to the world through them one call at a time.
\<close>

section \<open>Clients\<close>

datatype 'r client =
    Finish 'r
  | AskModel model_handle "json option" "chat_message list" "json list" "rusty_error + chat_response \<Rightarrow> 'r client"
  | AskTool tool_handle json "call_result \<Rightarrow> 'r client"
  | Note event_draft "string \<Rightarrow> 'r client"
  | ReadClock "nat \<Rightarrow> 'r client"

text \<open>
  The world a live run talks to answers by the number of the request.
\<close>

record live_world =
  lw_chat :: "nat \<Rightarrow> chat_message list \<Rightarrow> json list \<Rightarrow> rusty_error + chat_response"
  lw_tool :: "nat \<Rightarrow> string \<Rightarrow> json \<Rightarrow> gate_ask list \<times> call_result"
  lw_error_text :: "rusty_error \<Rightarrow> string"
  lw_readings :: "nat \<Rightarrow> nat \<times> nat"

primrec run_live :: "codec \<Rightarrow> chat_codec \<Rightarrow> live_world \<Rightarrow> 'r client \<Rightarrow> nat \<Rightarrow> journal \<Rightarrow> 'r \<times> journal" where
  "run_live cd cc lw (Finish r) n j = (r, j)"
| "run_live cd cc lw (AskModel h params messages tools k) n j =
     (case recording_chat cd cc (lw_error_text lw) h params messages tools (lw_readings lw n)
             (lw_chat lw n messages tools) j of (a, j') \<Rightarrow> run_live cd cc lw (k a) (Suc n) j')"
| "run_live cd cc lw (AskTool h args k) n j =
     (case lw_tool lw n (th_name h) args of (asks, result) \<Rightarrow>
      case recording_tool cd (lw_error_text lw) h args (lw_readings lw n) asks result j of
        (a, j') \<Rightarrow> run_live cd cc lw (k a) (Suc n) j')"
| "run_live cd cc lw (Note d k) n j = (case record_event cd d j of (eid, j') \<Rightarrow> run_live cd cc lw (k eid) n j')"
| "run_live cd cc lw (ReadClock k) n j =
     (case journal_now cd (fst (lw_readings lw n)) j of (now, j') \<Rightarrow> run_live cd cc lw (k now) (Suc n) j')"

definition replayed_call :: "rusty_error + json \<Rightarrow> call_result" where
  "replayed_call a = (case a of Inl e \<Rightarrow> CallErr e | Inr v \<Rightarrow> CallOk v)"

text \<open>The replayed run takes nothing from the world but readings of a system clock.\<close>

primrec run_replayed ::
    "codec \<Rightarrow> chat_codec \<Rightarrow> (nat \<Rightarrow> nat \<times> nat) \<Rightarrow> 'r client \<Rightarrow> nat \<Rightarrow> replay_source \<times> journal \<Rightarrow>
     'r \<times> replay_source \<times> journal" where
  "run_replayed cd cc readings (Finish r) n st = (r, st)"
| "run_replayed cd cc readings (AskModel h params messages tools k) n st =
     (case replaying_chat cd cc (mh_parent h) params messages tools (readings n) st of
        (a, st') \<Rightarrow> run_replayed cd cc readings (k a) (Suc n) st')"
| "run_replayed cd cc readings (AskTool h args k) n st =
     (case replaying_tool cd (th_parent h) (th_name h) args (readings n) st of
        (a, st') \<Rightarrow> run_replayed cd cc readings (k (replayed_call a)) (Suc n) st')"
| "run_replayed cd cc readings (Note d k) n st =
     (case record_event cd d (snd st) of (eid, j') \<Rightarrow> run_replayed cd cc readings (k eid) n (fst st, j'))"
| "run_replayed cd cc readings (ReadClock k) n st =
     (case journal_now cd (fst (readings n)) (snd st) of
        (now, j') \<Rightarrow> run_replayed cd cc readings (k now) (Suc n) (fst st, j'))"

text \<open>
  A client is replayable when its requests serialize, it notes no effects of its own and no gate
  evidence or resumption, and it does not look into an error.  The last condition is needed: a
  replayed failure is worded differently.
\<close>

definition own_event :: "event_draft \<Rightarrow> bool" where
  "own_event d \<longleftrightarrow> \<not> is_servable (d_kind d) \<and> \<not> is_nested (d_kind d) \<and> d_kind d \<noteq> KResume"

primrec replayable :: "codec \<Rightarrow> chat_codec \<Rightarrow> 'r client \<Rightarrow> bool" where
  "replayable cd cc (Finish r) \<longleftrightarrow> True"
| "replayable cd cc (AskModel h params messages tools k) \<longleftrightarrow>
     ser_value cd (model_call_request cc params messages tools) \<noteq> None \<and>
     (\<forall>e e'. k (Inl e) = k (Inl e')) \<and> (\<forall>a. replayable cd cc (k a))"
| "replayable cd cc (AskTool h args k) \<longleftrightarrow>
     ser_value cd (tool_request (th_name h) args) \<noteq> None \<and>
     (\<forall>e e'. k (CallErr e) = k (CallErr e')) \<and> (\<forall>a. replayable cd cc (k a))"
| "replayable cd cc (Note d k) \<longleftrightarrow> own_event d \<and> (\<forall>eid. replayable cd cc (k eid))"
| "replayable cd cc (ReadClock k) \<longleftrightarrow> (\<forall>now. replayable cd cc (k now))"

text \<open>
  What is asked of the world: serde reads back the responses it wrote, and the tools neither pass
  gates nor panic.
\<close>

definition reads_back :: "chat_codec \<Rightarrow> chat_response \<Rightarrow> bool" where
  "reads_back cc r \<longleftrightarrow> cc_message cc (message_value cc (rs_message r)) = Some (rs_message r) \<and>
     (\<forall>u. rs_usage r = Some u \<longrightarrow> cc_usage cc (usage_value u) = Some u)"

definition plain_world :: "chat_codec \<Rightarrow> live_world \<Rightarrow> bool" where
  "plain_world cc lw \<longleftrightarrow>
     (\<forall>n messages tools r. lw_chat lw n messages tools = Ok r \<longrightarrow> reads_back cc r) \<and>
     (\<forall>n name args. fst (lw_tool lw n name args) = [] \<and> (\<forall>p. snd (lw_tool lw n name args) \<noteq> CallPanic p))"

lemma response_roundtrip:
  assumes "reads_back cc r"
  shows "chat_response_from_recorded cc n (model_call_response cc r) = Ok r"
proof -
  have "nullable as_str (or_null (map_option JString (rs_model r))) = Some (rs_model r)"
    by (cases "rs_model r") (simp_all add: nullable_def or_null_def)
  moreover have "nullable (cc_usage cc) (or_null (map_option usage_value (rs_usage r))) = Some (rs_usage r)"
    using assms by (cases "rs_usage r") (simp_all add: nullable_def or_null_def usage_value_def reads_back_def)
  ultimately show ?thesis
    using assms by (simp add: chat_response_from_recorded_def model_call_response_def recorded_key_def decoded_def
        reads_back_def map_of_bt_of_list)
qed

section \<open>A live run extends its journal\<close>

definition quiet :: "run_event \<Rightarrow> bool" where
  "quiet e \<longleftrightarrow> \<not> is_nested (ev_kind e) \<and> ev_kind e \<noteq> KResume"

definition logical :: "journal \<Rightarrow> bool" where
  "logical j \<longleftrightarrow> j_clock j \<noteq> SystemClock"

definition grows :: "codec \<Rightarrow> journal \<Rightarrow> journal \<Rightarrow> bool" where
  "grows cd j j' \<longleftrightarrow> (\<exists>es. j_events j' = j_events j @ es \<and> list_all quiet es) \<and>
     map_of (j_artifacts j) \<subseteq>\<^sub>m map_of (j_artifacts j') \<and> j_run_id j' = j_run_id j \<and>
     j_thread_id j' = j_thread_id j \<and> (journal_inv cd j \<longrightarrow> journal_inv cd j') \<and> (logical j \<longrightarrow> logical j')"

lemma grows_refl [simp]: "grows cd j j"
  by (simp add: grows_def)

lemma grows_trans: "grows cd i j \<Longrightarrow> grows cd j k \<Longrightarrow> grows cd i k"
  unfolding grows_def by (elim conjE exE, intro conjI) (force, blast intro: map_le_trans, simp_all)

lemma clock_now_logical: "c \<noteq> SystemClock \<Longrightarrow> snd (clock_now cd t c) \<noteq> SystemClock"
  by (cases c) (simp_all add: clock_now_def Let_def)

lemma record_event_clock:
  "j_clock (snd (record_event cd d j)) = snd (clock_now cd (wall cd (length (j_events j))) (j_clock j))"
  by (simp add: record_event_def Let_def split_beta)

lemma record_grows:
  assumes "codec_total cd" "journal_inv cd j" "\<not> is_nested (d_kind d)" "d_kind d \<noteq> KResume"
  shows "grows cd j (snd (record_event cd d j))"
proof (rule record_event_cases [of cd j d])
  fix e inp arts1 outp arts2
  assume s: "store_payload_opt cd (j_artifacts j) (d_input d) = (inp, arts1)"
      "store_payload_opt cd arts1 (d_output d) = (outp, arts2)"
    and k: "ev_kind e = d_kind d"
    and j: "j_events (snd (record_event cd d j)) = j_events j @ [e]"
      "j_artifacts (snd (record_event cd d j)) = arts2"
      "j_run_id (snd (record_event cd d j)) = j_run_id j"
      "j_thread_id (snd (record_event cd d j)) = j_thread_id j"
  have a1: "artifacts_ok cd arts1 \<and> map_of (j_artifacts j) \<subseteq>\<^sub>m map_of arts1"
    using assms(2) store_payload_opt_artifacts [OF _ s(1)] by (simp add: journal_inv_def)
  then have "map_of (j_artifacts j) \<subseteq>\<^sub>m map_of arts2"
    using store_payload_opt_artifacts [OF _ s(2)] map_le_trans by blast
  moreover have "logical (snd (record_event cd d j))" if "logical j"
    using that by (simp add: logical_def record_event_clock clock_now_logical)
  moreover have "quiet e" using assms(3,4) k by (simp add: quiet_def)
  ultimately show ?thesis
    using journal_inv_record [OF assms(1,2)] j by (simp add: grows_def)
qed

lemma now_grows [simp]: "grows cd j (snd (journal_now cd t j))"
  by (simp add: grows_def journal_now_def split_beta logical_def clock_now_logical journal_inv_def event_at_def)

lemma live_grows:
  assumes "codec_total cd" "plain_world cc lw" "replayable cd cc c" "journal_inv cd j"
  shows "grows cd j (snd (run_live cd cc lw c n j))"
  using assms(3,4)
proof (induction c arbitrary: n j)
  case (AskModel h params messages tools k)
  obtain a j' where r: "recording_chat cd cc (lw_error_text lw) h params messages tools (lw_readings lw n)
      (lw_chat lw n messages tools) j = (a, j')" by (metis surj_pair)
  obtain d j2 where d: "j' = snd (record_event cd d j2)" "d_kind d = KModelCall" "grows cd j j2"
    using r grows_trans [OF now_grows now_grows]
    by (auto simp: recording_chat_def journal_outcome_def outcome_draft_def draft_new_def Let_def split_beta
        split: sum.splits)
  have "journal_inv cd j2" using d(3) AskModel.prems(2) by (simp add: grows_def)
  then have "grows cd j j'"
    using grows_trans [OF d(3) record_grows [OF assms(1)]] d(1,2) by (simp add: is_nested_def NESTED_EVIDENCE_KINDS_def)
  moreover have "grows cd j' (snd (run_live cd cc lw (k a) (Suc n) j'))"
    using AskModel calculation by (auto simp: grows_def)
  ultimately show ?case using r grows_trans by auto
next
  case (AskTool h args k)
  obtain a j' where r: "recording_tool cd (lw_error_text lw) h args (lw_readings lw n) []
      (snd (lw_tool lw n (th_name h) args)) j = (a, j')" by (metis surj_pair)
  have no_panic: "snd (lw_tool lw n (th_name h) args) \<noteq> CallPanic p" for p
    using assms(2) by (simp add: plain_world_def)
  have asks: "fst (lw_tool lw n (th_name h) args) = []" using assms(2) by (simp add: plain_world_def)
  obtain d j2 where d: "j' = snd (record_event cd d j2)" "d_kind d = KToolCall" "grows cd j j2"
    using r no_panic grows_trans [OF now_grows now_grows]
    by (auto simp: recording_tool_def tool_draft_def draft_new_def Let_def split_beta split: call_result.splits)
  have "journal_inv cd j2" using d(3) AskTool.prems(2) by (simp add: grows_def)
  then have "grows cd j j'"
    using grows_trans [OF d(3) record_grows [OF assms(1)]] d(1,2) by (simp add: is_nested_def NESTED_EVIDENCE_KINDS_def)
  moreover have "grows cd j' (snd (run_live cd cc lw (k a) (Suc n) j'))"
    using AskTool calculation by (auto simp: grows_def)
  ultimately show ?case using r asks grows_trans by (auto simp: split_beta)
next
  case (Note d k)
  have "grows cd j (snd (record_event cd d j))"
    using Note.prems record_grows [OF assms(1)] by (simp add: own_event_def)
  moreover have "grows cd (snd (record_event cd d j))
      (snd (run_live cd cc lw (k (fst (record_event cd d j))) n (snd (record_event cd d j))))"
    using Note calculation by (auto simp: grows_def)
  ultimately show ?case using grows_trans by (auto simp: split_beta)
next
  case (ReadClock k)
  let ?t = "fst (lw_readings lw n)"
  have "grows cd (snd (journal_now cd ?t j))
      (snd (run_live cd cc lw (k (fst (journal_now cd ?t j))) (Suc n) (snd (journal_now cd ?t j))))"
    using ReadClock now_grows [of cd j ?t] by (auto simp: grows_def)
  then show ?case using grows_trans [OF now_grows] by (auto simp: split_beta)
qed simp

section \<open>Serving what was recorded\<close>

text \<open>The source over a finished journal, with the cursor behind the effects of an earlier state of it.\<close>

definition source_at :: "journal \<Rightarrow> journal \<Rightarrow> replay_source" where
  "source_at J j = (source_new (snapshot J)) \<lparr> sc_cursor := length (filter (is_servable \<circ> ev_kind) (j_events j)) \<rparr>"

lemma index_events_quiet:
  "list_all quiet es \<Longrightarrow> index_events es [] =
     (filter (is_servable \<circ> ev_kind) es, replicate (length (filter (is_servable \<circ> ev_kind) es)) [], [])"
  by (induction es) (auto simp: quiet_def)

lemma source_at_fields:
  assumes "list_all quiet (j_events J)"
  shows "sc_servable (source_at J j) = filter (is_servable \<circ> ev_kind) (j_events J)"
    "sc_nested (source_at J j) = replicate (length (filter (is_servable \<circ> ev_kind) (j_events J))) []"
    "sc_stray (source_at J j) = []" "sc_artifacts (source_at J j) = j_artifacts J"
    "sc_cursor (source_at J j) = length (filter (is_servable \<circ> ev_kind) (j_events j))"
  using index_events_quiet [OF assms] by (simp_all add: source_at_def source_new_def snapshot_def)

lemma source_at_next:
  "is_servable (ev_kind e) \<Longrightarrow> j_events j' = j_events j @ [e] \<Longrightarrow>
     (source_at J j) \<lparr> sc_cursor := Suc (sc_cursor (source_at J j)) \<rparr> = source_at J j'"
  by (simp add: source_at_def)

lemma resolve_opt_stored:
  assumes "collision_free cd" "artifacts_ok cd arts" "store_payload_opt cd arts v = (p, arts')"
    "map_of arts' \<subseteq>\<^sub>m map_of (j_artifacts (J :: journal))"
  shows "resolve_opt (j_artifacts J) p = v"
  using store_payload_opt_resolve [OF assms]
  by (cases p; cases v) (auto simp: resolve_opt_def resolve_ref_def resolve_def split: payload_ref.splits)

lemma served_next:
  assumes "collision_free cd" "journal_inv cd j2" "grows cd (snd (record_event cd d j2)) J" "list_all quiet (j_events J)"
    "is_servable (d_kind d)" "d_input d = Some req" "ser_value cd req \<noteq> None" "j_events j2 = j_events j"
  obtains e where
    "serve cd (d_kind d) req (source_at J j) =
       (Ok (ServedEffect e (Some req) (d_output d) []), source_at J (snd (record_event cd d j2)))"
    "(recorded_draft (ServedEffect e (Some req) (d_output d) [])) \<lparr> d_parent := d_parent d \<rparr> = d"
    "ev_status e = d_status d"
proof (rule record_event_cases [of cd j2 d])
  fix e inp arts1 outp arts2
  let ?j' = "snd (record_event cd d j2)"
  assume s: "store_payload_opt cd (j_artifacts j2) (d_input d) = (inp, arts1)"
      "store_payload_opt cd arts1 (d_output d) = (outp, arts2)"
    and e: "ev_input e = inp" "ev_output e = outp" "ev_kind e = d_kind d" "ev_effect e = d_effect d"
      "ev_node_id e = d_node d" "ev_status e = d_status d" "ev_tokens e = d_tokens d"
      "ev_cost_usd e = d_cost_usd d" "ev_latency_ms e = d_latency_ms d"
    and j: "j_events ?j' = j_events j2 @ [e]" "j_artifacts ?j' = arts2"
  have ok: "artifacts_ok cd (j_artifacts j2)" using assms(2) by (simp add: journal_inv_def)
  note a1 = store_payload_opt_artifacts [OF ok s(1)]
  then have ok1: "artifacts_ok cd arts1" by simp
  note a2 = store_payload_opt_artifacts [OF ok1 s(2)]
  have le2: "map_of arts2 \<subseteq>\<^sub>m map_of (j_artifacts J)" using assms(3) j(2) by (simp add: grows_def)
  then have le1: "map_of arts1 \<subseteq>\<^sub>m map_of (j_artifacts J)" using a2 map_le_trans by blast
  have inp: "resolve_opt (j_artifacts J) (ev_input e) = Some req"
    using resolve_opt_stored [OF assms(1) ok s(1) le1] e(1) assms(6) by simp
  have outp: "resolve_opt (j_artifacts J) (ev_output e) = d_output d"
    using resolve_opt_stored [OF assms(1) ok1 s(2) le2] e(2) by simp
  obtain rest where rest: "j_events J = j_events j @ e # rest"
    using assms(3,8) j(1) by (auto simp: grows_def)
  then have lt: "length (filter (is_servable \<circ> ev_kind) (j_events j)) < length (filter (is_servable \<circ> ev_kind) (j_events J))"
    using assms(5) e(3) by simp
  have here: "sc_cursor (source_at J j) < length (sc_servable (source_at J j))"
      "sc_servable (source_at J j) ! sc_cursor (source_at J j) = e"
      "sc_nested (source_at J j) ! sc_cursor (source_at J j) = []"
    using lt rest assms(5) e(3) by (simp_all only: source_at_fields [OF assms(4)] nth_replicate) (simp add: nth_append)
  obtain b where b: "ser_value cd req = Some b" using assms(7) by auto
  have step: "(source_at J j) \<lparr> sc_cursor := Suc (sc_cursor (source_at J j)) \<rparr> = source_at J ?j'"
    using assms(5,8) e(3) j(1) by (intro source_at_next [of e]) simp_all
  have "serve cd (d_kind d) req (source_at J j) =
      (Ok (ServedEffect e (Some req) (d_output d) []), source_at J ?j')"
    using assms(5) inp outp b e(3) here step
    by (simp add: serve_def source_at_fields(4) [OF assms(4)] request_hash_def Let_def)
  moreover have "(recorded_draft (ServedEffect e (Some req) (d_output d) [])) \<lparr> d_parent := d_parent d \<rparr> = d"
    using e assms(6) by (simp add: recorded_draft_def draft_new_def Let_def)
  ultimately show thesis using that e(6) by blast
qed

lemma now_logical: "logical j \<Longrightarrow> journal_now cd t j = journal_now cd t' j"
  by (cases "j_clock j") (simp_all add: logical_def journal_now_def clock_now_def Let_def)

text \<open>The two readings around a call, and the journal at the call's own record.\<close>

definition at_record :: "codec \<Rightarrow> nat \<times> nat \<Rightarrow> journal \<Rightarrow> journal" where
  "at_record cd readings j = snd (journal_now cd (snd readings) (snd (journal_now cd (fst readings) j)))"

lemma at_record_logical: "logical j \<Longrightarrow> at_record cd r j = at_record cd r' j"
proof -
  assume l: "logical j"
  then have l1: "logical (snd (journal_now cd (fst r') j))" using now_grows [of cd j] by (simp add: grows_def)
  show ?thesis
    using now_logical [OF l, of cd "fst r" "fst r'"] now_logical [OF l1, of cd "snd r" "snd r'"]
    by (simp add: at_record_def)
qed

lemma at_record_grows: "grows cd j (at_record cd r j)" "j_events (at_record cd r j) = j_events j"
  unfolding at_record_def by (rule grows_trans [OF now_grows now_grows])
    (simp add: journal_now_def split_beta)

lemma rejournal_same:
  assumes "logical j" "(recorded_draft s) \<lparr> d_parent := Some parent \<rparr> = d" "se_nested s = []"
  shows "rejournal_served cd parent r s j = snd (record_event cd d (at_record cd r' j))"
  using assms at_record_logical [OF assms(1), of cd r r']
  by (simp add: rejournal_served_def rejournal_def at_record_def)

section \<open>Replay follows the live run\<close>

definition latency :: "codec \<Rightarrow> nat \<times> nat \<Rightarrow> journal \<Rightarrow> nat" where
  "latency cd readings j = fst (journal_now cd (snd readings) (snd (journal_now cd (fst readings) j))) -
     fst (journal_now cd (fst readings) j)"

lemma recording_chat_eq:
  "recording_chat cd cc err h params messages tools r res j = (res, snd (record_event cd
     (outcome_draft cc err h (latency cd r j) (model_call_request cc params messages tools) res) (at_record cd r j)))"
  by (simp add: recording_chat_def journal_outcome_def at_record_def latency_def split_beta Let_def)

lemma recording_tool_eq:
  "recording_tool cd err h args r [] (CallOk v) j =
     (CallOk v, snd (record_event cd (tool_draft err h (latency cd r j) args (Inr v)) (at_record cd r j)))"
  "recording_tool cd err h args r [] (CallErr e) j =
     (CallErr e, snd (record_event cd (tool_draft err h (latency cd r j) args (Inl e)) (at_record cd r j)))"
  by (simp_all add: recording_tool_def at_record_def latency_def split_beta Let_def)

lemma chat_replays:
  assumes "codec_total cd" "collision_free cd" "plain_world cc lw" "logical j" "journal_inv cd j"
    "ser_value cd (model_call_request cc params messages tools) \<noteq> None"
    "recording_chat cd cc (lw_error_text lw) h params messages tools r (lw_chat lw n messages tools) j = (a, j')"
    "grows cd j' J" "list_all quiet (j_events J)"
  shows "\<exists>a'. replaying_chat cd cc (mh_parent h) params messages tools r' (source_at J j, j) = (a', source_at J j', j') \<and>
    (a' = a \<or> (\<exists>e e'. a = Inl e \<and> a' = Inl e'))"
proof -
  let ?req = "model_call_request cc params messages tools" and ?res = "lw_chat lw n messages tools"
  define d where "d = outcome_draft cc (lw_error_text lw) h (latency cd r j) ?req ?res"
  have j': "j' = snd (record_event cd d (at_record cd r j))" and a: "a = ?res"
    using assms(7) unfolding recording_chat_eq by (auto simp: d_def)
  have d: "d_kind d = KModelCall" "d_input d = Some ?req" "d_parent d = Some (mh_parent h)"
    by (cases ?res; simp add: d_def outcome_draft_def draft_new_def Let_def)+
  have inv: "journal_inv cd (at_record cd r j)" using assms(5) at_record_grows(1) [of cd j r] by (simp add: grows_def)
  obtain e where e: "serve cd (d_kind d) ?req (source_at J j) = (Ok (ServedEffect e (Some ?req) (d_output d) []), source_at J j')"
      "(recorded_draft (ServedEffect e (Some ?req) (d_output d) [])) \<lparr> d_parent := d_parent d \<rparr> = d" "ev_status e = d_status d"
    by (rule served_next [OF assms(2) inv assms(8) [unfolded j'] assms(9) _ d(2) assms(6) at_record_grows(2)])
      (simp_all add: j' d(1) is_servable_def SERVABLE_KINDS_def)
  have rj: "rejournal_served cd (mh_parent h) r' (ServedEffect e (Some ?req) (d_output d) []) j = j'"
    using rejournal_same [OF assms(4), where parent = "mh_parent h" and d = d and r = r' and r' = r] e(2) d(3) by (simp add: j')
  show ?thesis
  proof (cases ?res)
    case (Inl err)
    then have "d_status d = StatusError" by (simp add: d_def outcome_draft_def Let_def)
    then show ?thesis using e(1,3) rj Inl a d(1) by (simp add: replaying_chat_def)
  next
    case (Inr resp)
    then have "reads_back cc resp" using assms(3) by (simp add: plain_world_def)
    then have "chat_response_from_recorded cc m (model_call_response cc resp) = Ok resp" for m
      by (rule response_roundtrip)
    moreover have "d_status d = StatusOk" "d_output d = Some (model_call_response cc resp)"
      using Inr by (simp_all add: d_def outcome_draft_def draft_new_def Let_def)
    ultimately show ?thesis using e(1,3) rj Inr a d(1) by (simp add: replaying_chat_def)
  qed
qed

lemma tool_replays:
  assumes "collision_free cd" "logical j" "journal_inv cd j"
    "ser_value cd (tool_request (th_name h) args) \<noteq> None" "\<And>p. res \<noteq> CallPanic p"
    "recording_tool cd err h args r [] res j = (a, j')" "grows cd j' J" "list_all quiet (j_events J)"
  shows "\<exists>a'. replaying_tool cd (th_parent h) (th_name h) args r' (source_at J j, j) = (a', source_at J j', j') \<and>
    (replayed_call a' = a \<or> (\<exists>e e'. a = CallErr e \<and> replayed_call a' = CallErr e'))"
proof -
  let ?req = "tool_request (th_name h) args"
  obtain out where out: "res = replayed_call out"
    using assms(5) by (cases res) (metis replayed_call_def sum.case(1,2))+
  define d where "d = tool_draft err h (latency cd r j) args out"
  have j': "j' = snd (record_event cd d (at_record cd r j))" and a: "a = res"
    using assms(6) by (auto simp: recording_tool_eq d_def out replayed_call_def split: sum.splits)
  have d: "d_kind d = KToolCall" "d_input d = Some ?req" "d_parent d = Some (th_parent h)"
    by (cases out; simp add: d_def tool_draft_def draft_new_def Let_def)+
  have inv: "journal_inv cd (at_record cd r j)" using assms(3) at_record_grows(1) [of cd j r] by (simp add: grows_def)
  obtain e where e: "serve cd (d_kind d) ?req (source_at J j) = (Ok (ServedEffect e (Some ?req) (d_output d) []), source_at J j')"
      "(recorded_draft (ServedEffect e (Some ?req) (d_output d) [])) \<lparr> d_parent := d_parent d \<rparr> = d" "ev_status e = d_status d"
    by (rule served_next [OF assms(1) inv assms(7) [unfolded j'] assms(8) _ d(2) assms(4) at_record_grows(2)])
      (simp_all add: j' d(1) is_servable_def SERVABLE_KINDS_def)
  have rj: "rejournal_served cd (th_parent h) r' (ServedEffect e (Some ?req) (d_output d) []) j = j'"
    using rejournal_same [OF assms(2), where parent = "th_parent h" and d = d and r = r' and r' = r] e(2) d(3) by (simp add: j')
  have "d_status d = (case out of Inl _ \<Rightarrow> StatusError | Inr _ \<Rightarrow> StatusOk)" "\<And>v. out = Inr v \<Longrightarrow> d_output d = Some v"
    by (cases out; simp add: d_def tool_draft_def draft_new_def Let_def)+
  then show ?thesis
    using e(1,3) rj a d(1) by (cases out) (simp_all add: replaying_tool_def out replayed_call_def)
qed

lemma replay_follows:
  assumes "codec_total cd" "collision_free cd" "plain_world cc lw" "list_all quiet (j_events J)"
    "replayable cd cc c" "logical j" "journal_inv cd j" "run_live cd cc lw c n j = (r, J)"
  shows "run_replayed cd cc readings c m (source_at J j, j) = (r, source_at J J, J)"
  using assms(5-8)
proof (induction c arbitrary: n m j)
  case (AskModel h params messages tools k)
  obtain a j' where l: "recording_chat cd cc (lw_error_text lw) h params messages tools (lw_readings lw n)
      (lw_chat lw n messages tools) j = (a, j')" by (metis surj_pair)
  have live: "run_live cd cc lw (k a) (Suc n) j' = (r, J)" using AskModel.prems(4) l by simp
  have k: "replayable cd cc (k a)" "k (Inl e) = k (Inl e')" for e e' using AskModel.prems(1) by auto
  have g: "grows cd j j'"
    using live_grows [OF assms(1,3), of "AskModel h params messages tools (\<lambda>_. Finish ())" j n] AskModel.prems(1,3) l by simp
  then have st: "logical j'" "journal_inv cd j'" using AskModel.prems(2,3) by (simp_all add: grows_def)
  have "grows cd j' J" using live_grows [OF assms(1,3) k(1) st(2), of "Suc n"] live by simp
  from chat_replays [OF assms(1-3) AskModel.prems(2,3) _ l this assms(4), of "readings m"] AskModel.prems(1)
  obtain a' where a': "replaying_chat cd cc (mh_parent h) params messages tools (readings m) (source_at J j, j) =
      (a', source_at J j', j')" "k a' = k a" using k(2) by auto
  then show ?case using AskModel.IH [OF rangeI k(1) st live] by simp
next
  case (AskTool h args k)
  obtain res where res: "lw_tool lw n (th_name h) args = ([], res)" "\<And>p. res \<noteq> CallPanic p"
    using assms(3) unfolding plain_world_def by (metis prod.collapse)
  obtain a j' where l: "recording_tool cd (lw_error_text lw) h args (lw_readings lw n) [] res j = (a, j')" by (metis surj_pair)
  have live: "run_live cd cc lw (k a) (Suc n) j' = (r, J)" using AskTool.prems(4) l res(1) by simp
  have k: "replayable cd cc (k a)" "k (CallErr e) = k (CallErr e')" for e e' using AskTool.prems(1) by auto
  have g: "grows cd j j'"
    using live_grows [OF assms(1,3), of "AskTool h args (\<lambda>_. Finish ())" j n] AskTool.prems(1,3) l res(1) by simp
  then have st: "logical j'" "journal_inv cd j'" using AskTool.prems(2,3) by (simp_all add: grows_def)
  have "grows cd j' J" using live_grows [OF assms(1,3) k(1) st(2), of "Suc n"] live by simp
  from tool_replays [OF assms(2) AskTool.prems(2,3) _ res(2) l this assms(4), of "readings m"] AskTool.prems(1)
  obtain a' where a': "replaying_tool cd (th_parent h) (th_name h) args (readings m) (source_at J j, j) =
      (a', source_at J j', j')" "k (replayed_call a') = k a" using k(2) by auto
  then show ?case using AskTool.IH [OF rangeI k(1) st live] by simp
next
  case (Note d k)
  obtain eid j' where l: "record_event cd d j = (eid, j')" by (metis surj_pair)
  have own: "own_event d" "replayable cd cc (k eid)" using Note.prems(1) by auto
  then have g: "grows cd j j'" using record_grows [OF assms(1) Note.prems(3), of d] l by (simp add: own_event_def)
  then have st: "logical j'" "journal_inv cd j'" using Note.prems(2,3) by (simp_all add: grows_def)
  have "source_at J j' = source_at J j"
    using record_event_cases [of cd j d] own(1) l by (fastforce simp: source_at_def own_event_def)
  then show ?case using Note.IH [OF rangeI own(2) st, of n m] Note.prems(4) l by simp
next
  case (ReadClock k)
  let ?t = "fst (lw_readings lw n)"
  obtain now j' where l: "journal_now cd ?t j = (now, j')" by (metis surj_pair)
  have g: "grows cd j j'" using now_grows [of cd j ?t] l by simp
  then have st: "logical j'" "journal_inv cd j'" using ReadClock.prems(2,3) by (simp_all add: grows_def)
  have "journal_now cd (fst (readings m)) j = (now, j')" using now_logical [OF ReadClock.prems(2)] l by metis
  moreover have "source_at J j' = source_at J j" using l by (auto simp: source_at_def journal_now_def split_beta)
  moreover have "replayable cd cc (k now)" using ReadClock.prems(1) by simp
  ultimately show ?case using ReadClock.IH [OF rangeI _ st, of now "Suc n" "Suc m"] ReadClock.prems(4) l by simp
qed simp

section \<open>Both ends of a replay\<close>

lemma check_artifacts_ok: "\<forall>(h, v) \<in> set arts. request_hash cd v = Ok h \<Longrightarrow> check_artifacts cd arts = Ok ()"
  by (induction arts) auto

lemma check_references_ok:
  "\<forall>e \<in> set es. payload_stored arts (ev_input e) \<and> payload_stored arts (ev_output e) \<Longrightarrow> check_references arts es = Ok ()"
  by (induction es) (auto simp: payload_stored_def split: option.splits payload_ref.splits)

lemma verify_snapshot_ok:
  assumes "journal_inv cd j"
  shows "verify_snapshot cd (snapshot j) = Ok ()"
proof -
  have ok: "artifacts_ok cd (j_artifacts j)" using assms by (simp add: journal_inv_def)
  have "request_hash cd v = Ok h" if "(h, v) \<in> set (j_artifacts j)" for h v
  proof -
    have "map_of (j_artifacts j) h = Some v"
      using that ok by (simp add: artifacts_ok_def bt_inv_distinct)
    then show ?thesis using ok by (fastforce simp: artifacts_ok_def request_hash_def)
  qed
  then have "check_artifacts cd (j_artifacts j) = Ok ()" by (intro check_artifacts_ok) auto
  moreover have "check_references (j_artifacts j) (j_events j) = Ok ()"
    using assms by (intro check_references_ok) (simp add: journal_inv_def)
  ultimately show ?thesis
    using snapshot_from_snapshot [OF assms] by (simp add: verify_snapshot_def) (simp add: snapshot_def)
qed

lemma compare_events_iff: "length as = length bs \<Longrightarrow> compare_events as bs = Ok () \<longleftrightarrow> as = bs"
  by (induction as bs rule: compare_events.induct) auto

lemma check_envelope_refl [simp]: "check_envelope a a = Ok ()"
  by (simp add: check_envelope_def envelope_divergence_def manifest_divergence_def split: option.splits)

definition same_evidence :: "journal_snapshot \<Rightarrow> journal_snapshot \<Rightarrow> bool" where
  "same_evidence a b \<longleftrightarrow> js_run_id a = js_run_id b \<and> js_thread_id a = js_thread_id b \<and> js_events a = js_events b \<and>
     js_artifacts a = js_artifacts b \<and> js_head_hash a = js_head_hash b"

text \<open>
  C22: the final check of a replay accepts exactly the recorded evidence.  It passes if and only
  if every recorded effect was served, the replayed journal has the identity, the events, the
  artifacts and the head hash of the recorded one, and the recorded journal declares its
  configuration at most once and readably.  The separate comparison of the declared
  configurations can only name a field earlier; it rejects nothing else.
\<close>

theorem verify_accepts_exactly:
  "verify decode src recorded replayed = Ok () \<longleftrightarrow>
     is_exhausted src \<and> same_evidence recorded replayed \<and> is_ok (snapshot_declaration decode recorded)"
proof (cases "same_evidence recorded replayed")
  case True
  then have "snapshot_declaration decode replayed = snapshot_declaration decode recorded"
    by (simp add: snapshot_declaration_def same_evidence_def)
  then show ?thesis
    using True compare_events_iff [of "js_events recorded" "js_events replayed"]
    by (cases "snapshot_declaration decode recorded") (auto simp: verify_def same_evidence_def)
next
  case False
  then show ?thesis
    using compare_events_iff [of "js_events recorded" "js_events replayed"]
    by (auto simp: verify_def same_evidence_def split: if_splits)
qed

text \<open>
  C6: exact replay reproduces a run.  Take any client that reads no error text and makes
  only requests that serialize, a world whose tools pass no gates and do not panic, and a logical
  clock; the hash is assumed free of collisions.  The journal of its live run is
  accepted for replay; re-driven from that journal alone, in a fresh journal with the same clock,
  the client ends with the same result, has been served every recorded effect, and has written
  the same journal, down to time stamps and head hash.  The final check then objects to nothing
  but a journal that declares its configuration twice or unreadably.
\<close>

theorem exact_replay:
  assumes "codec_total cd" "collision_free cd" "plain_world cc lw" "replayable cd cc c"
    "run_live cd cc lw c 0 (journal_new cd run thread (LogicalClock start tick)) = (r, J)"
  shows "\<exists>src src'. exact_replay_new cd (snapshot J) = Ok src \<and>
    run_replayed cd cc readings c 0 (src, fresh_journal cd (snapshot J) (LogicalClock start tick)) = (r, src', J) \<and>
    verify decode src' (snapshot J) (snapshot J) = rbind (snapshot_declaration decode (snapshot J)) (\<lambda>_. Ok ())"
proof -
  let ?j = "journal_new cd run thread (LogicalClock start tick)"
  have g: "grows cd ?j J"
    using live_grows [OF assms(1,3,4), of ?j 0] assms(5) by simp
  then have q: "list_all quiet (j_events J)" and inv: "journal_inv cd J" and
      ids: "j_run_id J = run" "j_thread_id J = thread"
    by (auto simp: grows_def journal_new_def [of cd run] journal_inv_new [unfolded journal_new_def])
  have start: "source_new (snapshot J) = source_at J ?j"
    by (simp add: source_at_def source_new_def journal_new_def split_beta)
  have fresh: "fresh_journal cd (snapshot J) (LogicalClock start tick) = ?j"
    by (simp add: fresh_journal_def snapshot_def ids)
  have "\<not> list_ex (\<lambda>e. ev_kind e = KResume) (js_events (snapshot J))"
    using q by (auto simp: snapshot_def list_ex_iff list_all_iff quiet_def)
  then have "exact_replay_new cd (snapshot J) = Ok (source_at J ?j)"
    using verify_snapshot_ok [OF inv] by (simp add: exact_replay_new_def start source_at_fields(3) [OF q] Let_def)
  moreover have "run_replayed cd cc readings c 0 (source_at J ?j, ?j) = (r, source_at J J, J)"
    by (rule replay_follows [OF assms(1-3) q assms(4) _ journal_inv_new assms(5)]) (simp add: logical_def journal_new_def)
  moreover have "verify decode (source_at J J) (snapshot J) (snapshot J) =
      rbind (snapshot_declaration decode (snapshot J)) (\<lambda>_. Ok ())"
    using compare_events_iff [of "j_events J" "j_events J"]
    by (cases "snapshot_declaration decode (snapshot J)")
       (simp_all add: verify_def is_exhausted_def source_at_fields [OF q], simp add: snapshot_def)
  ultimately show ?thesis using fresh by auto
qed

section \<open>A replayed run, and runs that replay cannot reproduce\<close>

definition read_handle :: tool_handle where
  "read_handle = \<lparr> th_parent = ''r:0'', th_node = Some ''tools'', th_name = ''t'', th_effect = ReadOnly \<rparr>"

definition ask_handle :: model_handle where
  "ask_handle = \<lparr> mh_parent = ''r:0'', mh_node = Some ''agent'', mh_effect = ReadOnly, mh_pricing = None,
     mh_capture_chunks = False \<rparr>"

definition done_response :: chat_response where
  "done_response = \<lparr> rs_message = system_message ''done'', rs_model = None, rs_usage = None \<rparr>"

definition demo_chat_codec :: chat_codec where
  "demo_chat_codec = \<lparr> cc_print = (\<lambda>_. []), cc_message = (\<lambda>_. Some (system_message ''done'')), cc_usage = (\<lambda>_. None) \<rparr>"

definition read_request :: json where
  "read_request = tool_request ''t'' JNull"

definition ask_request :: "string \<Rightarrow> json" where
  "ask_request content = model_call_request demo_chat_codec None [tool_result ''c1'' content] []"

definition demo_text :: "rusty_error \<Rightarrow> string" where
  "demo_text e = (case e of Tool s \<Rightarrow> ''tool error: '' @ s | _ \<Rightarrow> ''error'')"

definition demo_world :: "gate_ask list \<Rightarrow> call_result \<Rightarrow> live_world" where
  "demo_world asks answer = \<lparr> lw_chat = (\<lambda>_ _ _. Ok done_response), lw_tool = (\<lambda>_ _ _. (asks, answer)),
     lw_error_text = demo_text, lw_readings = (\<lambda>_. (0, 0)) \<rparr>"

text \<open>A turn of an agent: read with a tool, show the result to the model, and say whether it answered.\<close>

definition agent_turn :: "(call_result \<Rightarrow> string) \<Rightarrow> bool client" where
  "agent_turn show_result = Note (draft_new KNodeInput Pure) (\<lambda>_. AskTool read_handle JNull (\<lambda>a.
     AskModel ask_handle None [tool_result ''c1'' (show_result a)] [] (\<lambda>b. Finish (is_ok b))))"

definition replay_codec :: codec where
  "replay_codec = \<lparr> sha256_hex = (\<lambda>s. s), ser_event = (\<lambda>e. Some ''e''),
     ser_value = (\<lambda>v. if v = read_request then Some ''1'' else if v = ask_request ''ok'' then Some ''2'' else None),
     wall = (\<lambda>n. n), representable = (\<lambda>n. True) \<rparr>"

lemma kinds_record [simp]: "map ev_kind (j_events (snd (record_event cd d j))) = map ev_kind (j_events j) @ [d_kind d]"
  by (rule record_event_cases [of cd j d]) simp

lemma kinds_calls:
  "d_kind (outcome_draft cc err mh n req res) = KModelCall" "d_kind (tool_draft err th n args out) = KToolCall"
  by (cases res; simp add: outcome_draft_def draft_new_def Let_def)
     (cases out; simp add: tool_draft_def draft_new_def Let_def)

theorem exact_replay_witness:
  "let (r, J) = run_live replay_codec demo_chat_codec (demo_world [] (CallOk JNull)) (agent_turn (\<lambda>_. ''ok'')) 0
         (journal_new replay_codec ''r'' ''t'' (LogicalClock 0 10))
   in r \<and> map ev_kind (j_events J) = [KNodeInput, KToolCall, KModelCall] \<and>
      (\<exists>src src'. exact_replay_new replay_codec (snapshot J) = Ok src \<and>
         run_replayed replay_codec demo_chat_codec (\<lambda>_. (7, 7)) (agent_turn (\<lambda>_. ''ok'')) 0
           (src, fresh_journal replay_codec (snapshot J) (LogicalClock 0 10)) = (r, src', J) \<and>
         verify (\<lambda>_. None) src' (snapshot J) (snapshot J) = Ok ())"
proof -
  let ?live = "run_live replay_codec demo_chat_codec (demo_world [] (CallOk JNull)) (agent_turn (\<lambda>_. ''ok'')) 0
      (journal_new replay_codec ''r'' ''t'' (LogicalClock 0 10))"
  obtain r J where l: "?live = (r, J)" by (metis surj_pair)
  have "fst ?live \<and> map ev_kind (j_events (snd ?live)) = [KNodeInput, KToolCall, KModelCall]"
    by (simp add: agent_turn_def split_beta recording_tool_eq recording_chat_eq demo_world_def kinds_calls
        at_record_grows(2)) (simp add: journal_new_def draft_new_def)
  then have run: "r" "map ev_kind (j_events J) = [KNodeInput, KToolCall, KModelCall]" using l by simp_all
  then have none: "snapshot_declaration (\<lambda>_. None) (snapshot J) = Ok None"
    by (auto simp: snapshot_declaration_def snapshot_def)
  have cd: "codec_total replay_codec" "collision_free replay_codec"
    by (auto simp: codec_total_def collision_free_def replay_codec_def split: if_splits)
  have world: "plain_world demo_chat_codec (demo_world [] (CallOk JNull))"
    by (simp add: plain_world_def demo_world_def reads_back_def demo_chat_codec_def done_response_def)
  have "replayable replay_codec demo_chat_codec (agent_turn (\<lambda>_. ''ok''))"
    by (simp add: agent_turn_def own_event_def draft_new_def is_servable_def SERVABLE_KINDS_def is_nested_def
        NESTED_EVIDENCE_KINDS_def replay_codec_def read_request_def ask_request_def read_handle_def)
  from exact_replay [OF cd world this l, of "\<lambda>_. (7, 7)" "\<lambda>_. None"] none
  show ?thesis using l run by simp
qed

text \<open>
  A failed call is served with its recorded text inside a new one.  An agent that shows tool
  errors to its model therefore issues a different request, and its replay diverges.
\<close>

definition shown :: "call_result \<Rightarrow> string" where
  "shown a = (case a of CallErr e \<Rightarrow> ''ERROR: '' @ demo_text e | _ \<Rightarrow> ''ok'')"

definition distinct_codec :: codec where
  "distinct_codec = replay_codec \<lparr> ser_value := (\<lambda>v. if v = read_request then Some ''1''
     else if v = ask_request ''ERROR: tool error: boom'' then Some ''2'' else Some ''3'') \<rparr>"

lemma failed_call_diverges:
  "let j = journal_new distinct_codec ''r'' ''t'' SystemClock;
       (r, J) = run_live distinct_codec demo_chat_codec (demo_world [] (CallErr (Tool ''boom''))) (agent_turn shown) 0 j
   in r \<and> \<not> fst (run_replayed distinct_codec demo_chat_codec (\<lambda>_. (0, 0)) (agent_turn shown) 0
        (source_new (snapshot J), j))"
  by code_simp

text \<open>A panic leaves no record, so the replayed call finds nothing, or the next call, to serve.\<close>

lemma panicking_call_not_served:
  "let j = journal_new distinct_codec ''r'' ''t'' SystemClock;
       (a, J) = recording_tool distinct_codec demo_text read_handle JNull (0, 0) [] (CallPanic None) j
   in fst (replaying_tool distinct_codec ''r:0'' ''t'' JNull (0, 0) (source_new (snapshot J), j)) =
        Err (Replay (ReplayExhausted ''tool_call'' ''1''))"
  by code_simp

text \<open>
  The recording wrapper reads the clock before the gate inside the call, the replaying wrapper
  after it: with a ticking clock the replayed gate evidence carries other time stamps.
\<close>

lemma times_record [simp]:
  "map ev_recorded_at (j_events (snd (record_event cd d j))) =
     map ev_recorded_at (j_events j) @ [fst (clock_now cd (wall cd (length (j_events j))) (j_clock j))]"
  by (simp add: record_event_def Let_def split_beta)

lemma times_now [simp]:
  "j_events (snd (journal_now cd t j)) = j_events j" "j_clock (snd (journal_now cd t j)) = snd (clock_now cd t (j_clock j))"
  by (simp_all add: journal_now_def split_beta)

lemma gate_evidence_shifts:
  assumes "\<And>t. representable cd t" "se_nested s = [asked, decided]"
  shows "let j = journal_new cd run thread (LogicalClock 0 10) in
    map ev_recorded_at (j_events (snd (recording_tool cd err h args r [ask] (CallOk v) j))) = [10, 20, 40] \<and>
    map ev_recorded_at (j_events (rejournal_served cd parent r s j)) = [0, 10, 40]"
proof -
  have c: "clock_now cd t (LogicalClock n 10) = (n, LogicalClock (n + 10) 10)" if "n \<le> 100" for t n
    using that assms(1) by (simp add: clock_now_def Let_def min_def)
  show ?thesis
    by (simp add: Let_def split_beta recording_tool_def gate_decide_def rejournal_served_def rejournal_def
        rejournal_recorded_def assms(2) record_event_clock c) (simp add: journal_new_def c)
qed

lemma stream_without_capture:
  "\<not> mh_capture_chunks h \<Longrightarrow> recording_chat_stream cd cc err h params messages tools readings chunks res j =
     recording_chat cd cc err h params messages tools readings res j"
  by (simp add: recording_chat_stream_def recording_chat_def Let_def split_beta split: sum.splits)

text \<open>Captured chunks are events that replay neither serves nor derives, so such a journal never verifies.\<close>

lemma captured_stream_not_reproduced:
  "let cd = distinct_codec; j = journal_new cd ''r'' ''t'' SystemClock;
       h = ask_handle \<lparr> mh_capture_chunks := True \<rparr>;
       J = snd (recording_chat_stream cd demo_chat_codec demo_text h None [] [] (0, 0)
         [\<lparr> tk_delta = ''done'', tk_finish = True \<rparr>] (Ok done_response) j);
       (a, src, J') = replaying_chat cd demo_chat_codec ''r:0'' None [] [] (0, 0) (source_new (snapshot J), j)
   in a = Ok done_response \<and>
      verify (\<lambda>_. None) src (snapshot J) (snapshot J') = Err (Replay (EventCountMismatch 2 1))"
  by code_simp

text \<open>A shadow run is served the recorded failure of a call as its successful result.\<close>

lemma shadow_serves_failure_as_result:
  "let cd = distinct_codec; j = journal_new cd ''r'' ''t'' SystemClock;
       J = snd (recording_tool cd demo_text read_handle JNull (0, 0) [] (CallErr (Tool ''boom'')) j)
   in fst (shadow_serve cd ''t'' read_request (shadow_source_new cd (snapshot J))) =
        Some (error_payload demo_text (Tool ''boom''))"
  by code_simp

end
