(* ===== verification/Replay_Order.thy ===== *)
theory Replay_Order
  imports Exact_Replay
begin

text \<open>
  Two facts about recorded journals that need no run: a replay source hands out the recorded
  effects in their order and each only for its own request, and the diff of two journals cuts
  both at the first difference.
\<close>

section \<open>What a source serves\<close>

fun serve_all ::
    "codec \<Rightarrow> (run_event_kind \<times> json) list \<Rightarrow> replay_source \<Rightarrow> (rusty_error + served_effect) list \<times> replay_source" where
  "serve_all cd [] src = ([], src)"
| "serve_all cd ((kind, request) # qs) src =
     (let (a, src1) = serve cd kind request src; (as, src2) = serve_all cd qs src1 in (a # as, src2))"

definition served :: "(rusty_error + served_effect) list \<Rightarrow> run_event list" where
  "served as = List.map_filter (\<lambda>a. case a of Inl _ \<Rightarrow> None | Inr s \<Rightarrow> Some (se_event s)) as"

lemma served_simps [simp]:
  "served [] = []" "served (Inl e # as) = served as" "served (Inr s # as) = se_event s # served as"
  by (simp_all add: served_def List.map_filter_def)

text \<open>
  The answer to a request is faithful when it is the record of a call of that kind whose request
  has the same hash, with the recorded response.
\<close>

definition faithful :: "codec \<Rightarrow> (string \<times> json) list \<Rightarrow> run_event_kind \<times> json \<Rightarrow> rusty_error + served_effect \<Rightarrow> bool" where
  "faithful cd artifacts q a =
     (case a of
        Inl _ \<Rightarrow> True
      | Inr s \<Rightarrow> ev_kind (se_event s) = fst q \<and> is_servable (fst q) \<and>
          se_input s = resolve_opt artifacts (ev_input (se_event s)) \<and>
          se_output s = resolve_opt artifacts (ev_output (se_event s)) \<and>
          (\<exists>input bytes bytes'. se_input s = Some input \<and> ser_value cd (snd q) = Some bytes \<and>
             ser_value cd input = Some bytes' \<and> sha256_hex cd bytes = sha256_hex cd bytes'))"

lemma serve_cases:
  obtains (refused) e where "serve cd kind request src = (Err e, src)"
  | (answered) s where "serve cd kind request src = (Ok s, src \<lparr> sc_cursor := Suc (sc_cursor src) \<rparr>)"
      "sc_cursor src < length (sc_servable src)" "se_event s = sc_servable src ! sc_cursor src"
      "faithful cd (sc_artifacts src) (kind, request) (Ok s)"
proof (cases "\<exists>e. serve cd kind request src = (Err e, src)")
  case False
  let ?e = "sc_servable src ! sc_cursor src"
  have k: "is_servable kind" using False by (simp add: serve_def split: if_splits)
  obtain b where b: "ser_value cd request = Some b"
    using False k by (cases "ser_value cd request") (simp_all add: serve_def request_hash_def)
  have lt: "sc_cursor src < length (sc_servable src)"
    by (rule ccontr) (use False k b in \<open>simp add: serve_def request_hash_def\<close>)
  have kind: "ev_kind ?e = kind"
    by (rule ccontr) (use False k b lt in \<open>simp add: serve_def request_hash_def Let_def\<close>)
  obtain input where input: "resolve_opt (sc_artifacts src) (ev_input ?e) = Some input"
    using False k b lt kind by (cases "resolve_opt (sc_artifacts src) (ev_input ?e)") (auto simp: serve_def request_hash_def Let_def)
  obtain b' where b': "ser_value cd input = Some b'"
    using False k b lt kind input by (cases "ser_value cd input") (auto simp: serve_def request_hash_def Let_def)
  have hash: "sha256_hex cd b' = sha256_hex cd b"
    by (rule ccontr) (use False k b lt kind input b' in \<open>simp add: serve_def request_hash_def Let_def\<close>)
  show thesis
    using k b lt kind input b' hash
    by (intro answered [of "ServedEffect ?e (Some input) (resolve_opt (sc_artifacts src) (ev_output ?e))
        (map (serve_nested (sc_artifacts src)) (sc_nested src ! sc_cursor src))"])
      (simp_all add: serve_def request_hash_def Let_def faithful_def)
qed (use refused in blast)

text \<open>
  C13: replay never improvises.  Whatever a run asks of a replay source, and however often it asks
  wrongly in between, the events it is served are the next recorded effects in their order with
  none skipped or repeated; every answer is the record of a call of the same kind whose request
  hashes to the same value, with the recorded response; a refusal moves nothing.
\<close>

theorem served_in_order:
  "let (as, src') = serve_all cd qs src; es = served as in
     es = take (length es) (drop (sc_cursor src) (sc_servable src)) \<and>
     src' = src \<lparr> sc_cursor := sc_cursor src + length es \<rparr> \<and>
     list_all2 (faithful cd (sc_artifacts src)) qs as"
proof (induction qs arbitrary: src)
  case (Cons q qs)
  obtain kind request where q: "q = (kind, request)" by force
  show ?case
  proof (rule serve_cases [of cd kind request src])
    fix e assume "serve cd kind request src = (Err e, src)"
    then show ?thesis using Cons [of src] by (simp add: q split_beta Let_def faithful_def)
  next
    fix s
    let ?src = "src \<lparr> sc_cursor := Suc (sc_cursor src) \<rparr>"
    assume s: "serve cd kind request src = (Ok s, ?src)" "sc_cursor src < length (sc_servable src)"
      "se_event s = sc_servable src ! sc_cursor src" "faithful cd (sc_artifacts src) (kind, request) (Ok s)"
    have "drop (sc_cursor src) (sc_servable src) = se_event s # drop (Suc (sc_cursor src)) (sc_servable src)"
      using s(2,3) by (simp add: Cons_nth_drop_Suc)
    then show ?thesis using s(1,4) Cons [of ?src] by (simp add: q split_beta Let_def)
  qed
qed simp

section \<open>Where two journals part\<close>

definition in_sequence :: "journal_snapshot \<Rightarrow> bool" where
  "in_sequence snap \<longleftrightarrow> map ev_seq (js_events snap) = [0..<length (js_events snap)]"

lemma since_is_drop:
  assumes "map ev_seq es = [0..<length es]"
  shows "filter (\<lambda>e. n \<le> ev_seq e) es = drop n es"
  using assms
proof (induction es rule: rev_induct)
  case (snoc e es)
  then show ?case by simp
qed simp

definition agree_upto :: "journal_snapshot \<Rightarrow> journal_snapshot \<Rightarrow> nat \<Rightarrow> bool" where
  "agree_upto base branch n \<longleftrightarrow> n \<le> length (js_events base) \<and> n \<le> length (js_events branch) \<and>
     list_all2 (\<lambda>a b. logically_equal a base b branch) (take n (js_events base)) (take n (js_events branch))"

lemma agrees_at_iff:
  "\<not> diverges_at base branch i \<longleftrightarrow> i < length (js_events base) \<and> i < length (js_events branch) \<and>
     logically_equal (js_events base ! i) base (js_events branch ! i) branch"
  by (simp add: diverges_at_def nth_opt_def)

lemma agree_upto_iff:
  "agree_upto base branch n \<longleftrightarrow> (\<forall>i < n. \<not> diverges_at base branch i)"
proof (induction n)
  case (Suc n)
  have "agree_upto base branch (Suc n) \<longleftrightarrow> agree_upto base branch n \<and> \<not> diverges_at base branch n"
    unfolding agrees_at_iff agree_upto_def
    by (cases "n < length (js_events base) \<and> n < length (js_events branch)")
      (auto simp: take_Suc_conv_app_nth list_all2_append)
  then show ?case using Suc by (simp add: less_Suc_eq all_conj_distrib imp_disjL conj_commute del: not_less)
qed (simp add: agree_upto_def)

lemma divergence_position:
  assumes "in_sequence base" "in_sequence branch"
  shows "divergence_seq base branch =
    find (diverges_at base branch) [0..<max (length (js_events base)) (length (js_events branch))]"
proof -
  have seq: "ev_seq (js_events s ! i) = i" if "in_sequence s" "i < length (js_events s)" for s i
    using that unfolding in_sequence_def by (metis add_0 nth_map nth_upt)
  show ?thesis
    unfolding divergence_seq_def
    by (cases "find (diverges_at base branch) [0..<max (length (js_events base)) (length (js_events branch))]")
      (auto simp: nth_opt_def seq assms)
qed

text \<open>
  C25: the diff of two journals cuts both at their first difference.  For journals in sequence,
  no divergence point means the same number of events, pairwise logically equal, and nothing
  added or removed.  A divergence point is the length of the longest common part: before it the
  journals agree event by event, at it they do not, and what is removed and added is all the rest
  of the base and of the branch.
\<close>

theorem branch_diff_cuts:
  assumes "in_sequence base" "in_sequence branch"
  shows "case df_first_divergent_seq (diff_between base branch) of
      None \<Rightarrow> length (js_events base) = length (js_events branch) \<and>
        agree_upto base branch (length (js_events base)) \<and>
        df_removed (diff_between base branch) = [] \<and> df_added (diff_between base branch) = []
    | Some n \<Rightarrow> agree_upto base branch n \<and> \<not> agree_upto base branch (Suc n) \<and>
        n < max (length (js_events base)) (length (js_events branch)) \<and>
        df_removed (diff_between base branch) = drop n (js_events base) \<and>
        df_added (diff_between base branch) = drop n (js_events branch)"
proof -
  let ?m = "max (length (js_events base)) (length (js_events branch))"
  let ?f = "find (diverges_at base branch) [0..<?m]"
  have d: "divergence_seq base branch = ?f" by (rule divergence_position [OF assms])
  show ?thesis
  proof (cases ?f)
    case None
    then have all: "agree_upto base branch ?m" by (auto simp: find_None_iff agree_upto_iff)
    then have "length (js_events base) = length (js_events branch)" by (auto simp: agree_upto_def max_def split: if_splits)
    then show ?thesis using None d all by (simp add: diff_between_def Let_def)
  next
    case (Some n)
    then obtain i where i: "i < length [0..<?m]" "diverges_at base branch ([0..<?m] ! i)" "n = [0..<?m] ! i"
        "\<forall>j < i. \<not> diverges_at base branch ([0..<?m] ! j)"
      by (auto simp: find_Some_iff)
    then have "n = i" by simp
    then have n: "agree_upto base branch n" "\<not> agree_upto base branch (Suc n)" "n < ?m"
      using i by (auto simp: agree_upto_iff)
    then show ?thesis
      using Some d by (simp add: diff_between_def Let_def since_is_drop [OF assms(1) [unfolded in_sequence_def]]
          since_is_drop [OF assms(2) [unfolded in_sequence_def]])
  qed
qed

definition noted :: "nat \<Rightarrow> run_event_kind \<Rightarrow> run_event" where
  "noted n kind = \<lparr> ev_id = [], ev_run_id = [], ev_thread_id = [], ev_node_id = None, ev_seq = n, ev_kind = kind,
     ev_effect = Pure, ev_input = None, ev_output = None, ev_latency_ms = None, ev_tokens = None,
     ev_cost_usd = None, ev_status = StatusOk, ev_parent = None, ev_recorded_at = n \<rparr>"

definition noted_snapshot :: "run_event_kind list \<Rightarrow> journal_snapshot" where
  "noted_snapshot kinds = \<lparr> js_run_id = [], js_thread_id = [], js_events = map2 noted [0..<length kinds] kinds,
     js_artifacts = [], js_artifact_refs = [], js_head_hash = [] \<rparr>"

theorem branch_diff_cuts_witness:
  "let base = noted_snapshot [KNodeInput, KModelCall, KNodeOutput]; branch = noted_snapshot [KNodeInput, KToolCall]
   in divergence_seq base branch = Some 1 \<and> df_removed (diff_between base branch) = [noted 1 KModelCall, noted 2 KNodeOutput] \<and>
      df_added (diff_between base branch) = [noted 1 KToolCall]"
proof -
  let ?base = "noted_snapshot [KNodeInput, KModelCall, KNodeOutput]" and ?branch = "noted_snapshot [KNodeInput, KToolCall]"
  have seq: "in_sequence ?base" "in_sequence ?branch"
    by (simp_all add: in_sequence_def noted_snapshot_def noted_def upt_rec)
  have d: "divergence_seq ?base ?branch = Some 1"
    by (simp add: divergence_seq_def noted_snapshot_def noted_def diverges_at_def nth_opt_def logically_equal_def
        resolve_opt_def upt_rec)
  then have "df_first_divergent_seq (diff_between ?base ?branch) = Some 1" by (simp add: diff_between_def Let_def)
  then show ?thesis
    using branch_diff_cuts [OF seq] d by (simp add: noted_snapshot_def upt_rec numeral_2_eq_2)
qed

end
