(* ===== verification/Retry_Policy.thy ===== *)
theory Retry_Policy
  imports Agent_Graph F64
begin

text \<open>
  Retry and timeout decisions (durable.rs) and the executor policy whose numbers they read
  (record.rs): the backoff schedule, the three gates of a retry, the validation envelope of a
  policy, and the evidence a decision journals.  Milliseconds and attempts are natural numbers;
  the places where the code saturates or can wrap at 32 or 64 bits are written out.
\<close>

section \<open>Policies\<close>

abbreviation U64_MAX :: nat where "U64_MAX \<equiv> 2 ^ 64 - 1"

abbreviation U32_MAX :: nat where "U32_MAX \<equiv> 2 ^ 32 - 1"

definition POLICY_MAX_DELAY_ENVELOPE_MS :: nat where
  "POLICY_MAX_DELAY_ENVELOPE_MS = 3600000"

definition POLICY_MAX_ATTEMPTS_ENVELOPE :: nat where
  "POLICY_MAX_ATTEMPTS_ENVELOPE = 10"

definition MIN_TIMEOUT_RUNG_MS :: nat where
  "MIN_TIMEOUT_RUNG_MS = 100"

definition BASE_RETRY_DELAY_MS :: nat where
  "BASE_RETRY_DELAY_MS = 1000"

definition MAX_RETRY_DELAY_MS :: nat where
  "MAX_RETRY_DELAY_MS = 300000"

record backoff_parameters =
  base_delay_ms :: nat
  max_delay_ms :: nat
  max_attempts :: nat

record retry_policy_parameters =
  rp_base_delay_ms :: nat
  rp_max_delay_ms :: nat
  rp_max_attempts :: nat
  rp_per_class :: "(error_class \<times> backoff_parameters) list option"

record timeout_policy_parameters =
  tp_default_millis :: "nat option"
  tp_max_millis :: "nat option"
  tp_per_callee :: "(string \<times> nat) list option"

record executor_policy =
  ep_retry :: retry_policy_parameters
  ep_timeout :: timeout_policy_parameters
  ep_max_parallel :: "nat option"

abbreviation policy_err :: "policy_fault \<Rightarrow> rusty_error + 'a" where
  "policy_err f \<equiv> Err (InvalidUpdate (PolicyParameters f))"

definition map_err :: "('e \<Rightarrow> 'f) \<Rightarrow> 'e + 'a \<Rightarrow> 'f + 'a" where
  "map_err f r = (case r of Inl e \<Rightarrow> Inl (f e) | Inr x \<Rightarrow> Inr x)"

lemma map_err_simps [simp]: "map_err f (Inl e) = Inl (f e)" "map_err f (Inr x) = Inr x"
  by (simp_all add: map_err_def)

lemma map_err_Inr_iff [simp]: "map_err f r = Inr x \<longleftrightarrow> r = Inr x"
  by (cases r) auto

definition backoff_validate :: "backoff_parameters \<Rightarrow> rusty_error + unit" where
  "backoff_validate b =
     (if base_delay_ms b = 0 then policy_err ZeroBase
      else if base_delay_ms b > max_delay_ms b
      then policy_err (BaseAboveCap (base_delay_ms b) (max_delay_ms b))
      else if max_delay_ms b > POLICY_MAX_DELAY_ENVELOPE_MS
      then policy_err (CapBeyondEnvelope (max_delay_ms b))
      else if max_attempts b > POLICY_MAX_ATTEMPTS_ENVELOPE
      then policy_err (AttemptsBeyondEnvelope (max_attempts b))
      else Ok ())"

definition flat :: "retry_policy_parameters \<Rightarrow> backoff_parameters" where
  "flat r = \<lparr> base_delay_ms = rp_base_delay_ms r, max_delay_ms = rp_max_delay_ms r,
     max_attempts = rp_max_attempts r \<rparr>"

fun validate_each :: "('a \<Rightarrow> rusty_error + unit) \<Rightarrow> 'a list \<Rightarrow> rusty_error + unit" where
  "validate_each f [] = Ok ()"
| "validate_each f (x # xs) = rbind (f x) (\<lambda>_. validate_each f xs)"

definition retry_validate :: "retry_policy_parameters \<Rightarrow> rusty_error + unit" where
  "retry_validate r =
     rbind (backoff_validate (flat r)) (\<lambda>_.
       case rp_per_class r of
         None \<Rightarrow> Ok ()
       | Some table \<Rightarrow>
           validate_each (\<lambda>(class, schedule).
             map_err (\<lambda>e. InvalidUpdate (PolicyParameters (PerClassFault class e)))
               (backoff_validate schedule)) table)"

definition check_floor :: "string \<Rightarrow> nat \<Rightarrow> rusty_error + unit" where
  "check_floor what millis =
     (if millis < MIN_TIMEOUT_RUNG_MS then policy_err (BelowMinimumRung what millis) else Ok ())"

definition check_callee :: "nat option \<Rightarrow> string \<times> nat \<Rightarrow> rusty_error + unit" where
  "check_callee limit entry =
     (case entry of (callee, millis) \<Rightarrow>
        rbind (check_floor (''per_callee['' @ callee @ '']'') millis) (\<lambda>_.
          case limit of
            None \<Rightarrow> Ok ()
          | Some m \<Rightarrow> if millis > m then policy_err (CalleeAboveCeiling callee millis m) else Ok ()))"

definition timeout_validate :: "timeout_policy_parameters \<Rightarrow> rusty_error + unit" where
  "timeout_validate t =
     rbind (case tp_default_millis t of None \<Rightarrow> Ok () | Some d \<Rightarrow> check_floor ''default_millis'' d) (\<lambda>_.
     rbind (case tp_max_millis t of None \<Rightarrow> Ok () | Some m \<Rightarrow> check_floor ''max_millis'' m) (\<lambda>_.
     rbind (case (tp_default_millis t, tp_max_millis t) of
              (Some d, Some m) \<Rightarrow> if d > m then policy_err (DefaultAboveCeiling d m) else Ok ()
            | _ \<Rightarrow> Ok ()) (\<lambda>_.
       case tp_per_callee t of
         None \<Rightarrow> Ok ()
       | Some table \<Rightarrow> validate_each (check_callee (tp_max_millis t)) table)))"

definition static_v0 :: executor_policy where
  "static_v0 =
     \<lparr> ep_retry = \<lparr> rp_base_delay_ms = BASE_RETRY_DELAY_MS, rp_max_delay_ms = MAX_RETRY_DELAY_MS,
         rp_max_attempts = 3, rp_per_class = None \<rparr>,
       ep_timeout = \<lparr> tp_default_millis = None, tp_max_millis = None, tp_per_callee = None \<rparr>,
       ep_max_parallel = None \<rparr>"

definition is_static_floor :: "executor_policy \<Rightarrow> bool" where
  "is_static_floor p \<longleftrightarrow> p = static_v0"

definition policy_validate :: "executor_policy \<Rightarrow> rusty_error + unit" where
  "policy_validate p =
     rbind (retry_validate (ep_retry p)) (\<lambda>_.
     rbind (timeout_validate (ep_timeout p)) (\<lambda>_.
       if ep_max_parallel p = Some 0 then policy_err NoParallelWork else Ok ()))"

datatype decision_family =
    FamilyRetry | FamilyTimeout | FamilyWorkerPlacement | FamilyConcurrency | FamilyCheckpointPlacement

definition family_name :: "decision_family \<Rightarrow> string" where
  "family_name f = (case f of FamilyRetry \<Rightarrow> ''Retry'' | FamilyTimeout \<Rightarrow> ''Timeout''
     | FamilyWorkerPlacement \<Rightarrow> ''WorkerPlacement'' | FamilyConcurrency \<Rightarrow> ''Concurrency''
     | FamilyCheckpointPlacement \<Rightarrow> ''CheckpointPlacement'')"

text \<open>
  The deserializers serde derives for the parameter types are parameters of the overlay: each
  either rejects a JSON value or yields the parameters it spells.
\<close>

record parameter_parsers =
  parse_retry :: "json \<Rightarrow> retry_policy_parameters option"
  parse_timeout :: "json \<Rightarrow> timeout_policy_parameters option"
  parse_concurrency :: "json \<Rightarrow> nat option option"

definition parsed :: "string \<Rightarrow> 'a option \<Rightarrow> rusty_error + 'a" where
  "parsed family r = (case r of None \<Rightarrow> policy_err (ContractMismatch family) | Some x \<Rightarrow> Ok x)"

definition with_family_parameters ::
  "parameter_parsers \<Rightarrow> executor_policy \<Rightarrow> decision_family \<Rightarrow> json \<Rightarrow> rusty_error + executor_policy" where
  "with_family_parameters ps policy family parameters =
     (let outside = \<lambda>e. InvalidUpdate (PolicyParameters (OutsideEnvelope (family_name family) e)) in
      case family of
        FamilyRetry \<Rightarrow>
          rbind (parsed ''retry'' (parse_retry ps parameters)) (\<lambda>r.
          rbind (map_err outside (retry_validate r)) (\<lambda>_. Ok (policy \<lparr> ep_retry := r \<rparr>)))
      | FamilyTimeout \<Rightarrow>
          rbind (parsed ''timeout'' (parse_timeout ps parameters)) (\<lambda>t.
          rbind (map_err outside (timeout_validate t)) (\<lambda>_. Ok (policy \<lparr> ep_timeout := t \<rparr>)))
      | FamilyConcurrency \<Rightarrow>
          rbind (parsed ''concurrency'' (parse_concurrency ps parameters)) (\<lambda>c.
            if c = Some 0 then policy_err NoParallelWork else Ok (policy \<lparr> ep_max_parallel := c \<rparr>))
      | other \<Rightarrow> policy_err (NoParameterContract (family_name other)))"

section \<open>Retry\<close>

definition is_retryable :: "error_class \<Rightarrow> bool" where
  "is_retryable c \<longleftrightarrow> (case c of InvalidInput \<Rightarrow> False | CancelledClass \<Rightarrow> False | _ \<Rightarrow> True)"

fun class_of_llm :: "llm_error_class \<Rightarrow> error_class" where
  "class_of_llm LlmRateLimited = RateLimited"
| "class_of_llm LlmTimeout = Timeout"
| "class_of_llm LlmServer = DependencyFailure"
| "class_of_llm LlmAuth = InvalidInput"
| "class_of_llm LlmInvalidRequest = InvalidInput"
| "class_of_llm LlmDecode = InvalidInput"
| "class_of_llm LlmUnknown = UnknownClass"

datatype retry_decision = Retry nat | Dead | Fail

definition saturating_mul :: "nat \<Rightarrow> nat \<Rightarrow> nat" where
  "saturating_mul a b = min (a * b) U64_MAX"

definition clamp_unit :: "f64 \<Rightarrow> f64" where
  "clamp_unit u = (if u < 0 then 0 else if 1 < u then 1 else u)"

definition backoff_delay_ms_with :: "nat \<Rightarrow> f64 \<Rightarrow> nat \<Rightarrow> nat \<Rightarrow> nat" where
  "backoff_delay_ms_with attempt uniform base_ms cap_ms =
     (let doublings = min (attempt - 1) 20;
          exponential = min (saturating_mul base_ms (2 ^ doublings)) cap_ms
      in f64_to_u64 (f64_mul (clamp_unit uniform) (f64_of_nat exponential)))"

definition backoff_delay_ms :: "nat \<Rightarrow> f64 \<Rightarrow> nat" where
  "backoff_delay_ms attempt uniform =
     backoff_delay_ms_with attempt uniform BASE_RETRY_DELAY_MS MAX_RETRY_DELAY_MS"

definition floor_parameters :: "nat \<Rightarrow> backoff_parameters" where
  "floor_parameters attempts = \<lparr> base_delay_ms = BASE_RETRY_DELAY_MS,
     max_delay_ms = MAX_RETRY_DELAY_MS, max_attempts = attempts \<rparr>"

definition resolve_retry_parameters :: "executor_policy \<Rightarrow> error_class \<Rightarrow> nat \<Rightarrow> backoff_parameters" where
  "resolve_retry_parameters policy class task_max_attempts =
     (let retry = ep_retry policy in
      case retry_validate retry of
        Inl _ \<Rightarrow> floor_parameters task_max_attempts
      | Inr _ \<Rightarrow>
          (let flat_learned = (flat retry \<noteq> flat (ep_retry static_v0));
               entry = Option.bind (rp_per_class retry) (\<lambda>table. map_of table class)
           in case entry of
                Some schedule \<Rightarrow>
                  schedule \<lparr> max_attempts := min (max_attempts schedule) task_max_attempts \<rparr>
              | None \<Rightarrow>
                  if flat_learned
                  then (flat retry) \<lparr> max_attempts := min (rp_max_attempts retry) task_max_attempts \<rparr>
                  else floor_parameters task_max_attempts))"

definition classify_retry_with_policy ::
  "effect \<Rightarrow> error_class \<Rightarrow> nat \<Rightarrow> backoff_parameters \<Rightarrow> f64 \<Rightarrow> retry_decision" where
  "classify_retry_with_policy eff class attempt resolved uniform =
     (if \<not> is_freely_repeatable eff \<or> \<not> is_retryable class then Fail
      else if attempt \<ge> max_attempts resolved then Dead
      else Retry (backoff_delay_ms_with attempt uniform (base_delay_ms resolved) (max_delay_ms resolved)))"

definition classify_retry :: "effect \<Rightarrow> error_class \<Rightarrow> nat \<Rightarrow> nat \<Rightarrow> f64 \<Rightarrow> retry_decision" where
  "classify_retry eff class attempt attempts uniform =
     classify_retry_with_policy eff class attempt (floor_parameters attempts) uniform"

section \<open>The evidence of a decision\<close>

datatype decision_action =
    ActRetry nat | ActAbort | ActSetTimeout nat | ActSelectWorker string | ActSetConcurrency nat
  | ActWriteCheckpoint | ActSkipCheckpoint

datatype decision_outcome = OutSuccess | OutFailure | OutCancelled

definition add_u32 :: "nat \<Rightarrow> nat \<Rightarrow> nat" where
  "add_u32 a b = (a + b) mod 2 ^ 32"

definition retry_legal_actions :: "effect \<Rightarrow> error_class \<Rightarrow> nat \<Rightarrow> nat \<Rightarrow> decision_action list" where
  "retry_legal_actions eff class attempt attempts =
     (if is_freely_repeatable eff \<and> is_retryable class \<and> attempt < attempts
      then [ActRetry (add_u32 attempt 1), ActAbort]
      else [ActAbort])"

definition retry_selected_action :: "retry_decision \<Rightarrow> nat \<Rightarrow> decision_action" where
  "retry_selected_action decision attempt =
     (case decision of Retry _ \<Rightarrow> ActRetry (add_u32 attempt 1) | Dead \<Rightarrow> ActAbort | Fail \<Rightarrow> ActAbort)"

record decision_event =
  de_id :: string
  de_run_id :: string
  de_thread_id :: string
  de_seq :: nat
  de_family :: decision_family
  de_features :: "(string \<times> json) list"
  de_legal_actions :: "decision_action list"
  de_selected :: decision_action
  de_propensity :: f64
  de_policy_version :: string
  de_outcome :: "decision_outcome option"
  de_decided_at :: nat

fun class_str :: "error_class \<Rightarrow> string" where
  "class_str Transient = ''transient''"
| "class_str RateLimited = ''rate_limited''"
| "class_str Timeout = ''timeout''"
| "class_str InvalidInput = ''invalid_input''"
| "class_str DependencyFailure = ''dependency_failure''"
| "class_str ResourceExhausted = ''resource_exhausted''"
| "class_str CancelledClass = ''cancelled''"
| "class_str UnknownClass = ''unknown''"

fun effect_str :: "effect \<Rightarrow> string" where
  "effect_str Pure = ''pure''"
| "effect_str ReadOnly = ''read_only''"
| "effect_str Idempotent = ''idempotent''"
| "effect_str Compensatable = ''compensatable''"
| "effect_str NonIdempotent = ''non_idempotent''"

abbreviation jnat :: "nat \<Rightarrow> json" where "jnat n \<equiv> JNumber (PosInt n)"

definition opt_entry :: "string \<Rightarrow> json option \<Rightarrow> (string \<times> json) list \<Rightarrow> (string \<times> json) list" where
  "opt_entry k v m = (case v of None \<Rightarrow> m | Some x \<Rightarrow> bt_insert k x m)"

definition retry_decision_event ::
  "string \<Rightarrow> string \<Rightarrow> nat \<Rightarrow> effect \<Rightarrow> error_class \<Rightarrow> nat \<Rightarrow> nat \<Rightarrow> nat option \<Rightarrow> retry_decision \<Rightarrow>
   string \<Rightarrow> nat \<Rightarrow> decision_event" where
  "retry_decision_event rid tid seq eff class attempt attempts latency decision version decided =
     \<lparr> de_id = rid @ '':d'' @ show_nat seq, de_run_id = rid, de_thread_id = tid, de_seq = seq,
       de_family = FamilyRetry,
       de_features =
         opt_entry ''dependency_latency_ms'' (map_option jnat latency)
           (bt_insert ''effect'' (JString (effect_str eff))
             (bt_insert ''max_attempts'' (jnat attempts)
               (bt_insert ''attempt'' (jnat attempt)
                 (bt_insert ''failure_class'' (JString (class_str class)) [])))),
       de_legal_actions = retry_legal_actions eff class attempt attempts,
       de_selected = retry_selected_action decision attempt,
       de_propensity = 1, de_policy_version = version,
       de_outcome = (case decision of Retry _ \<Rightarrow> None | _ \<Rightarrow> Some OutFailure),
       de_decided_at = decided \<rparr>"

section \<open>Timeouts\<close>

record latency_percentiles =
  p50_ms :: nat
  p95_ms :: nat
  p99_ms :: nat
  lp_samples :: nat

definition resolve_timeout_bound_ms :: "executor_policy \<Rightarrow> string option \<Rightarrow> nat option" where
  "resolve_timeout_bound_ms policy callee =
     (let timeout = ep_timeout policy in
      case timeout_validate timeout of
        Inl _ \<Rightarrow> None
      | Inr _ \<Rightarrow>
          (let entry = Option.bind callee (\<lambda>name.
                 Option.bind (tp_per_callee timeout) (\<lambda>table. map_of table name));
               bound = (case entry of Some b \<Rightarrow> Some b | None \<Rightarrow> tp_default_millis timeout)
           in map_option (\<lambda>b. min (max b MIN_TIMEOUT_RUNG_MS)
                (case tp_max_millis timeout of None \<Rightarrow> U64_MAX | Some m \<Rightarrow> m)) bound))"

definition timeout_legal_actions :: "nat list \<Rightarrow> decision_action list" where
  "timeout_legal_actions ladder = map ActSetTimeout ladder"

definition last_rung :: "nat list \<Rightarrow> nat option" where
  "last_rung ladder = (if ladder = [] then None else Some (last ladder))"

definition timeout_selected_action :: "nat option \<Rightarrow> nat list \<Rightarrow> decision_action" where
  "timeout_selected_action bound ladder =
     ActSetTimeout
       (case bound of
          Some b \<Rightarrow>
            (case find (\<lambda>rung. rung \<ge> b) ladder of
               Some rung \<Rightarrow> rung
             | None \<Rightarrow> (case last_rung ladder of Some rung \<Rightarrow> rung | None \<Rightarrow> b))
        | None \<Rightarrow> (case last_rung ladder of Some rung \<Rightarrow> rung | None \<Rightarrow> MIN_TIMEOUT_RUNG_MS))"

definition percentile_entries :: "latency_percentiles \<Rightarrow> (string \<times> json) list \<Rightarrow> (string \<times> json) list" where
  "percentile_entries p m =
     bt_insert ''latency_samples'' (jnat (lp_samples p))
       (bt_insert ''latency_p99_ms'' (jnat (p99_ms p))
         (bt_insert ''latency_p95_ms'' (jnat (p95_ms p))
           (bt_insert ''latency_p50_ms'' (jnat (p50_ms p)) m)))"

definition timeout_decision_event ::
  "string \<Rightarrow> string \<Rightarrow> nat \<Rightarrow> string option \<Rightarrow> effect \<Rightarrow> nat \<Rightarrow> latency_percentiles option \<Rightarrow> nat option \<Rightarrow>
   nat list \<Rightarrow> string \<Rightarrow> nat \<Rightarrow> decision_event" where
  "timeout_decision_event rid tid seq callee eff attempt percentiles bound ladder version decided =
     \<lparr> de_id = rid @ '':d'' @ show_nat seq, de_run_id = rid, de_thread_id = tid, de_seq = seq,
       de_family = FamilyTimeout,
       de_features =
         bt_insert ''bound_ms'' (case bound of Some b \<Rightarrow> jnat b | None \<Rightarrow> JNull)
           ((case percentiles of None \<Rightarrow> id | Some p \<Rightarrow> percentile_entries p)
             (bt_insert ''attempt'' (jnat attempt)
               (bt_insert ''effect'' (JString (effect_str eff))
                 (opt_entry ''callee'' (map_option JString callee) [])))),
       de_legal_actions = timeout_legal_actions ladder,
       de_selected = timeout_selected_action bound ladder,
       de_propensity = 1, de_policy_version = version, de_outcome = None, de_decided_at = decided \<rparr>"

section \<open>What validation guarantees\<close>

lemma validate_each_ok [simp]: "validate_each f xs = Inr () \<longleftrightarrow> (\<forall>x \<in> set xs. f x = Inr ())"
  by (induction xs) auto

lemma backoff_validate_iff:
  "backoff_validate b = Inr () \<longleftrightarrow> 0 < base_delay_ms b \<and> base_delay_ms b \<le> max_delay_ms b \<and>
     max_delay_ms b \<le> POLICY_MAX_DELAY_ENVELOPE_MS \<and> max_attempts b \<le> POLICY_MAX_ATTEMPTS_ENVELOPE"
  by (auto simp: backoff_validate_def)

lemma retry_validate_iff:
  "retry_validate r = Inr () \<longleftrightarrow> backoff_validate (flat r) = Inr () \<and>
     (\<forall>table. rp_per_class r = Some table \<longrightarrow> (\<forall>cs \<in> set table. backoff_validate (snd cs) = Inr ()))"
  by (auto simp: retry_validate_def split: option.splits)

lemma check_floor_iff [simp]: "check_floor w m = Inr () \<longleftrightarrow> MIN_TIMEOUT_RUNG_MS \<le> m"
  by (auto simp: check_floor_def)

lemma check_callee_iff [simp]:
  "check_callee limit (callee, m) = Inr () \<longleftrightarrow> MIN_TIMEOUT_RUNG_MS \<le> m \<and> (\<forall>c. limit = Some c \<longrightarrow> m \<le> c)"
  by (auto simp: check_callee_def split: option.splits if_splits)

lemma timeout_validate_iff:
  "timeout_validate t = Inr () \<longleftrightarrow>
     (\<forall>d. tp_default_millis t = Some d \<longrightarrow> MIN_TIMEOUT_RUNG_MS \<le> d \<and> (\<forall>m. tp_max_millis t = Some m \<longrightarrow> d \<le> m)) \<and>
     (\<forall>m. tp_max_millis t = Some m \<longrightarrow> MIN_TIMEOUT_RUNG_MS \<le> m) \<and>
     (\<forall>table. tp_per_callee t = Some table \<longrightarrow>
        (\<forall>(callee, b) \<in> set table. MIN_TIMEOUT_RUNG_MS \<le> b \<and> (\<forall>m. tp_max_millis t = Some m \<longrightarrow> b \<le> m)))"
  unfolding timeout_validate_def
  by (cases "tp_default_millis t"; cases "tp_max_millis t"; cases "tp_per_callee t") auto

lemma policy_validate_iff:
  "policy_validate p = Inr () \<longleftrightarrow> retry_validate (ep_retry p) = Inr () \<and>
     timeout_validate (ep_timeout p) = Inr () \<and> ep_max_parallel p \<noteq> Some 0"
  by (auto simp: policy_validate_def)

lemma unit_result_cases: "(\<exists>e. r = Inl e) \<or> r = Inr ()" for r :: "'e + unit"
  by (cases r) auto

section \<open>The backoff window\<close>

lemma clamp_unit_bounds: "0 \<le> clamp_unit u" "clamp_unit u \<le> 1"
  by (auto simp: clamp_unit_def)

lemma scaled_le:
  assumes "n < 2 ^ 53"
  shows "f64_to_u64 (f64_mul (clamp_unit u) (f64_of_nat n)) \<le> n"
proof -
  let ?x = "clamp_unit u * of_nat n"
  have x: "0 \<le> ?x" "?x \<le> of_nat n"
    using clamp_unit_bounds [of u] mult_right_mono [of "clamp_unit u" 1 "of_nat n :: rat"] by auto
  have "f64_round ?x \<le> of_nat n"
    using x f64_round_le_int [of ?x n] assms by (cases "?x = 0") (auto simp: f64_round_def)
  moreover have "f64_mul (clamp_unit u) (f64_of_nat n) = f64_round ?x"
    unfolding f64_mul_def f64_round_nat [OF assms] ..
  ultimately have "\<lfloor>f64_mul (clamp_unit u) (f64_of_nat n)\<rfloor> \<le> int n"
    by (simp add: floor_le_iff)
  then show ?thesis by (simp add: f64_to_u64_def min_le_iff_disj nat_le_iff)
qed

lemma backoff_within:
  assumes "cap < 2 ^ 53"
  shows "backoff_delay_ms_with attempt u base cap \<le> min (base * 2 ^ min (attempt - 1) 20) cap"
proof -
  let ?e = "min (saturating_mul base (2 ^ min (attempt - 1) 20)) cap"
  have "backoff_delay_ms_with attempt u base cap \<le> ?e"
    unfolding backoff_delay_ms_with_def Let_def using assms by (intro scaled_le) auto
  also have "?e \<le> min (base * 2 ^ min (attempt - 1) 20) cap"
    unfolding saturating_mul_def by (intro min.mono) auto
  finally show ?thesis .
qed

section \<open>What a learned policy can and cannot change\<close>

lemma resolved_valid:
  "base_delay_ms (resolve_retry_parameters p c n) \<le> max_delay_ms (resolve_retry_parameters p c n)"
  "max_delay_ms (resolve_retry_parameters p c n) \<le> POLICY_MAX_DELAY_ENVELOPE_MS"
  "max_attempts (resolve_retry_parameters p c n) \<le> n"
proof -
  let ?r = "resolve_retry_parameters p c n"
  have fl: "base_delay_ms (floor_parameters n) \<le> max_delay_ms (floor_parameters n)"
    "max_delay_ms (floor_parameters n) \<le> POLICY_MAX_DELAY_ENVELOPE_MS"
    by (simp_all add: floor_parameters_def BASE_RETRY_DELAY_MS_def MAX_RETRY_DELAY_MS_def POLICY_MAX_DELAY_ENVELOPE_MS_def)
  have "base_delay_ms ?r \<le> max_delay_ms ?r \<and> max_delay_ms ?r \<le> POLICY_MAX_DELAY_ENVELOPE_MS \<and> max_attempts ?r \<le> n"
  proof (cases "retry_validate (ep_retry p)")
    case (Inl e)
    then show ?thesis using fl by (simp add: resolve_retry_parameters_def floor_parameters_def)
  next
    case (Inr u)
    then have ok: "retry_validate (ep_retry p) = Inr ()" by simp
    have flat: "backoff_validate (flat (ep_retry p)) = Inr ()" using ok by (simp add: retry_validate_iff)
    show ?thesis
    proof (cases "Option.bind (rp_per_class (ep_retry p)) (\<lambda>table. map_of table c)")
      case None
      then show ?thesis using ok flat fl
        by (simp add: resolve_retry_parameters_def Let_def backoff_validate_iff floor_parameters_def)
    next
      case (Some sch)
      then obtain table where "rp_per_class (ep_retry p) = Some table" "(c, sch) \<in> set table"
        by (auto simp: bind_eq_Some_conv dest: map_of_SomeD)
      then have "backoff_validate sch = Inr ()" using ok by (force simp: retry_validate_iff)
      then show ?thesis using ok Some by (simp add: resolve_retry_parameters_def Let_def backoff_validate_iff)
    qed
  qed
  then show "base_delay_ms ?r \<le> max_delay_ms ?r" "max_delay_ms ?r \<le> POLICY_MAX_DELAY_ENVELOPE_MS" "max_attempts ?r \<le> n"
    by simp_all
qed

text \<open>
  C35: whatever the policy in force says, valid or not, a retry happens only for a freely
  repeatable effect and a retryable class, only while the sender's own attempt budget lasts,
  only where the static floor would have retried too, and its delay lies inside the doubling
  window of the resolved schedule, never past one hour.
\<close>

theorem policy_only_narrows_retries:
  assumes "classify_retry_with_policy eff cls attempt (resolve_retry_parameters policy cls task_max) u = Retry d"
  shows "is_freely_repeatable eff \<and> is_retryable cls \<and> attempt < task_max \<and>
    (\<exists>d'. classify_retry eff cls attempt task_max u = Retry d') \<and>
    d \<le> base_delay_ms (resolve_retry_parameters policy cls task_max) * 2 ^ min (attempt - 1) 20 \<and>
    d \<le> POLICY_MAX_DELAY_ENVELOPE_MS"
proof -
  let ?r = "resolve_retry_parameters policy cls task_max"
  have g: "is_freely_repeatable eff" "is_retryable cls" "attempt < max_attempts ?r"
    "d = backoff_delay_ms_with attempt u (base_delay_ms ?r) (max_delay_ms ?r)"
    using assms by (auto simp: classify_retry_with_policy_def split: if_splits)
  have "max_delay_ms ?r < 2 ^ 53"
    using resolved_valid(2) [of policy cls task_max] by (simp add: POLICY_MAX_DELAY_ENVELOPE_MS_def)
  from backoff_within [OF this, of attempt u "base_delay_ms ?r"]
  have "d \<le> base_delay_ms ?r * 2 ^ min (attempt - 1) 20" "d \<le> max_delay_ms ?r"
    using g(4) by simp_all
  then show ?thesis
    using g resolved_valid [of policy cls task_max]
    by (auto simp: classify_retry_def classify_retry_with_policy_def floor_parameters_def)
qed

definition demo_policy :: executor_policy where
  "demo_policy = static_v0 \<lparr> ep_retry := (ep_retry static_v0) \<lparr> rp_per_class :=
     Some [(RateLimited, \<lparr> base_delay_ms = 64, max_delay_ms = 256, max_attempts = 5 \<rparr>)] \<rparr> \<rparr>"

lemma demo_resolved:
  "resolve_retry_parameters demo_policy RateLimited 4 =
     \<lparr> base_delay_ms = 64, max_delay_ms = 256, max_attempts = 4 \<rparr>"
  by (simp add: resolve_retry_parameters_def demo_policy_def static_v0_def retry_validate_def flat_def
      backoff_validate_def BASE_RETRY_DELAY_MS_def MAX_RETRY_DELAY_MS_def POLICY_MAX_DELAY_ENVELOPE_MS_def
      POLICY_MAX_ATTEMPTS_ENVELOPE_def Let_def)

theorem policy_only_narrows_retries_witness:
  "\<exists>d. classify_retry_with_policy Idempotent RateLimited 2 (resolve_retry_parameters demo_policy RateLimited 4) 1
         = Retry d \<and> d \<le> 64 * 2 ^ min (2 - 1) 20"
proof -
  obtain d where d: "classify_retry_with_policy Idempotent RateLimited 2
      (resolve_retry_parameters demo_policy RateLimited 4) 1 = Retry d"
    by (simp add: demo_resolved classify_retry_with_policy_def is_retryable_def)
  from policy_only_narrows_retries [OF d] d show ?thesis by (simp add: demo_resolved)
qed

text \<open>
  the evidence of a retry decision is sound.  For the decision the active policy makes,
  the recorded selected action is a member of the recorded legal set, an attempt ordinal never
  wraps at 32 bits, and the recorded outcome is empty exactly for a retry.
\<close>

lemma retry_evidence_sound:
  assumes "task_max \<le> U32_MAX"
    "decision = classify_retry_with_policy eff cls attempt (resolve_retry_parameters policy cls task_max) u"
    "ev = retry_decision_event rid tid seq eff cls attempt task_max latency decision version decided"
  shows "de_selected ev \<in> set (de_legal_actions ev) \<and>
    (de_selected ev = ActRetry (Suc attempt) \<longleftrightarrow> (\<exists>d. decision = Retry d)) \<and>
    (de_selected ev = ActAbort \<longleftrightarrow> (\<forall>d. decision \<noteq> Retry d)) \<and>
    (de_outcome ev = None \<longleftrightarrow> (\<exists>d. decision = Retry d))"
proof (cases "\<exists>d. decision = Retry d")
  case True
  then obtain d where d: "decision = Retry d" by blast
  then have g: "is_freely_repeatable eff" "is_retryable cls" "attempt < task_max"
    using assms(2) resolved_valid(3) [of policy cls task_max]
    by (auto simp: classify_retry_with_policy_def split: if_splits)
  then have "add_u32 attempt 1 = Suc attempt" using assms(1) by (simp add: add_u32_def)
  then show ?thesis
    using g d by (simp add: assms(3) retry_decision_event_def retry_legal_actions_def retry_selected_action_def)
next
  case False
  then show ?thesis
    by (cases decision) (auto simp: assms(3) retry_decision_event_def retry_legal_actions_def retry_selected_action_def)
qed

lemma retry_evidence_sound_witness:
  "de_selected (retry_decision_event ''r'' ''t'' 0 Idempotent Transient 1 3 None
      (classify_retry_with_policy Idempotent Transient 1 (resolve_retry_parameters static_v0 Transient 3) 1) ''v'' 0)
     = ActRetry 2"
proof -
  have "\<exists>d. classify_retry_with_policy Idempotent Transient 1 (resolve_retry_parameters static_v0 Transient 3) 1 = Retry d"
    by (simp add: classify_retry_with_policy_def is_retryable_def resolve_retry_parameters_def static_v0_def
        retry_validate_def flat_def backoff_validate_def BASE_RETRY_DELAY_MS_def MAX_RETRY_DELAY_MS_def
        POLICY_MAX_DELAY_ENVELOPE_MS_def POLICY_MAX_ATTEMPTS_ENVELOPE_def floor_parameters_def Let_def)
  then show ?thesis
    using retry_evidence_sound [where task_max = 3 and attempt = 1 and eff = Idempotent and cls = Transient
        and policy = static_v0 and u = 1, OF _ refl refl] by simp
qed

definition declared_bound :: "timeout_policy_parameters \<Rightarrow> string option \<Rightarrow> nat option" where
  "declared_bound t callee =
     (case Option.bind callee (\<lambda>name. Option.bind (tp_per_callee t) (\<lambda>table. map_of table name)) of
        Some b \<Rightarrow> Some b
      | None \<Rightarrow> tp_default_millis t)"

lemma declared_bound_valid:
  assumes "timeout_validate t = Inr ()" "declared_bound t callee = Some b"
  shows "MIN_TIMEOUT_RUNG_MS \<le> b \<and> (\<forall>m. tp_max_millis t = Some m \<longrightarrow> b \<le> m)"
proof (cases "Option.bind callee (\<lambda>name. Option.bind (tp_per_callee t) (\<lambda>table. map_of table name))")
  case None
  then show ?thesis using assms by (simp add: declared_bound_def timeout_validate_iff)
next
  case (Some b')
  then obtain name table where "tp_per_callee t = Some table" "map_of table name = Some b"
    using assms(2) by (auto simp: bind_eq_Some_conv declared_bound_def)
  then have "tp_per_callee t = Some table" "(name, b) \<in> set table" using map_of_SomeD by fast+
  then show ?thesis using assms(1) by (force simp: timeout_validate_iff)
qed

lemma find_first_rung:
  assumes "sorted ladder" "find (\<lambda>rung. b \<le> rung) ladder = Some r"
  shows "r \<in> set ladder \<and> b \<le> r \<and> (\<forall>r' \<in> set ladder. b \<le> r' \<longrightarrow> r \<le> r')"
  using assms by (induction ladder) (auto split: if_splits)

lemma find_rung_exists:
  assumes "ladder \<noteq> []" "b \<le> last ladder"
  shows "\<exists>r. find (\<lambda>rung. b \<le> rung) ladder = Some r"
  using assms by (cases "find (\<lambda>rung. b \<le> rung) ladder") (auto simp: find_None_iff)

text \<open>
  a timeout decision applies what the policy declared.  The bound resolved for a callee is
  exactly the callee's entry, or the default where it has none, it respects the minimum rung
  and the ceiling, an invalid policy resolves to no bound at all, and on an ascending ladder
  that reaches the bound the recorded action is the lowest legal rung that covers it.
\<close>

lemma timeout_bound_is_declared:
  assumes "resolve_timeout_bound_ms p callee = Some b" "\<forall>n. declared_bound (ep_timeout p) callee = Some n \<longrightarrow> n \<le> U64_MAX"
    "sorted ladder" "ladder \<noteq> []" "b \<le> last ladder"
  shows "timeout_validate (ep_timeout p) = Ok () \<and> declared_bound (ep_timeout p) callee = Some b \<and>
    MIN_TIMEOUT_RUNG_MS \<le> b \<and> (\<forall>m. tp_max_millis (ep_timeout p) = Some m \<longrightarrow> b \<le> m) \<and>
    (\<exists>r. timeout_selected_action (Some b) ladder = ActSetTimeout r \<and>
       ActSetTimeout r \<in> set (timeout_legal_actions ladder) \<and> b \<le> r \<and>
       (\<forall>r' \<in> set ladder. b \<le> r' \<longrightarrow> r \<le> r'))"
proof -
  let ?t = "ep_timeout p"
  have ok: "timeout_validate ?t = Inr ()"
    using assms(1) unit_result_cases [of "timeout_validate ?t"] by (auto simp: resolve_timeout_bound_ms_def)
  obtain d where d: "declared_bound ?t callee = Some d"
    "b = min (max d MIN_TIMEOUT_RUNG_MS) (case tp_max_millis ?t of None \<Rightarrow> U64_MAX | Some m \<Rightarrow> m)"
    using assms(1) ok by (auto simp: resolve_timeout_bound_ms_def declared_bound_def Let_def)
  have v: "MIN_TIMEOUT_RUNG_MS \<le> d" "\<forall>m. tp_max_millis ?t = Some m \<longrightarrow> d \<le> m"
    using declared_bound_valid [OF ok d(1)] by auto
  have "d \<le> U64_MAX" using assms(2) d(1) by blast
  then have b: "b = d" using d(2) v by (cases "tp_max_millis ?t") (simp_all add: max_def min_def)
  obtain r where r: "find (\<lambda>rung. b \<le> rung) ladder = Some r"
    using find_rung_exists [OF assms(4,5)] by blast
  then show ?thesis
    using ok d(1) b v find_first_rung [OF assms(3) r]
    by (auto simp: timeout_selected_action_def timeout_legal_actions_def)
qed

definition demo_timeouts :: executor_policy where
  "demo_timeouts = static_v0 \<lparr> ep_timeout := \<lparr> tp_default_millis = Some 500, tp_max_millis = Some 2000,
     tp_per_callee = Some [(''search'', 800)] \<rparr> \<rparr>"

lemma timeout_bound_is_declared_witness:
  "declared_bound (ep_timeout demo_timeouts) (Some ''search'') = Some 800 \<and>
   timeout_selected_action (Some 800) [100, 1000, 5000] = ActSetTimeout 1000"
proof -
  have v: "timeout_validate (ep_timeout demo_timeouts) = Inr ()"
    by (simp add: timeout_validate_iff demo_timeouts_def MIN_TIMEOUT_RUNG_MS_def)
  then have "resolve_timeout_bound_ms demo_timeouts (Some ''search'') = Some 800"
    by (simp add: resolve_timeout_bound_ms_def) (simp add: demo_timeouts_def MIN_TIMEOUT_RUNG_MS_def)
  moreover have "\<forall>n. declared_bound (ep_timeout demo_timeouts) (Some ''search'') = Some n \<longrightarrow> n \<le> U64_MAX"
    by (simp add: declared_bound_def demo_timeouts_def)
  ultimately have "declared_bound (ep_timeout demo_timeouts) (Some ''search'') = Some 800"
    using timeout_bound_is_declared [of demo_timeouts "Some ''search''" 800 "[100, 1000, 5000]"] by simp
  then show ?thesis by (simp add: timeout_selected_action_def)
qed

text \<open>
  Above the top rung the recorded action is the top rung, which is tighter than the bound the
  policy declared.
\<close>

lemma top_rung_tightens:
  "timeout_selected_action (Some 800) [100, 500] = ActSetTimeout 500"
  by (simp add: timeout_selected_action_def last_rung_def)

text \<open>
  promoting a candidate keeps the bundle inside its envelope.  If the active policy
  validates, overlaying any parameters on one family either is refused or yields a policy that
  validates as a whole and differs from the active one in that family only.
\<close>

lemma promotion_keeps_policy_valid:
  assumes "policy_validate p = Ok ()" "with_family_parameters ps p family j = Ok p'"
  shows "policy_validate p' = Ok () \<and>
    (family \<noteq> FamilyRetry \<longrightarrow> ep_retry p' = ep_retry p) \<and>
    (family \<noteq> FamilyTimeout \<longrightarrow> ep_timeout p' = ep_timeout p) \<and>
    (family \<noteq> FamilyConcurrency \<longrightarrow> ep_max_parallel p' = ep_max_parallel p) \<and>
    family \<notin> {FamilyWorkerPlacement, FamilyCheckpointPlacement}"
  using assms
  by (cases family)
    (auto simp: policy_validate_iff with_family_parameters_def Let_def split: if_splits)

definition demo_parsers :: parameter_parsers where
  "demo_parsers = \<lparr> parse_retry = (\<lambda>_. None), parse_timeout = (\<lambda>_. None),
     parse_concurrency = (\<lambda>j. case j of JNumber (PosInt n) \<Rightarrow> Some (Some n) | _ \<Rightarrow> None) \<rparr>"

lemma promotion_keeps_policy_valid_witness:
  "policy_validate (static_v0 \<lparr> ep_max_parallel := Some 4 \<rparr>) = Ok ()"
proof -
  have "policy_validate static_v0 = Ok ()"
    by (simp add: policy_validate_iff static_v0_def retry_validate_iff timeout_validate_iff flat_def
        backoff_validate_iff BASE_RETRY_DELAY_MS_def MAX_RETRY_DELAY_MS_def POLICY_MAX_DELAY_ENVELOPE_MS_def
        POLICY_MAX_ATTEMPTS_ENVELOPE_def)
  moreover have "with_family_parameters demo_parsers static_v0 FamilyConcurrency (jnat 4) =
      Ok (static_v0 \<lparr> ep_max_parallel := Some 4 \<rparr>)"
    by (simp add: with_family_parameters_def demo_parsers_def parsed_def)
  ultimately show ?thesis using promotion_keeps_policy_valid by blast
qed

end
