(* ===== verification/Run_Loop.thy ===== *)
theory Run_Loop
  imports Super_Step
begin

text \<open>
  The run loop (executor.rs, \<open>run_inner\<close>): setting up the recorder, initialization or resume
  from a checkpoint, the run-config declaration, and the super-step loop with its ceilings, the
  inbox boundary, cancellation and the spend guard.

  \<open>loop_step\<close> is one iteration of the loop and \<open>run_loop\<close> iterates it; the step limit makes
  the recursion terminate.  The environment of the run gives the environment of each super-step
  by the number of steps run so far.
\<close>

section \<open>The state of the loop\<close>

record run_state =
  rs_state :: channel_state
  rs_active :: "active_task list"
  rs_step :: nat
  rs_steps_run :: nat
  rs_resume :: "json option"
  rs_parent :: "string option"
  rs_carried :: "inbox_message list"
  rs_turn_start :: bool
  rs_started_at :: "nat option"
  rs_spend :: spend
  rs_seen :: nat

section \<open>Ceilings\<close>

definition step_ceiling :: "nat \<Rightarrow> nat \<Rightarrow> json" where
  "step_ceiling limit steps_run = JObject [(''limit'', json_nat limit),
     (''note'', JString (''the run stopped at its step ceiling with the work it had done; '' @
        ''resume the thread to carry on, raising RunConfig::max_steps when '' @
        ''the task genuinely needs more steps'')),
     (''reason'', JString ''step_ceiling''), (''steps_run'', json_nat steps_run)]"

definition budget_ceiling :: "string \<Rightarrow> nat \<Rightarrow> json" where
  "budget_ceiling crossed steps_run = JObject [(''crossed'', JString crossed),
     (''note'', JString (''the run stopped at its spend ceiling with the work it had '' @
        ''done; resume the thread to carry on, raising the budget when '' @
        ''the task genuinely needs more'')),
     (''reason'', JString ''budget_ceiling''), (''steps_run'', json_nat steps_run)]"

text \<open>The ceiling the run has reached, if any, and the loop state with the spend folded on.\<close>

definition check_ceiling ::
  "'s engine \<Rightarrow> run_state \<Rightarrow> journal \<Rightarrow> (rusty_error + json option) \<times> run_state" where
  "check_ceiling en rs j =
     (if cf_max_steps (en_config en) \<le> rs_steps_run rs
      then (Ok (Some (step_ceiling (cf_max_steps (en_config en)) (rs_steps_run rs))), rs)
      else case check_spend (en_externals en) (en_config en) j (rs_spend rs) (rs_seen rs) of
        (r, sp, seen) \<Rightarrow>
          (case r of
             Inr _ \<Rightarrow> Ok None
           | Inl (Budget crossed) \<Rightarrow> Ok (Some (budget_ceiling crossed (rs_steps_run rs)))
           | Inl other \<Rightarrow> Err other,
           rs \<lparr> rs_spend := sp, rs_seen := seen \<rparr>))"

definition halt_reason :: "json \<Rightarrow> string" where
  "halt_reason halt = (case Option.bind (json_get halt ''reason'') as_str of None \<Rightarrow> ''ceiling'' | Some r \<Rightarrow> r)"

definition halt_run ::
  "'s engine \<Rightarrow> run_state \<Rightarrow> json \<Rightarrow> 's world \<Rightarrow> (rusty_error + execution_outcome) \<times> 's world" where
  "halt_run en rs halt w =
     (let halted = JObject [(''rusty.halted'', halt)] in
      case en_checkpointer en of
        None \<Rightarrow> (Ok (Interrupted halted (rs_state rs) []), w)
      | Some ck \<Rightarrow>
          let (cp, w1) = mint_checkpoint en (rs_step rs) (rs_state rs) (map at_name (rs_active rs))
                (Option.bind (w_inbox w) inbox_snapshot_of) w
          in case put_checkpoint en ck cp
                 [(''suspension'', JBool True), (''halted'', JString (halt_reason halt))] None w1 of
               (Inl e, w2) \<Rightarrow> (Err e, w2)
             | (Inr _, w2) \<Rightarrow> (Ok (Interrupted halted (rs_state rs) (cp_id cp)), w2))"

section \<open>The inbox boundary\<close>

definition no_drops :: dropped_messages where
  "no_drops = \<lparr> dr_steering = 0, dr_followups = 0, dr_staged = 0, dr_pending = 0 \<rparr>"

text \<open>A cancellation taken at the boundary: journaled, and the boundary checkpoint rewritten.\<close>

definition cancel_run ::
  "'s engine \<Rightarrow> run_state \<Rightarrow> cancel_cause \<Rightarrow> bool \<Rightarrow> string option \<Rightarrow> inbox \<Rightarrow> 's world \<Rightarrow> rusty_error \<times> 's world" where
  "cancel_run en rs cause keep parent ib w =
     (let (dropped, ib1) = (if keep then (no_drops, ib) else inbox_clear ib);
          (cancel_event, w1) = record_draft (en_externals en)
            ((draft_new KRunCancelled Pure) \<lparr>
               d_output := Some (cancellation_to_value
                 \<lparr> rc_cause = cause, rc_keep_inbox = keep, rc_dropped = dropped \<rparr>),
               d_parent := parent \<rparr>) (w \<lparr> w_inbox := Some ib1 \<rparr>);
          cancelled = Cancelled (CancelledByInbox (cause_str cause) (rs_steps_run rs)
            (cf_thread_id (en_config en)))
      in case en_checkpointer en of
           None \<Rightarrow> (cancelled, w1)
         | Some ck \<Rightarrow>
             let (cp, w2) = mint_checkpoint en (rs_step rs) (rs_state rs) (map at_name (rs_active rs))
                   (inbox_stamp (if keep then rs_carried rs else []) w1) w1
             in case put_checkpoint en ck cp
                    [(''suspension'', JBool False), (''cancellation'', JBool True)] (Some cancel_event) w2 of
                  (Inl e, w3) \<Rightarrow> (e, w3)
                | (Inr _, w3) \<Rightarrow> (cancelled, w3))"

text \<open>The batch the step's nodes observe, drained from a settled inbox.\<close>

definition drain_boundary ::
  "run_externals \<Rightarrow> run_state \<Rightarrow> string option \<Rightarrow> inbox \<Rightarrow> 's world \<Rightarrow> inbox_message list \<times> 's world" where
  "drain_boundary x rs parent ib w =
     (let carried = rs_carried rs;
          begins_turn = (rs_turn_start rs \<or> carried \<noteq> []);
          (steering, ib1) = drain_steering ib;
          woke = (begins_turn \<or> steering \<noteq> []);
          (staged, ib2) = (if woke then drain_staged ib1 else ([], ib1));
          batch = steering @ staged;
          w1 = w \<lparr> w_inbox := Some ib2 \<rparr>
      in if batch = [] then (carried, w1)
         else (carried @ batch, snd (record_draft x
           (consumed_draft (if begins_turn then TurnStart else StepBoundary) (rs_step rs) batch parent) w1)))"

definition inbox_boundary ::
  "'s engine \<Rightarrow> step_env \<Rightarrow> run_state \<Rightarrow> 's world \<Rightarrow> (rusty_error + inbox_message list \<times> run_state) \<times> 's world" where
  "inbox_boundary en v rs w =
     (case w_inbox w of
        None \<Rightarrow> (Ok ([], rs), w)
      | Some ib \<Rightarrow>
          let x = en_externals en;
              (last_event, w1) = settle_world x (rs_parent rs) ib w;
              parent = (case last_event of Some l \<Rightarrow> Some l | None \<Rightarrow> rs_parent rs);
              w2 = perform x (sv_boundary v) w1;
              (taken, ib2) = take_cancel (journal_len (w_journal w2)) (the (w_inbox w2))
          in case taken of
               Some (cause, keep) \<Rightarrow>
                 (case cancel_run en rs cause keep parent ib2 w2 of (e, w3) \<Rightarrow> (Err e, w3))
             | None \<Rightarrow>
                 (case drain_boundary x rs parent ib2 w2 of
                    (delivery, w3) \<Rightarrow>
                      (Ok (delivery, rs \<lparr> rs_carried := [], rs_turn_start := False \<rparr>), w3)))"

section \<open>One iteration\<close>

datatype loop_result = Stop "rusty_error + execution_outcome" | Continue run_state

fun advance :: "run_state \<Rightarrow> active_task list \<Rightarrow> string \<Rightarrow> inbox_message list \<Rightarrow> channel_state \<Rightarrow> run_state" where
  "advance rs next route_event extension st =
     rs \<lparr> rs_state := st, rs_active := next, rs_step := Suc (rs_step rs),
          rs_steps_run := Suc (rs_steps_run rs), rs_resume := None, rs_parent := Some route_event,
          rs_carried := (if extension \<noteq> [] then extension else rs_carried rs),
          rs_turn_start := (if extension \<noteq> [] then True else rs_turn_start rs) \<rparr>"

definition after_step ::
  "'s engine \<Rightarrow> run_state \<Rightarrow> step_transition \<Rightarrow> channel_state \<Rightarrow> 's world \<Rightarrow> loop_result" where
  "after_step en rs tr st w =
     (case check_spend (en_externals en) (en_config en) (w_journal w) (rs_spend rs) (rs_seen rs) of
        (Inl e, sp, seen) \<Rightarrow> Stop (Err e)
      | (Inr _, sp, seen) \<Rightarrow>
          (case tr of
             Next next route_event extension \<Rightarrow>
               Continue (advance (rs \<lparr> rs_spend := sp, rs_seen := seen \<rparr>) next route_event extension st)
           | Finish outcome \<Rightarrow> Stop (Ok outcome)))"

definition loop_step :: "'s engine \<Rightarrow> step_env \<Rightarrow> run_state \<Rightarrow> 's world \<Rightarrow> loop_result \<times> 's world" where
  "loop_step en v rs0 w0 =
     (case check_ceiling en rs0 (w_journal w0) of
        (Inl e, rs) \<Rightarrow> (Stop (Err e), w0)
      | (Inr (Some halt), rs) \<Rightarrow> (case halt_run en rs halt w0 of (r, w) \<Rightarrow> (Stop r, w))
      | (Inr None, rs) \<Rightarrow>
          (case inbox_boundary en v rs (perform (en_externals en) (sv_arrivals v) w0) of
             (Inl e, w1) \<Rightarrow> (Stop (Err e), w1)
           | (Inr (delivery, rs1), w1) \<Rightarrow>
               if sv_cancelled v
               then (Stop (Err (Cancelled (CancelledByToken (rs_steps_run rs1)
                       (cf_thread_id (en_config en))))), w1)
               else
                 (case execute_super_step en v (rs_state rs1) (rs_active rs1) (rs_step rs1)
                         (rs_resume rs1) (rs_parent rs1) delivery (rs_started_at rs1) w1 of
                    (Inl e, w2) \<Rightarrow> (Stop (Err e), w2)
                  | (Inr (tr, st), w2) \<Rightarrow> (after_step en rs1 tr st w2, w2))))"

section \<open>The loop\<close>

lemma check_ceiling_steps:
  "check_ceiling en rs j = (r, rs') \<Longrightarrow> rs_steps_run rs' = rs_steps_run rs \<and>
     (r = Ok None \<longrightarrow> rs_steps_run rs < cf_max_steps (en_config en))"
  by (auto simp: check_ceiling_def split: if_splits prod.splits)

lemma inbox_boundary_steps:
  "inbox_boundary en v rs w = (Ok (d, rs'), w') \<Longrightarrow> rs_steps_run rs' = rs_steps_run rs"
  by (auto simp: inbox_boundary_def Let_def split: option.splits prod.splits)

lemma after_step_steps:
  "after_step en rs tr st w = Continue rs' \<Longrightarrow> rs_steps_run rs' = Suc (rs_steps_run rs)"
  by (auto simp: after_step_def split: prod.splits sum.splits step_transition.splits)

lemma loop_step_steps:
  assumes "loop_step en v rs w = (Continue rs', w')"
  shows "rs_steps_run rs' = Suc (rs_steps_run rs)" "rs_steps_run rs < cf_max_steps (en_config en)"
  using assms check_ceiling_steps [of en rs] inbox_boundary_steps [of en v] after_step_steps [of en]
  by (auto simp: loop_step_def split: prod.splits sum.splits option.splits if_splits)

function run_loop ::
  "'s engine \<Rightarrow> (nat \<Rightarrow> step_env) \<Rightarrow> run_state \<Rightarrow> 's world \<Rightarrow> (rusty_error + execution_outcome) \<times> 's world" where
  "run_loop en vs rs w =
     (case loop_step en (vs (rs_steps_run rs)) rs w of
        (Stop r, w') \<Rightarrow> (r, w')
      | (Continue rs', w') \<Rightarrow> run_loop en vs rs' w')"
  by pat_completeness auto
termination
  by (relation "measure (\<lambda>(en, vs, rs, w). cf_max_steps (en_config en) - rs_steps_run rs)")
     (use loop_step_steps [OF sym] in fastforce)+

declare run_loop.simps [simp del]

section \<open>Starting a run\<close>

text \<open>
  A run records into the attached journal, or into a new one over the configured clock with a
  run id minted from the run's RNG.  The world has one clock, the journal's: a run with an
  attached journal is modelled for the case that the journal was made over the clock the run is
  configured with.
\<close>

definition start_world ::
  "run_externals \<Rightarrow> run_config \<Rightarrow> journal option \<Rightarrow> clock \<Rightarrow> inbox option \<Rightarrow> 's \<Rightarrow> 's world" where
  "start_world x cf attached clk ib s =
     (case attached of
        Some j \<Rightarrow> \<lparr> w_journal = j, w_store = s, w_inbox = ib, w_ids = 0, w_reads = 0, w_events = [] \<rparr>
      | None \<Rightarrow> \<lparr> w_journal = journal_new (rx_codec x) (rx_uuid x 0) (cf_thread_id cf) clk, w_store = s,
          w_inbox = ib, w_ids = 1, w_reads = 0, w_events = [] \<rparr>)"

definition base_recorder :: "run_externals \<Rightarrow> run_config \<Rightarrow> graph \<Rightarrow> recorder" where
  "base_recorder x cf g = \<lparr>
     rec_graph_version = (case cf_graph_version cf of None \<Rightarrow> ''unversioned'' | Some v \<Rightarrow> v),
     rec_graph_hash = topology_hash (sha256_hex (rx_codec x)) g,
     rec_policy_version = (case cf_policy_version cf of None \<Rightarrow> ''static-v0'' | Some v \<Rightarrow> v),
     rec_manifest = cf_manifest cf \<rparr>"

definition load_checkpoint :: "'s store_ops \<Rightarrow> run_config \<Rightarrow> 's \<Rightarrow> rusty_error + checkpoint" where
  "load_checkpoint ck cf s =
     (case cf_checkpoint_id cf of
        Some cid \<Rightarrow> rbind (so_get_by_id ck s (cf_thread_id cf) cid) (\<lambda>found. case found of
            None \<Rightarrow> Err (Checkpoint (ReplayUnknownCheckpoint (cf_thread_id cf) cid)) | Some cp \<Rightarrow> Ok cp)
      | None \<Rightarrow> rbind (so_get_latest ck s (cf_thread_id cf)) (\<lambda>found. case found of
            None \<Rightarrow> Err (Checkpoint (NoCheckpointFound (cf_thread_id cf))) | Some cp \<Rightarrow> Ok cp))"

definition resume_draft :: "run_config \<Rightarrow> checkpoint \<Rightarrow> event_draft" where
  "resume_draft cf cp = (draft_new KResume Pure) \<lparr> d_input := Some (JObject [
     (''checkpoint_id'', JString (cp_id cp)),
     (''resume'', case cf_resume cf of None \<Rightarrow> JNull | Some v \<Rightarrow> v),
     (''step'', json_nat (cp_step cp))]) \<rparr>"

text \<open>A fresh inbox takes over the stamped queues and the pending delivery.\<close>

definition adopt_inbox :: "checkpoint \<Rightarrow> 's world \<Rightarrow> inbox_message list \<times> 's world" where
  "adopt_inbox cp w =
     (case (w_inbox w, h_inbox (cp_header cp)) of
        (Some ib, Some snap) \<Rightarrow>
          (if inbox_is_fresh ib then is_pending_delivery snap else [],
           w \<lparr> w_inbox := Some (inbox_seed snap ib) \<rparr>)
      | _ \<Rightarrow> ([], w))"

definition resume_recorder :: "run_config \<Rightarrow> checkpoint \<Rightarrow> recorder \<Rightarrow> recorder" where
  "resume_recorder cf cp rc =
     (if cf_policy_version cf = None then rc \<lparr> rec_policy_version := h_policy_version (cp_header cp) \<rparr> else rc)"

definition run_started_at :: "run_externals \<Rightarrow> run_config \<Rightarrow> 's world \<Rightarrow> nat option \<times> 's world" where
  "run_started_at x cf w =
     (if cf_context_policy cf \<noteq> None \<or> cf_started_at cf \<noteq> None
      then let (t, w1) = read_clock x w
           in (Some (case cf_started_at cf of None \<Rightarrow> t | Some s \<Rightarrow> s), w1)
      else (None, w))"

definition declare_run :: "'s engine \<Rightarrow> 's world \<Rightarrow> nat option \<times> 's world" where
  "declare_run en w =
     (let x = en_externals en; cf = en_config en;
          (started_at, w1) = run_started_at x cf w
      in (started_at,
          if declares cf
          then snd (record_draft x ((draft_new KRunConfigDeclared Pure) \<lparr>
            d_output := Some (declaration_to_value x cf (en_recorder en) started_at) \<rparr>) w1)
          else w1))"

definition initial_run_state ::
  "channel_state \<Rightarrow> active_task list \<Rightarrow> nat \<Rightarrow> json option \<Rightarrow> string option \<Rightarrow> inbox_message list \<Rightarrow>
     nat option \<Rightarrow> run_state" where
  "initial_run_state st active st_step resume parent carried started_at =
     \<lparr> rs_state = st, rs_active = active, rs_step = st_step, rs_steps_run = 0, rs_resume = resume,
       rs_parent = parent, rs_carried = carried, rs_turn_start = True, rs_started_at = started_at,
       rs_spend = spend_default, rs_seen = 0 \<rparr>"

text \<open>Initialization: a finished outcome, or the engine and the state the loop starts with.\<close>

datatype 's run_start = Started "'s engine" run_state | Finished "rusty_error + execution_outcome"

definition init_run ::
  "run_externals \<Rightarrow> 's store_ops option \<Rightarrow> graph \<Rightarrow> state_spec \<Rightarrow> run_config \<Rightarrow> channel_state \<Rightarrow> 's world \<Rightarrow>
     's run_start \<times> 's world" where
  "init_run x ck g spec cf st0 w =
     (let engine_of = (\<lambda>rc. \<lparr> en_externals = x, en_checkpointer = ck, en_graph = g, en_spec = spec,
            en_config = cf, en_recorder = rc \<rparr>);
          rc = base_recorder x cf g
      in if cf_checkpoint_id cf \<noteq> None \<or> cf_resume cf \<noteq> None
         then case ck of
             None \<Rightarrow> (Finished (Err (Checkpoint NoCheckpointer)), w)
           | Some ops \<Rightarrow>
               (case load_checkpoint ops cf (w_store w) of
                  Inl e \<Rightarrow> (Finished (Err e), w)
                | Inr cp \<Rightarrow>
                    let en = engine_of (resume_recorder cf cp rc);
                        (resume_event, w1) = record_draft x (resume_draft cf cp) w;
                        (carried, w2) = adopt_inbox cp w1
                    in if cp_next_nodes cp = [] then (Finished (Ok (Done (cp_state cp))), w2)
                       else let (started_at, w3) = declare_run en w2
                         in (Started en (initial_run_state (cp_state cp) (map unscoped (cp_next_nodes cp))
                               (cp_step cp) (cf_resume cf) (Some resume_event) carried started_at), w3))
         else let en = engine_of rc; (started_at, w1) = declare_run en w
           in (Started en (initial_run_state st0 [unscoped (g_entry g)] 0 None None [] started_at), w1))"

definition run_inner ::
  "run_externals \<Rightarrow> 's store_ops option \<Rightarrow> graph \<Rightarrow> state_spec \<Rightarrow> run_config \<Rightarrow> (nat \<Rightarrow> step_env) \<Rightarrow>
     channel_state \<Rightarrow> 's world \<Rightarrow> (rusty_error + execution_outcome) \<times> 's world" where
  "run_inner x ck g spec cf vs st0 w =
     (case init_run x ck g spec cf st0 w of
        (Finished r, w1) \<Rightarrow> (r, w1)
      | (Started en rs, w1) \<Rightarrow> run_loop en vs rs w1)"

section \<open>A small run\<close>

text \<open>
  Two nodes in a row, the second of which asks a question before it writes; the witnesses of the
  properties of runs evaluate on it.
\<close>

definition demo_externals :: run_externals where
  "demo_externals = \<lparr> rx_codec = \<lparr> sha256_hex = (\<lambda>_. ''h''), ser_event = (\<lambda>_. Some []),
       ser_value = (\<lambda>_. None), wall = (\<lambda>n. n), representable = (\<lambda>_. True) \<rparr>,
     rx_uuid = (\<lambda>n. CHR ''c'' # show_nat n), rx_wall = (\<lambda>n. n), rx_timestamp = show_nat,
     rx_timestamp_millis = show_nat, rx_number = (\<lambda>_. JNull), rx_usd = (\<lambda>_. []), rx_display = (\<lambda>_. []) \<rparr>"

definition ask_graph :: graph where
  "ask_graph = \<lparr> g_nodes =
       [(''a'', closure_node (\<lambda>ctx. Ok (output_update ''x'' (JBool True)))),
        (''b'', closure_node (\<lambda>ctx. case resume_value ctx of
           None \<Rightarrow> Err (ctx_interrupt (JString ''sure''))
         | Some answer \<Rightarrow> Ok (output_update ''y'' answer)))],
     g_edges = [Direct ''a'' ''b''], g_entry = ''a'' \<rparr>"

definition ask_spec :: state_spec where
  "ask_spec = [''x'' \<mapsto> Overwrite, ''y'' \<mapsto> Overwrite]"

definition demo_env :: step_env where
  "demo_env = \<lparr> sv_arrivals = [], sv_boundary = [], sv_cancelled = False, sv_during = (\<lambda>_. []),
     sv_joining = (\<lambda>_. []), sv_order = [], sv_panics = [], sv_latency = (\<lambda>_. 0), sv_late = [] \<rparr>"

definition ask_config :: run_config where
  "ask_config = with_max_steps 3 (config_new ''t'')"

definition demo_world :: "'s \<Rightarrow> 's world" where
  "demo_world s = start_world demo_externals ask_config None SystemClock None s"

end
