(* ===== verification/Run_Refinement.thy ===== *)
theory Run_Refinement
  imports Run_Loop
begin

text \<open>
  What a run computes, independently of scheduling: the abstract super-step \<open>pregel_step\<close>, in
  which every active task runs on the start-of-step state, the writes are merged in active-set
  order, and the tasks scheduled next follow from the merged state.  The executor's run refines
  a bounded number of such steps.
\<close>

section \<open>The abstract super-step\<close>

definition computes :: "graph \<Rightarrow> channel_state \<Rightarrow> active_task \<Rightarrow> node_output \<Rightarrow> bool" where
  "computes g st t out \<longleftrightarrow> (\<exists>node ctx. graph_node g (at_name t) = Some node \<and>
     overlay t st = Ok (ctx_state ctx) \<and> node_run node ctx = Ok out)"

text \<open>
  The order \<open>perm\<close> in which the tasks are looked at for routing is free: it decides the order of
  the tasks scheduled next and nothing else.  A turn that would end may instead restart at the
  entry point, when the inbox holds follow-ups.
\<close>

inductive pregel_step :: "graph \<Rightarrow> state_spec \<Rightarrow> channel_state \<times> active_task list \<Rightarrow>
    channel_state \<times> active_task list \<Rightarrow> bool" for g spec where
  pregel: "list_all2 (computes g st) active outs \<Longrightarrow>
    apply_super_step spec st (map2 (\<lambda>t out. (at_name t, out_updates out)) active outs) = (st', Ok ()) \<Longrightarrow>
    mset perm = mset (zip active outs) \<Longrightarrow>
    route_step g st' (concat (map (routing_commands \<circ> snd) perm)) (map (at_name \<circ> fst) perm) = Ok routed \<Longrightarrow>
    scheduled = routed \<or> routed = [] \<and> scheduled = [unscoped (g_entry g)] \<Longrightarrow>
    pregel_step g spec (st, active) (st', scheduled)"

section \<open>The executor's super-step refines it\<close>

lemma spawned_computes:
  assumes "spawned en si t iv" "iv_result iv = Ok out"
  shows "computes (en_graph en) (si_snapshot si) t out"
proof -
  obtain node node_state where "graph_node (en_graph en) (at_name t) = Some node"
    "overlay t (si_snapshot si) = Ok node_state"
    "iv_result iv = node_run node (invocation_context en si node_state (iv_input_event iv))"
    using assms(1) unfolding spawned_def by blast
  then show ?thesis
    using assms(2) unfolding computes_def
    by (intro exI [of _ node] exI [of _ "invocation_context en si node_state (iv_input_event iv)"])
       (simp add: invocation_context_def)
qed

lemma extend_turn_next:
  "extend_turn en v n ev routed w = (scheduled, ext, p, w') \<Longrightarrow>
     scheduled = routed \<or> routed = [] \<and> scheduled = [unscoped (g_entry (en_graph en))]"
  by (cases "w_inbox (perform (en_externals en) (sv_late v) w)")
     (auto simp: extend_turn_def Let_def split_beta split: if_splits)

lemma route_and_save_ok:
  assumes "route_and_save en v n st b ev w = (Ok (tr, st'), w')"
  obtains routed scheduled where "st' = st" "route_step (en_graph en) st (br_commands b) (br_ran b) = Ok routed"
    "scheduled = routed \<or> routed = [] \<and> scheduled = [unscoped (g_entry (en_graph en))]"
    "scheduled = [] \<and> tr = Finish (Done st) \<or> (\<exists>re ext. scheduled \<noteq> [] \<and> tr = Next scheduled re ext)"
proof -
  obtain routed where rt: "route_step (en_graph en) st (br_commands b) (br_ran b) = Ok routed"
    using assms by (cases "route_step (en_graph en) st (br_commands b) (br_ran b)")
      (auto simp: route_and_save_def)
  obtain scheduled ext p w1 where et: "extend_turn en v n ev routed w = (scheduled, ext, p, w1)"
    by (metis surj_pair)
  have "st' = st \<and> (scheduled = [] \<and> tr = Finish (Done st) \<or>
      (\<exists>re ext. scheduled \<noteq> [] \<and> tr = Next scheduled re ext))"
    using assms by (auto simp: route_and_save_def rt et Let_def split: prod.splits sum.splits if_splits)
  then show thesis using that [OF _ rt extend_turn_next [OF et]] by blast
qed

lemma commit_step_ok:
  assumes "commit_step en v si ivs b w = (Ok (tr, st'), w')"
  obtains ev w3 where
    "apply_super_step (en_spec en) (si_snapshot si) (map snd (sort_key fst (br_writes b))) = (st', Ok ())"
    "route_and_save en v (si_step si) st' b ev w3 = (Ok (tr, st'), w')"
proof -
  obtain st r where ap: "apply_super_step (en_spec en) (si_snapshot si)
      (map snd (sort_key fst (br_writes b))) = (st, r)" by (metis surj_pair)
  obtain l w1 where ro: "record_outputs (en_externals en) ivs (sort_key fst (br_completed b)) None w = (l, w1)"
    by (metis surj_pair)
  show thesis
  proof (cases r)
    case (Inr u)
    then obtain ev w3 where rs: "route_and_save en v (si_step si) st b ev w3 = (Ok (tr, st'), w')"
      using assms by (auto simp: commit_step_def ap ro Let_def split: prod.splits)
    then have "st' = st" using route_and_save_ok by metis
    then show thesis using that [of ev w3] ap rs Inr by simp
  qed (use assms in \<open>simp add: commit_step_def ap ro Let_def\<close>)
qed

lemma pregel_of_commit:
  assumes sp: "list_all2 (spawned en si) active ivs"
    and js: "mset is = mset [0..<length ivs]"
      "\<forall>i \<in> set is. iv_result (ivs ! i) = Ok (output_of (ivs ! i))"
    and ap: "apply_super_step (en_spec en) (si_snapshot si)
      (map snd (sort_key fst (br_writes (barrier_of v ivs is)))) = (st', Ok ())"
    and rt: "route_step (en_graph en) st' (br_commands (barrier_of v ivs is)) (br_ran (barrier_of v ivs is)) = Ok routed"
    and sc: "scheduled = routed \<or> routed = [] \<and> scheduled = [unscoped (g_entry (en_graph en))]"
  shows "pregel_step (en_graph en) (en_spec en) (si_snapshot si, active) (st', scheduled)"
proof -
  define outs where "outs = map output_of ivs"
  define perm where "perm = map (\<lambda>i. (active ! i, outs ! i)) is"
  have len: "length active = length ivs" using sp by (rule list_all2_lengthD)
  have is_lt: "\<forall>i \<in> set is. i < length ivs" and all_lt: "set is = {0..<length ivs}"
    using js(1) by (metis atLeastLessThan_upt mset_eq_setD atLeastLessThan_iff)+
  have nm: "i < length ivs \<Longrightarrow> iv_name (ivs ! i) = at_name (active ! i)" for i
    using sp len by (simp add: list_all2_conv_all_nth spawned_def) blast
  have "computes (en_graph en) (si_snapshot si) (active ! i) (outs ! i)" if "i < length ivs" for i
    by (rule spawned_computes [of en si _ "ivs ! i"])
       (use that sp js(2) all_lt len in \<open>simp_all add: list_all2_conv_all_nth outs_def\<close>)
  then have "list_all2 (computes (en_graph en) (si_snapshot si)) active outs"
    by (simp add: list_all2_conv_all_nth len outs_def)
  moreover have "map snd (sort_key fst (br_writes (barrier_of v ivs is))) =
      map2 (\<lambda>t out. (at_name t, out_updates out)) active outs"
    unfolding barrier_sorted(1) [OF js(1)]
    by (rule nth_equalityI) (simp_all add: len outs_def nm)
  moreover have "mset perm = mset (zip active outs)"
  proof -
    have "zip active outs = map (\<lambda>i. (active ! i, outs ! i)) [0..<length ivs]"
      by (rule nth_equalityI) (simp_all add: len outs_def)
    then show ?thesis unfolding perm_def mset_map js(1) by simp
  qed
  moreover have "br_commands (barrier_of v ivs is) = concat (map (routing_commands \<circ> snd) perm)"
    unfolding perm_def barrier_of_def outs_def using is_lt
    by (simp add: comp_def) (metis (no_types, lifting) map_eq_conv nth_map)
  moreover have "br_ran (barrier_of v ivs is) = map (at_name \<circ> fst) perm"
    unfolding perm_def barrier_of_def using is_lt by (simp add: nm)
  ultimately show ?thesis using ap rt sc by (metis pregel)
qed

lemma execute_refines:
  assumes "execute_super_step en v st active n resume parent delivery sa w = (Ok (tr, st'), w')"
  shows "(\<exists>next re ext. tr = Next next re ext \<and> next \<noteq> [] \<and>
            pregel_step (en_graph en) (en_spec en) (st, active) (st', next)) \<or>
         tr = Finish (Done st') \<and> pregel_step (en_graph en) (en_spec en) (st, active) (st', []) \<or>
         st' = st \<and> (\<exists>value cid. tr = Finish (Interrupted value st cid))"
  using assms
proof (cases rule: execute_cases)
  case (committed si w1 ivs w2 b w3)
  note all2 = spawn_tasks_spawned [OF committed(2)]
  note snap = plan_step_fields(1) [OF committed(1)]
  have len: "length active = length ivs" using all2 by (rule list_all2_lengthD)
  have b: "b = barrier_of v ivs (finish_order v (length active))"
    and oks: "\<forall>i \<in> set (finish_order v (length active)). iv_result (ivs ! i) = Ok (output_of (ivs ! i))"
    using join_tasks_all [of en v n ivs 0 _ "[]" w2] committed(3) by fastforce+
  from commit_step_ok [OF committed(4)] obtain ev2 w4 where
    ap: "apply_super_step (en_spec en) (si_snapshot si) (map snd (sort_key fst (br_writes b))) = (st', Ok ())"
    and rs: "route_and_save en v (si_step si) st' b ev2 w4 = (Ok (tr, st'), w')" .
  from route_and_save_ok [OF rs] obtain routed scheduled where
    rt: "route_step (en_graph en) st' (br_commands b) (br_ran b) = Ok routed"
    and sc: "scheduled = routed \<or> routed = [] \<and> scheduled = [unscoped (g_entry (en_graph en))]"
    and tr: "scheduled = [] \<and> tr = Finish (Done st') \<or> (\<exists>re ext. scheduled \<noteq> [] \<and> tr = Next scheduled re ext)" .
  have "pregel_step (en_graph en) (en_spec en) (si_snapshot si, active) (st', scheduled)"
    using pregel_of_commit [OF all2 _ oks] ap rt sc finish_order_mset [of v "length ivs"]
    unfolding b by (simp add: len)
  then show ?thesis using tr snap by auto
qed (auto simp: suspend_step_def Let_def split: prod.splits option.splits sum.splits)

section \<open>The run refines a bounded number of super-steps\<close>

lemma check_ceiling_keeps:
  "check_ceiling en rs j = (r, rs') \<Longrightarrow> \<exists>sp seen. rs' = rs \<lparr> rs_spend := sp, rs_seen := seen \<rparr>"
  by (auto simp: check_ceiling_def split: if_splits prod.splits) (metis run_state.surjective run_state.update_convs(10,11))

lemma inbox_boundary_keeps:
  "inbox_boundary en v rs w = (Ok (d, rs'), w') \<Longrightarrow>
     \<exists>c t. rs' = rs \<lparr> rs_carried := c, rs_turn_start := t \<rparr>"
  by (auto simp: inbox_boundary_def Let_def split: option.splits prod.splits)
     (metis run_state.surjective run_state.update_convs(7,8))

text \<open>What an iteration that got as far as the super-step did.\<close>

lemma loop_step_cases:
  assumes "loop_step en v rs w = (res, w')"
  obtains (failed) e where "res = Stop (Err e)"
  | (halted) rs1 halt r where "check_ceiling en rs (w_journal w) = (Ok (Some halt), rs1)"
      "halt_run en rs1 halt w = (r, w')" "res = Stop r"
  | (stepped) sp seen c t delivery w1 tr st where
      "check_ceiling en rs (w_journal w) = (Ok None, rs \<lparr> rs_spend := sp, rs_seen := seen \<rparr>)"
      "inbox_boundary en v (rs \<lparr> rs_spend := sp, rs_seen := seen \<rparr>)
         (perform (en_externals en) (sv_arrivals v) w) =
         (Ok (delivery, rs \<lparr> rs_spend := sp, rs_seen := seen, rs_carried := c, rs_turn_start := t \<rparr>), w1)"
      "\<not> sv_cancelled v"
      "execute_super_step en v (rs_state rs) (rs_active rs) (rs_step rs) (rs_resume rs) (rs_parent rs)
         delivery (rs_started_at rs) w1 = (Ok (tr, st), w')"
      "res = after_step en (rs \<lparr> rs_spend := sp, rs_seen := seen, rs_carried := c, rs_turn_start := t \<rparr>) tr st w'"
proof -
  obtain r rs1 where cc: "check_ceiling en rs (w_journal w) = (r, rs1)" by (metis surj_pair)
  obtain sp seen where rs1: "rs1 = rs \<lparr> rs_spend := sp, rs_seen := seen \<rparr>"
    using check_ceiling_keeps [OF cc] by blast
  obtain ib w1 where bd: "inbox_boundary en v rs1 (perform (en_externals en) (sv_arrivals v) w) = (ib, w1)"
    by (metis surj_pair)
  show thesis
  proof (cases r)
    case (Inl e)
    then show thesis using assms failed by (auto simp: loop_step_def cc)
  next
    case (Inr halt)
    show thesis
    proof (cases halt)
      case (Some h)
      then show thesis
        using assms Inr halted [where ?rs1.0 = rs1 and halt = h] cc by (auto simp: loop_step_def split: prod.splits)
    next
      case None
      show thesis
      proof (cases ib)
        case (Inl e)
        then show thesis using assms failed \<open>r = Inr halt\<close> None by (auto simp: loop_step_def cc bd)
      next
        case (Inr p)
        obtain delivery rs2 where p: "p = (delivery, rs2)" by (metis surj_pair)
        obtain c t where rs2: "rs2 = rs1 \<lparr> rs_carried := c, rs_turn_start := t \<rparr>"
          using inbox_boundary_keeps bd Inr p by blast
        show thesis
          using assms failed stepped [where sp = sp and seen = seen and delivery = delivery and c = c and t = t and ?w1.0 = w1] cc bd Inr p rs2 rs1 \<open>r = Inr halt\<close> None
          by (auto simp: loop_step_def split: if_splits prod.splits sum.splits)
      qed
    qed
  qed
qed

lemma halt_run_state: "halt_run en rs halt w = (Ok outcome, w') \<Longrightarrow>
    \<exists>cid. outcome = Interrupted (JObject [(''rusty.halted'', halt)]) (rs_state rs) cid"
  by (auto simp: halt_run_def Let_def split: option.splits prod.splits sum.splits)

lemma loop_step_refines:
  assumes "loop_step en v rs w = (res, w')"
  shows "case res of
      Continue rs' \<Rightarrow> pregel_step (en_graph en) (en_spec en) (rs_state rs, rs_active rs) (rs_state rs', rs_active rs')
        \<and> rs_active rs' \<noteq> []
    | Stop (Inl e) \<Rightarrow> True
    | Stop (Inr (Done st)) \<Rightarrow>
        rs_steps_run rs < cf_max_steps (en_config en) \<and>
        pregel_step (en_graph en) (en_spec en) (rs_state rs, rs_active rs) (st, [])
    | Stop (Inr (Interrupted value st cid)) \<Rightarrow> st = rs_state rs"
  using assms
proof (cases rule: loop_step_cases)
  case (failed e)
  then show ?thesis by simp
next
  case (halted rs1 halt r)
  have "rs_state rs1 = rs_state rs" using check_ceiling_keeps [OF halted(1)] by auto
  then show ?thesis using halted halt_run_state [of en rs1 halt w _ w'] by (auto split: sum.splits)
next
  case (stepped sp seen c t delivery w1 tr st)
  have lt: "rs_steps_run rs < cf_max_steps (en_config en)"
    using check_ceiling_steps [OF stepped(1)] by simp
  show ?thesis
    using execute_refines [OF stepped(4)] lt stepped(5)
    by (auto simp: after_step_def split: prod.splits sum.splits)
qed

lemma run_loop_refines:
  assumes "run_loop en vs rs w = (Ok outcome, w')" "rs_active rs \<noteq> []"
    "rs_steps_run rs \<le> cf_max_steps (en_config en)"
  shows "\<exists>n active. rs_steps_run rs + n \<le> cf_max_steps (en_config en) \<and>
     (pregel_step (en_graph en) (en_spec en) ^^ n) (rs_state rs, rs_active rs) (outcome_state outcome, active) \<and>
     (is_interrupted outcome \<longleftrightarrow> active \<noteq> [])"
  using assms
proof (induction en vs rs w rule: run_loop.induct)
  case (1 en vs rs w)
  let ?R = "pregel_step (en_graph en) (en_spec en)"
  obtain res w1 where ls: "loop_step en (vs (rs_steps_run rs)) rs w = (res, w1)" by (metis surj_pair)
  note lr = loop_step_refines [OF ls]
  show ?case
  proof (cases res)
    case (Stop r)
    then have r: "r = Ok outcome" using 1(2) ls by (simp add: run_loop.simps [of en vs rs w])
    show ?thesis
    proof (cases outcome)
      case (Done st)
      then show ?thesis using lr r Stop by (intro exI [of _ "Suc 0"] exI [of _ "[]"]) auto
    next
      case (Interrupted v st cid)
      then show ?thesis
        using lr r Stop 1(3,4) by (intro exI [of _ 0] exI [of _ "rs_active rs"]) simp
    qed
  next
    case (Continue rs')
    have "run_loop en vs rs' w1 = (Ok outcome, w')"
      using 1(2) ls Continue by (simp add: run_loop.simps [of en vs rs w])
    moreover have "rs_steps_run rs' = Suc (rs_steps_run rs)" "rs_steps_run rs < cf_max_steps (en_config en)"
      using loop_step_steps ls Continue by blast+
    ultimately obtain n active where n: "Suc (rs_steps_run rs) + n \<le> cf_max_steps (en_config en)"
      "(?R ^^ n) (rs_state rs', rs_active rs') (outcome_state outcome, active)"
      "is_interrupted outcome \<longleftrightarrow> active \<noteq> []"
      using 1(1) [OF ls [symmetric] Continue] lr Continue by auto
    have "(?R ^^ Suc n) (rs_state rs, rs_active rs) (outcome_state outcome, active)"
      by (rule relpowp_Suc_I2 [OF _ n(2)]) (use lr Continue in simp)
    then show ?thesis using n by (intro exI [of _ "Suc n"] exI [of _ active]) simp
  qed
qed

text \<open>Where a run starts: the entry point, or what the restored checkpoint scheduled.\<close>

definition start_point ::
  "'s store_ops option \<Rightarrow> graph \<Rightarrow> run_config \<Rightarrow> channel_state \<Rightarrow> 's \<Rightarrow> rusty_error + channel_state \<times> active_task list" where
  "start_point ck g cf st0 s =
     (if cf_checkpoint_id cf = None \<and> cf_resume cf = None then Ok (st0, [unscoped (g_entry g)])
      else case ck of
        None \<Rightarrow> Err (Checkpoint NoCheckpointer)
      | Some ops \<Rightarrow> rbind (load_checkpoint ops cf s)
          (\<lambda>cp. Ok (cp_state cp, map unscoped (cp_next_nodes cp))))"

lemma init_run_cases:
  assumes "init_run x ck g spec cf st0 w = (start, w1)"
  obtains (failed) e where "start = Finished (Err e)" "w1 = w" "start_point ck g cf st0 (w_store w) = Err e"
  | (completed) st where "start = Finished (Ok (Done st))" "start_point ck g cf st0 (w_store w) = Ok (st, [])"
      "w_store w1 = w_store w"
  | (started) rc parent carried sa st active n resume where
      "start = Started \<lparr> en_externals = x, en_checkpointer = ck, en_graph = g, en_spec = spec, en_config = cf,
         en_recorder = rc \<rparr> (initial_run_state st active n resume parent carried sa)"
      "start_point ck g cf st0 (w_store w) = Ok (st, active)" "active \<noteq> []" "w_store w1 = w_store w"
      "resume = cf_resume cf"
proof (cases "cf_checkpoint_id cf = None \<and> cf_resume cf = None")
  case True
  then show thesis
    using assms started
    by (auto simp: init_run_def start_point_def Let_def declare_run_def run_started_at_def record_draft_def
        read_clock_def split: prod.splits if_splits)
next
  case False
  show thesis
  proof (cases ck)
    case None
    then show thesis using assms failed False by (auto simp: init_run_def start_point_def Let_def)
  next
    case (Some ops)
    show thesis
    proof (cases "load_checkpoint ops cf (w_store w)")
      case (Inl e)
      then show thesis using assms failed False Some by (auto simp: init_run_def start_point_def Let_def)
    next
      case (Inr cp)
      then show thesis
        using assms completed started False Some
        by (auto simp: init_run_def start_point_def Let_def declare_run_def run_started_at_def
            record_draft_def read_clock_def adopt_inbox_def split: prod.splits if_splits option.splits)
    qed
  qed
qed

text \<open>
  C1: a run computes a bounded iteration of the abstract super-step, however its tasks are
  scheduled.  If a run returns an outcome, its state is what at most \<open>max_steps\<close> abstract
  super-steps make of the state it started from; the run is done exactly when no task is left,
  and interrupted with the whole pending active set otherwise.
\<close>

theorem run_refines_pregel:
  assumes "run_inner x ck g spec cf vs st0 w = (Ok outcome, w')"
  shows "\<exists>start n active. start_point ck g cf st0 (w_store w) = Ok start \<and> n \<le> cf_max_steps cf \<and>
     (pregel_step g spec ^^ n) start (outcome_state outcome, active) \<and>
     (is_interrupted outcome \<longleftrightarrow> active \<noteq> [])"
proof -
  obtain start w1 where i: "init_run x ck g spec cf st0 w = (start, w1)" by (metis surj_pair)
  from i show ?thesis
  proof (cases rule: init_run_cases)
    case (completed st)
    then have "outcome = Done st" using assms i by (simp add: run_inner_def)
    then show ?thesis using completed by (intro exI [of _ "(st, [])"] exI [of _ 0] exI [of _ "[]"]) simp
  next
    case (started rc parent carried sa st active n resume)
    then show ?thesis
      using assms i run_loop_refines [of _ vs _ w1 outcome w']
      by (fastforce simp: run_inner_def initial_run_state_def)
  qed (use assms i in \<open>simp add: run_inner_def\<close>)
qed

theorem run_refines_pregel_witness:
  "\<exists>n active. n \<le> 3 \<and> (pregel_step ask_graph ask_spec ^^ n) ([], [unscoped ''a'']) ([(''x'', JBool True)], active) \<and>
     active \<noteq> []"
proof -
  let ?run = "run_inner demo_externals None ask_graph ask_spec ask_config (\<lambda>_. demo_env) [] (demo_world ())"
  let ?outcome = "Interrupted (JString ''sure'') [(''x'', JBool True)] ''c1''"
  have "fst ?run = Ok ?outcome" by code_simp
  then have "?run = (Ok ?outcome, snd ?run)" by (metis prod.collapse)
  moreover have "start_point None ask_graph ask_config [] s = Ok ([], [unscoped ''a''])" for s :: unit
    by (simp add: start_point_def ask_config_def with_max_steps_def config_new_def ask_graph_def)
  moreover have "cf_max_steps ask_config = 3" by (simp add: ask_config_def with_max_steps_def config_new_def)
  ultimately show ?thesis using run_refines_pregel [of demo_externals None ask_graph ask_spec ask_config] by fastforce
qed

end
