(* ===== verification/Run_Evidence.thy ===== *)
theory Run_Evidence
  imports Run_Refinement
begin

text \<open>
  What a run leaves behind.  Everything a run does to its world is a sequence of a few primitive
  changes, collected in the relation \<open>evolves\<close>; invariants of the journal and of the checkpoint
  store are proved once against that relation.  The second part relates the outcome of a run to
  the newest checkpoint of its thread and to the run that resumes from it.
\<close>

section \<open>How a run changes its world\<close>

inductive evolves :: "'s engine \<Rightarrow> 's world \<Rightarrow> 's world \<Rightarrow> bool" for en w where
  same: "evolves en w w"
| records: "evolves en w w1 \<Longrightarrow> evolves en w (snd (record_draft (en_externals en) d w1))"
| ticks: "evolves en w w1 \<Longrightarrow> evolves en w (snd (read_clock (en_externals en) w1))"
| mints: "evolves en w w1 \<Longrightarrow> evolves en w (snd (mint_id (en_externals en) w1))"
| offers: "evolves en w w1 \<Longrightarrow> evolves en w (emit (en_config en) e w1)"
| inboxes: "evolves en w w1 \<Longrightarrow> evolves en w (w1 \<lparr> w_inbox := ib \<rparr>)"
| puts: "evolves en w w1 \<Longrightarrow> en_checkpointer en = Some ck \<Longrightarrow>
    cp_journal_ref cp = Some (head_ref (w_journal w1)) \<Longrightarrow> so_put ck cp (w_store w1) = (r, s) \<Longrightarrow>
    evolves en w (w1 \<lparr> w_store := s \<rparr>)"

lemma evolves_trans: "evolves en w1 w2 \<Longrightarrow> evolves en w w1 \<Longrightarrow> evolves en w w2"
  by (induction rule: evolves.induct) (auto intro: evolves.intros)

lemma evolves_record:
  "record_draft (en_externals en) d w1 = (eid, w2) \<Longrightarrow> evolves en w w1 \<Longrightarrow> evolves en w w2"
  using records [of en w w1 d] by simp

lemma evolves_settle_loop:
  "settle_loop (rx_codec (en_externals en)) parent l ib (w_journal w1) = (l', ib', j') \<Longrightarrow> evolves en w w1 \<Longrightarrow>
     evolves en w (w1 \<lparr> w_journal := j' \<rparr>)"
proof (induction "rx_codec (en_externals en)" parent l ib "w_journal w1" arbitrary: w1 rule: settle_loop.induct)
  case (1 parent l ib)
  show ?case
  proof (cases "settle_next ib (journal_len (w_journal w1))")
    case None
    then show ?thesis using 1(2,3) by (auto simp: settle_loop.simps)
  next
    case (Some p)
    obtain m ib1 where p: "p = (m, ib1)" by (metis surj_pair)
    let ?d = "intake_draft m (case l of Some e \<Rightarrow> Some e | None \<Rightarrow> parent)"
    obtain eid j1 where r: "record_event (rx_codec (en_externals en)) ?d (w_journal w1) = (eid, j1)"
      by (metis surj_pair)
    let ?w2 = "w1 \<lparr> w_journal := j1 \<rparr>"
    have "evolves en w ?w2" using records [OF 1(3), of ?d] by (simp add: record_draft_def r)
    moreover have "settle_loop (rx_codec (en_externals en)) parent (Some eid) (push_queue m ib1) j1 = (l', ib', j')"
      using 1(2) Some p r by (simp add: settle_loop.simps [of _ parent l ib])
    ultimately show ?thesis using 1(1) [OF Some p [symmetric], of eid ?w2] r by simp
  qed
qed

lemma evolves_settle_world:
  assumes "settle_world (en_externals en) parent ib w1 = (l, w2)" "evolves en w w1"
  shows "evolves en w w2"
proof -
  obtain l' ib' j' where s: "settle (rx_codec (en_externals en)) parent ib (w_journal w1) = (l', ib', j')"
    by (metis surj_pair)
  then have "evolves en w (w1 \<lparr> w_journal := j' \<rparr>)"
    using evolves_settle_loop assms(2) unfolding settle_def by blast
  then show ?thesis using assms(1) s inboxes [of en w "w1 \<lparr> w_journal := j' \<rparr>" "Some ib'"]
    by (auto simp: settle_world_def)
qed

lemma evolves_perform: "evolves en w w1 \<Longrightarrow> evolves en w (perform (en_externals en) acts w1)"
proof (induction acts arbitrary: w1)
  case (Cons a acts)
  have "evolves en w (act (en_externals en) a w1)"
    using Cons.prems by (cases a) (auto intro: evolves.intros)
  then show ?case using Cons.IH by (simp add: perform_def)
qed (simp add: perform_def)

lemma evolves_spawn_task:
  "spawn_task en si t w1 = (r, w2) \<Longrightarrow> evolves en w w1 \<Longrightarrow> evolves en w w2"
  by (auto simp: spawn_task_def split: option.splits sum.splits prod.splits
      intro: evolves.intros evolves_record)

lemma evolves_spawn_tasks:
  "spawn_tasks en v si i ts w1 = (r, w2) \<Longrightarrow> evolves en w w1 \<Longrightarrow> evolves en w w2"
proof (induction ts arbitrary: i w1 w2 r)
  case (Cons t ts)
  obtain r1 w3 where s: "spawn_task en si t w1 = (r1, w3)" by (metis surj_pair)
  note w3 = evolves_spawn_task [OF s Cons.prems(2)]
  obtain r2 w4 where rest: "spawn_tasks en v si (Suc i) ts (perform (en_externals en) (sv_during v i) w3) = (r2, w4)"
    by (metis surj_pair)
  show ?case
    using Cons.prems(1) w3 Cons.IH [OF rest evolves_perform [OF w3]]
    by (cases r1; cases r2) (auto simp: s rest)
qed simp

lemma evolves_join_tasks:
  "join_tasks en v n ivs k is b w1 = (e, b', w2) \<Longrightarrow> evolves en w w1 \<Longrightarrow> evolves en w w2"
proof (induction "is" arbitrary: k b w1)
  case (Cons i "is")
  note w1 = evolves_perform [OF Cons.prems(2), of "sv_joining v k"]
  show ?case
  proof (cases "iv_result (ivs ! i)")
    case (Inl f)
    then show ?thesis
      using Cons.prems(1) w1 by (auto simp: Let_def split: if_splits option.splits intro: evolves.intros)
  next
    case (Inr out)
    then show ?thesis
      using Cons.prems(1) w1 Cons.IH [OF _ offers [OF w1]] by (auto simp: Let_def split: if_splits)
  qed
qed simp

lemma mint_checkpoint_props:
  assumes "mint_checkpoint en n st names ib w1 = (cp, w2)"
  shows "evolves en w w1 \<Longrightarrow> evolves en w w2" "cp_journal_ref cp = Some (head_ref (w_journal w2))"
    "cp_thread_id cp = cf_thread_id (en_config en)" "cp_state cp = st" "cp_next_nodes cp = names"
    "cp_step cp = n" "h_inbox (cp_header cp) = ib" "w_store w2 = w_store w1" "w_inbox w2 = w_inbox w1"
proof -
  define wa where "wa = snd (mint_id (en_externals en) w1)"
  define wb where "wb = snd (read_clock (en_externals en) wa)"
  have w2: "w2 = snd (read_clock (en_externals en) wb)"
    using assms by (auto simp: mint_checkpoint_def Let_def wa_def wb_def split: prod.splits)
  show "evolves en w w1 \<Longrightarrow> evolves en w w2"
    unfolding w2 wb_def wa_def by (intro evolves.ticks evolves.mints)
  show "w_store w2 = w_store w1" "w_inbox w2 = w_inbox w1"
    by (simp_all add: w2 wb_def wa_def read_clock_def mint_id_def Let_def split_beta)
qed (use assms in \<open>auto simp: mint_checkpoint_def Let_def split: prod.splits\<close>)

lemma evolves_put_checkpoint:
  assumes "put_checkpoint en ck cp es parent w1 = (r, w2)" "evolves en w w1"
    "en_checkpointer en = Some ck" "cp_journal_ref cp = Some (head_ref (w_journal w1))"
  shows "evolves en w w2"
proof -
  obtain r1 s where p: "so_put ck cp (w_store w1) = (r1, s)" by (metis surj_pair)
  note w1 = puts [OF assms(2,3,4) p]
  then show ?thesis
    using assms(1) by (auto simp: put_checkpoint_def p Let_def split: sum.splits prod.splits
        intro: evolves.intros evolves_record)
qed

lemma evolves_mint_put:
  assumes "mint_checkpoint en n st names ib w1 = (cp, w2)" "put_checkpoint en ck cp es parent w2 = (r, w3)"
    "evolves en w w1" "en_checkpointer en = Some ck"
  shows "evolves en w w3"
  using evolves_put_checkpoint [OF assms(2) mint_checkpoint_props(1) [OF assms(1,3)] assms(4)]
    mint_checkpoint_props(2) [OF assms(1)] by blast

lemma evolves_suspend_step:
  assumes "suspend_step en n delivery st active iv value w1 = (r, w2)" "evolves en w w1"
  shows "evolves en w w2"
proof -
  obtain ev w3 where r: "record_draft (en_externals en)
      ((draft_new KInterrupt (iv_effect iv)) \<lparr> d_node := Some (iv_name iv), d_input := Some value,
         d_status := StatusInterrupted, d_parent := Some (iv_input_event iv) \<rparr>) w1 = (ev, w3)"
    by (metis surj_pair)
  obtain cp w4 where m: "mint_checkpoint en n st (map at_name active) (inbox_stamp delivery w3) w3 = (cp, w4)"
    by (metis surj_pair)
  note w3 = evolves_record [OF r assms(2)]
  show ?thesis
    using assms(1) mint_checkpoint_props(1) [OF m w3] evolves_mint_put [OF m _ w3]
    by (auto simp: suspend_step_def r m Let_def split: option.splits prod.splits sum.splits)
qed

lemma evolves_record_outputs:
  "record_outputs (en_externals en) ivs cs l w1 = (l', w2) \<Longrightarrow> evolves en w w1 \<Longrightarrow> evolves en w w2"
proof (induction cs arbitrary: l w1)
  case (Cons c cs)
  then show ?case by (cases c) (auto split: prod.splits intro: evolves_record)
qed simp

lemma evolves_extend_turn:
  assumes "extend_turn en v n ev next w1 = (next', ext, p, w2)" "evolves en w w1"
  shows "evolves en w w2"
proof (cases "next = []")
  case True
  let ?w0 = "perform (en_externals en) (sv_late v) w1"
  note w0 = evolves_perform [OF assms(2), of "sv_late v"]
  show ?thesis
  proof (cases "w_inbox ?w0")
    case None
    then show ?thesis using assms(1) True w0 by (simp add: extend_turn_def Let_def)
  next
    case (Some ib)
    obtain l w3 where s: "settle_world (en_externals en) (Some ev) ib ?w0 = (l, w3)" by (metis surj_pair)
    note w3 = evolves_settle_world [OF s w0]
    show ?thesis
      using assms(1) True Some w3
      by (auto simp: extend_turn_def Let_def s split: if_splits prod.splits
          intro: evolves.inboxes evolves_record)
  qed
qed (use assms in \<open>simp add: extend_turn_def\<close>)

lemma evolves_boundary_checkpoint:
  assumes "boundary_checkpoint en n st next ext ev w1 = (r, w2)" "evolves en w w1"
  shows "evolves en w w2"
  using assms by (auto simp: boundary_checkpoint_def Let_def split: option.splits prod.splits
      intro: evolves_mint_put)

lemma evolves_route_and_save:
  assumes "route_and_save en v n st b ev w1 = (r, w2)" "evolves en w w1"
  shows "evolves en w w2"
proof (cases "route_step (en_graph en) st (br_commands b) (br_ran b)")
  case (Inr routed)
  obtain nx ext p w3 where e: "extend_turn en v n ev routed w1 = (nx, ext, p, w3)" by (metis surj_pair)
  obtain re w4 where r: "record_draft (en_externals en) (routing_draft nx (br_commands b) p) w3 = (re, w4)"
    by (metis surj_pair)
  obtain r5 w5 where c: "boundary_checkpoint en n st nx ext re w4 = (r5, w5)" by (metis surj_pair)
  have "w5 = w2" using assms(1) by (auto simp: route_and_save_def Inr e r c Let_def split: sum.splits)
  then show ?thesis
    using evolves_boundary_checkpoint [OF c evolves_record [OF r evolves_extend_turn [OF e assms(2)]]] by simp
qed (use assms in \<open>simp add: route_and_save_def\<close>)

lemma evolves_commit_step:
  assumes "commit_step en v si ivs b w1 = (r, w2)" "evolves en w w1"
  shows "evolves en w w2"
proof -
  obtain l w3 where ro: "record_outputs (en_externals en) ivs (sort_key fst (br_completed b)) None w1 = (l, w3)"
    by (metis surj_pair)
  note w3 = evolves_record_outputs [OF ro assms(2)]
  obtain st r4 where ap: "apply_super_step (en_spec en) (si_snapshot si) (map snd (sort_key fst (br_writes b))) = (st, r4)"
    by (metis surj_pair)
  show ?thesis
  proof (cases r4)
    case (Inr u)
    define merged where "merged = merged_updates st (map snd (sort_key fst (br_writes b)))"
    obtain ev w4 where r: "record_draft (en_externals en)
        (step_end_draft merged (case l of Some l \<Rightarrow> l | None \<Rightarrow> si_start_event si)) w3 = (ev, w4)"
      by (metis surj_pair)
    note w4 = evolves_record [OF r w3]
    show ?thesis
      using assms(1) w4 offers [OF w4]
      by (auto simp: commit_step_def ro ap Inr Let_def r merged_def [symmetric] split: if_splits
          elim: evolves_route_and_save)
  qed (use assms w3 in \<open>simp add: commit_step_def ro ap Let_def\<close>)
qed

lemma evolves_plan_step:
  "plan_step en st active n resume parent delivery sa w1 = (si, w2) \<Longrightarrow> evolves en w w1 \<Longrightarrow> evolves en w w2"
  by (auto simp: plan_step_def Let_def split: prod.splits intro: evolves_record evolves.offers)

lemma evolves_execute:
  assumes "execute_super_step en v st active n resume parent delivery sa w1 = (r, w2)" "evolves en w w1"
  shows "evolves en w w2"
  using assms(1)
proof (cases rule: execute_cases)
  case (not_spawned si w3 e)
  show ?thesis
    by (rule evolves_spawn_tasks [OF not_spawned(2) evolves_plan_step [OF not_spawned(1) assms(2)]])
next
  case (aborted si w3 ivs w4 e b)
  show ?thesis
    by (rule evolves_join_tasks [OF aborted(3) evolves_spawn_tasks [OF aborted(2)
          evolves_plan_step [OF aborted(1) assms(2)]]])
next
  case (suspended si w3 ivs w4 i val b w5 s)
  show ?thesis
    by (rule evolves_suspend_step [OF suspended(4) evolves_join_tasks [OF suspended(3)
          evolves_spawn_tasks [OF suspended(2) evolves_plan_step [OF suspended(1) assms(2)]]]])
next
  case (committed si w3 ivs w4 b w5)
  show ?thesis
    by (rule evolves_commit_step [OF committed(4) evolves_join_tasks [OF committed(3)
          evolves_spawn_tasks [OF committed(2) evolves_plan_step [OF committed(1) assms(2)]]]])
qed

lemma evolves_halt_run:
  "halt_run en rs halt w1 = (r, w2) \<Longrightarrow> evolves en w w1 \<Longrightarrow> evolves en w w2"
  by (auto simp: halt_run_def Let_def split: option.splits prod.splits sum.splits elim: evolves_mint_put)

lemma evolves_cancel_run:
  assumes "cancel_run en rs cause keep parent ib w1 = (e, w2)" "evolves en w w1"
  shows "evolves en w w2"
proof -
  obtain dropped ib1 where d: "(if keep then (no_drops, ib) else inbox_clear ib) = (dropped, ib1)"
    by (metis surj_pair)
  define d1 where "d1 = (draft_new KRunCancelled Pure) \<lparr> d_output := Some (cancellation_to_value
      \<lparr> rc_cause = cause, rc_keep_inbox = keep, rc_dropped = dropped \<rparr>), d_parent := parent \<rparr>"
  obtain ev w3 where r: "record_draft (en_externals en) d1 (w1 \<lparr> w_inbox := Some ib1 \<rparr>) = (ev, w3)"
    by (metis surj_pair)
  note w3 = evolves_record [OF r inboxes [OF assms(2)]]
  show ?thesis
    using assms(1) w3 unfolding cancel_run_def d Let_def prod.case d1_def [symmetric] r
    by (auto split: option.splits prod.splits sum.splits elim: evolves_mint_put)
qed

lemma evolves_inbox_boundary:
  assumes "inbox_boundary en v rs w1 = (r, w2)" "evolves en w w1"
  shows "evolves en w w2"
proof (cases "w_inbox w1")
  case (Some ib)
  obtain l w3 where s: "settle_world (en_externals en) (rs_parent rs) ib w1 = (l, w3)" by (metis surj_pair)
  note w4 = evolves_perform [OF evolves_settle_world [OF s assms(2)], of "sv_boundary v"]
  have drain: "drain_boundary (en_externals en) rs parent ib2 w5 = (d, w6) \<Longrightarrow> evolves en w w5 \<Longrightarrow> evolves en w w6"
    for parent ib2 w5 d w6
    by (auto simp: drain_boundary_def Let_def split: prod.splits if_splits intro: evolves.intros)
  show ?thesis
    using assms(1) w4 by (auto simp: inbox_boundary_def Some s Let_def split: prod.splits option.splits
        elim: drain evolves_cancel_run)
qed (use assms in \<open>simp add: inbox_boundary_def\<close>)

lemma evolves_loop_step:
  assumes "loop_step en v rs w1 = (res, w2)" "evolves en w w1"
  shows "evolves en w w2"
proof -
  note w3 = evolves_perform [OF assms(2), of "sv_arrivals v"]
  show ?thesis
    using assms w3 unfolding loop_step_def
    by (auto split: prod.splits sum.splits option.splits if_splits
        elim: evolves_halt_run evolves_execute evolves_inbox_boundary)
qed

lemma evolves_run_loop:
  "run_loop en vs rs w1 = (r, w2) \<Longrightarrow> evolves en w w1 \<Longrightarrow> evolves en w w2"
proof (induction en vs rs w1 rule: run_loop.induct)
  case (1 en vs rs w1)
  obtain res w3 where ls: "loop_step en (vs (rs_steps_run rs)) rs w1 = (res, w3)" by (metis surj_pair)
  note w3 = evolves_loop_step [OF ls 1(3)]
  show ?case
    using 1(1) [OF ls [symmetric]] 1(2) w3
    by (cases res) (auto simp: run_loop.simps [of en vs rs w1] ls)
qed

lemma evolves_declare_run: "evolves en w w1 \<Longrightarrow> evolves en w (snd (declare_run en w1))"
  by (auto simp: declare_run_def run_started_at_def Let_def split: prod.splits intro: evolves.intros)
     (metis evolves.ticks snd_conv evolves.records)+

lemma evolves_adopt_inbox: "evolves en w w1 \<Longrightarrow> evolves en w (snd (adopt_inbox cp w1))"
  by (auto simp: adopt_inbox_def split: option.splits intro: evolves.intros)

definition engine_of ::
  "run_externals \<Rightarrow> 's store_ops option \<Rightarrow> graph \<Rightarrow> state_spec \<Rightarrow> run_config \<Rightarrow> recorder \<Rightarrow> 's engine" where
  "engine_of x ck g spec cf rc = \<lparr> en_externals = x, en_checkpointer = ck, en_graph = g, en_spec = spec,
     en_config = cf, en_recorder = rc \<rparr>"

lemma engine_of_simps [simp]:
  "en_externals (engine_of x ck g spec cf rc) = x" "en_checkpointer (engine_of x ck g spec cf rc) = ck"
  "en_graph (engine_of x ck g spec cf rc) = g" "en_spec (engine_of x ck g spec cf rc) = spec"
  "en_config (engine_of x ck g spec cf rc) = cf"
  by (simp_all add: engine_of_def)

lemma evolves_init_run:
  assumes "init_run x ck g spec cf st0 w = (start, w1)"
  obtains rc where "evolves (engine_of x ck g spec cf rc) w w1"
    "\<And>en rs. start = Started en rs \<Longrightarrow> en = engine_of x ck g spec cf rc"
proof (cases "cf_checkpoint_id cf = None \<and> cf_resume cf = None")
  case True
  let ?en = "engine_of x ck g spec cf (base_recorder x cf g)"
  have "w1 = snd (declare_run ?en w)" "start = Started en rs \<Longrightarrow> en = ?en" for en rs
    using assms True by (auto simp: init_run_def Let_def engine_of_def split: prod.splits)
  then show thesis using that evolves_declare_run [OF evolves.same] by blast
next
  case False
  have stay: thesis if "w1 = w" "\<And>en rs. start \<noteq> Started en rs"
    using that \<open>\<And>rc. evolves (engine_of x ck g spec cf rc) w w1 \<Longrightarrow>
      (\<And>en rs. start = Started en rs \<Longrightarrow> en = engine_of x ck g spec cf rc) \<Longrightarrow> thesis\<close> evolves.same by blast
  show thesis
  proof (cases ck)
    case (Some ops)
    show thesis
    proof (cases "load_checkpoint ops cf (w_store w)")
      case (Inr cp)
      let ?en = "engine_of x ck g spec cf (resume_recorder cf cp (base_recorder x cf g))"
      let ?w2 = "snd (adopt_inbox cp (snd (record_draft x (resume_draft cf cp) w)))"
      have "evolves ?en w ?w2"
        using evolves_adopt_inbox [OF records [OF evolves.same, of ?en w "resume_draft cf cp"]] by simp
      moreover have "w1 = ?w2 \<or> w1 = snd (declare_run ?en ?w2)" "start = Started en rs \<Longrightarrow> en = ?en" for en rs
        using assms False Some Inr
        by (auto simp: init_run_def Let_def engine_of_def split: prod.splits if_splits)
      ultimately show thesis using that evolves_declare_run by metis
    qed (use assms False Some stay in \<open>auto simp: init_run_def Let_def\<close>)
  qed (use assms False stay in \<open>auto simp: init_run_def Let_def\<close>)
qed

lemma evolves_run_inner:
  assumes "run_inner x ck g spec cf vs st0 w = (r, w')"
  obtains rc where "evolves (engine_of x ck g spec cf rc) w w'"
proof -
  obtain start w1 where i: "init_run x ck g spec cf st0 w = (start, w1)" by (metis surj_pair)
  from evolves_init_run [OF i] obtain rc where rc: "evolves (engine_of x ck g spec cf rc) w w1"
    "\<And>en rs. start = Started en rs \<Longrightarrow> en = engine_of x ck g spec cf rc" by blast
  show thesis
  proof (rule that [of rc], cases start)
    case (Started en rs)
    then show "evolves (engine_of x ck g spec cf rc) w w'"
      using assms i rc evolves_run_loop [OF _ rc(1)] by (simp add: run_inner_def)
  qed (use assms i rc in \<open>simp add: run_inner_def\<close>)
qed

section \<open>The journal and the checkpoints it vouches for\<close>

lemma journal_inv_clock [simp]: "journal_inv cd (j \<lparr> j_clock := c \<rparr>) \<longleftrightarrow> journal_inv cd j"
  by (simp add: journal_inv_def event_at_def)

text \<open>A checkpoint is vouched for when its journal reference is the head of a prefix of the events.\<close>

definition vouched :: "codec \<Rightarrow> run_event list \<Rightarrow> checkpoint \<Rightarrow> bool" where
  "vouched cd es cp \<longleftrightarrow> (\<exists>r. cp_journal_ref cp = Some r \<and> jr_events r \<le> length es \<and>
     recompute_head_hash cd (take (jr_events r) es) = Ok (jr_sha256 r))"

lemma vouched_append: "vouched cd es cp \<Longrightarrow> vouched cd (es @ es') cp"
  by (auto simp: vouched_def)

lemma vouched_head: "journal_inv cd j \<Longrightarrow> cp_journal_ref cp = Some (head_ref j) \<Longrightarrow> vouched cd (j_events j) cp"
  by (simp add: vouched_def head_ref_def journal_inv_def)

lemma evolves_journal:
  assumes "evolves en w w'" "codec_total (rx_codec (en_externals en))"
    "journal_inv (rx_codec (en_externals en)) (w_journal w)"
  shows "journal_inv (rx_codec (en_externals en)) (w_journal w')"
  using assms
  by (induction rule: evolves.induct)
     (simp_all add: record_draft_journal journal_inv_record read_clock_def mint_id_def emit_def split_beta)

lemma evolves_prefix:
  assumes "evolves en w w'"
  shows "\<exists>es. j_events (w_journal w') = j_events (w_journal w) @ es"
  using assms
proof (induction rule: evolves.induct)
  case (records w1 d)
  then show ?case
    using record_event_appends [of "rx_codec (en_externals en)" d "w_journal w1"]
    by (auto simp: record_draft_journal)
qed (simp_all add: read_clock_def mint_id_def emit_def split_beta)

lemma memory_put_cases:
  assumes "memory_put cp st = (r, st')"
  shows "st' = st \<or> st' = st(cp_thread_id cp := st (cp_thread_id cp) @ [cp])"
  using assms by (auto simp: memory_put_def split: if_splits)

lemma evolves_vouched:
  assumes "evolves en w w'" "codec_total (rx_codec (en_externals en))"
    "journal_inv (rx_codec (en_externals en)) (w_journal w)"
    "\<And>ck. en_checkpointer en = Some ck \<Longrightarrow> so_put ck = memory_put"
  shows "\<exists>cps. w_store w' t = w_store w t @ cps \<and>
     (\<forall>cp \<in> set cps. vouched (rx_codec (en_externals en)) (j_events (w_journal w')) cp)"
  using assms
proof (induction rule: evolves.induct)
  case (records w1 d)
  then obtain cps where cps: "w_store w1 t = w_store w t @ cps"
    "\<forall>cp \<in> set cps. vouched (rx_codec (en_externals en)) (j_events (w_journal w1)) cp" by blast
  obtain e where "j_events (w_journal (snd (record_draft (en_externals en) d w1))) = j_events (w_journal w1) @ [e]"
    using record_event_appends by (metis record_draft_journal(1))
  then show ?case
    using cps vouched_append by (intro exI [of _ cps]) (simp add: record_draft_journal(2))
next
  case (puts w1 ck cp r s)
  then obtain cps where cps: "w_store w1 t = w_store w t @ cps"
    "\<forall>cp \<in> set cps. vouched (rx_codec (en_externals en)) (j_events (w_journal w1)) cp" by blast
  have "vouched (rx_codec (en_externals en)) (j_events (w_journal w1)) cp"
    using vouched_head evolves_journal [OF puts(1) puts.prems(1,2)] puts(3) by blast
  moreover have "s = w_store w1 \<or> s = (w_store w1)(cp_thread_id cp := w_store w1 (cp_thread_id cp) @ [cp])"
    using puts(2,4) puts.prems(3) memory_put_cases by metis
  ultimately show ?case
    using cps by (elim disjE) (cases "t = cp_thread_id cp", fastforce, force, force)
qed (auto simp: read_clock_def mint_id_def emit_def split_beta)

text \<open>
  C4: whatever its outcome, a run extends its evidence and never rewrites it.  The journal stays
  valid and keeps every earlier event, the store keeps every earlier checkpoint, and each
  checkpoint the run added carries the length and the head hash of a prefix of the journal, so it
  can be checked against the events that led to it.
\<close>

theorem run_extends_evidence:
  assumes "codec_total (rx_codec x)" "journal_inv (rx_codec x) (w_journal w)"
    "run_inner x (Some memory_ops) g spec cf vs st0 w = (r, w')"
  shows "journal_inv (rx_codec x) (w_journal w') \<and>
    (\<exists>es. j_events (w_journal w') = j_events (w_journal w) @ es) \<and>
    (\<forall>t. \<exists>cps. w_store w' t = w_store w t @ cps \<and>
       (\<forall>cp \<in> set cps. vouched (rx_codec x) (j_events (w_journal w')) cp))"
proof -
  from evolves_run_inner [OF assms(3)] obtain rc
    where e: "evolves (engine_of x (Some memory_ops) g spec cf rc) w w'" .
  have "so_put ck = memory_put" if "en_checkpointer (engine_of x (Some memory_ops) g spec cf rc) = Some ck" for ck
    using that by (auto simp: memory_ops_def)
  then show ?thesis
    using evolves_journal [OF e] evolves_prefix [OF e] evolves_vouched [OF e] assms(1,2) by simp
qed

definition ask_run :: "(rusty_error + execution_outcome) \<times> memory_store world" where
  "ask_run = run_inner demo_externals (Some memory_ops) ask_graph ask_spec ask_config (\<lambda>_. demo_env) []
     (demo_world (\<lambda>_. []))"

theorem run_extends_evidence_witness:
  "\<exists>cps. w_store (snd ask_run) ''t'' = cps \<and> length cps = 2 \<and>
     (\<forall>cp \<in> set cps. vouched (rx_codec demo_externals) (j_events (w_journal (snd ask_run))) cp)"
proof -
  have "codec_total (rx_codec demo_externals)" by (simp add: codec_total_def demo_externals_def)
  moreover have "journal_inv (rx_codec demo_externals) (w_journal (demo_world (\<lambda>_. []) :: memory_store world))"
    by (simp add: demo_world_def start_world_def)
  moreover have "run_inner demo_externals (Some memory_ops) ask_graph ask_spec ask_config (\<lambda>_. demo_env) []
      (demo_world (\<lambda>_. [])) = (fst ask_run, snd ask_run)" by (simp add: ask_run_def)
  moreover have "w_store (demo_world (\<lambda>_. []) :: memory_store world) ''t'' = []"
    by (simp add: demo_world_def start_world_def)
  moreover have "length (w_store (snd ask_run) ''t'') = 2" by code_simp
  ultimately show ?thesis
    using run_extends_evidence [of demo_externals "demo_world (\<lambda>_. [])" ask_graph ask_spec ask_config
        "\<lambda>_. demo_env" "[]" "fst ask_run" "snd ask_run"] by (metis append_Nil)
qed

section \<open>The outcome and the newest checkpoint\<close>

definition records_outcome :: "'s store_ops \<Rightarrow> string \<Rightarrow> 's \<Rightarrow> execution_outcome \<Rightarrow> bool" where
  "records_outcome ck thread s outcome \<longleftrightarrow> (\<exists>cp. so_get_latest ck s thread = Ok (Some cp) \<and>
     cp_state cp = outcome_state outcome \<and> (cp_next_nodes cp = [] \<longleftrightarrow> \<not> is_interrupted outcome) \<and>
     (\<forall>value st cid. outcome = Interrupted value st cid \<longrightarrow> cp_id cp = cid))"

text \<open>What a run relies on to find its last checkpoint again.\<close>

locale resumable_store =
  fixes ck :: "'s store_ops"
  assumes put_latest: "so_put ck c s = (Ok (), s') \<Longrightarrow> so_get_latest ck s' (cp_thread_id c) = Ok (Some c)"
begin

lemma put_checkpoint_latest:
  assumes "put_checkpoint en ck cp es p w = (Ok (), w')"
  shows "so_get_latest ck (w_store w') (cp_thread_id cp) = Ok (Some cp)"
proof -
  obtain r s where put: "so_put ck cp (w_store w) = (r, s)" by (metis surj_pair)
  have "r = Ok ()" "w_store w' = s"
    using assms record_draft_journal(2) [of "en_externals en" _ "w \<lparr> w_store := s \<rparr>"]
    by (cases r; auto simp: put_checkpoint_def put emit_def Let_def split_beta)+
  then show ?thesis using put put_latest by simp
qed

lemma mint_put_latest:
  assumes "mint_checkpoint en n st names ib w1 = (cp, w2)" "put_checkpoint en ck cp es p w2 = (Ok (), w3)"
  shows "so_get_latest ck (w_store w3) (cf_thread_id (en_config en)) = Ok (Some cp)"
    "cp_state cp = st" "cp_next_nodes cp = names"
  using put_checkpoint_latest [OF assms(2)] mint_checkpoint_props [OF assms(1)] by auto

lemma mint_put_interrupted:
  assumes "mint_checkpoint en n st names ib w1 = (cp, w2)" "put_checkpoint en ck cp es p w2 = (Ok (), w3)"
    "names \<noteq> []"
  shows "records_outcome ck (cf_thread_id (en_config en)) (w_store w3) (Interrupted value st (cp_id cp))"
  using mint_put_latest [OF assms(1,2)] assms(3) by (simp add: records_outcome_def)

lemma suspend_step_outcome:
  assumes "suspend_step en n delivery st active iv value w1 = (Ok tr, w2)" "en_checkpointer en = Some ck"
    "active \<noteq> []"
  shows "\<exists>outcome. tr = Finish outcome \<and> records_outcome ck (cf_thread_id (en_config en)) (w_store w2) outcome"
  using assms by (auto simp: suspend_step_def Let_def split: prod.splits sum.splits intro: mint_put_interrupted)

lemma halt_run_outcome:
  assumes "halt_run en rs halt w1 = (Ok outcome, w2)" "en_checkpointer en = Some ck" "rs_active rs \<noteq> []"
  shows "records_outcome ck (cf_thread_id (en_config en)) (w_store w2) outcome"
  using assms by (auto simp: halt_run_def Let_def split: prod.splits sum.splits intro: mint_put_interrupted)

lemma route_and_save_outcome:
  assumes "route_and_save en v n st b ev w1 = (Ok (Finish outcome, st'), w2)" "en_checkpointer en = Some ck"
  shows "records_outcome ck (cf_thread_id (en_config en)) (w_store w2) outcome"
proof -
  obtain routed where rt: "route_step (en_graph en) st (br_commands b) (br_ran b) = Ok routed"
    using assms(1) by (cases "route_step (en_graph en) st (br_commands b) (br_ran b)")
      (auto simp: route_and_save_def)
  obtain nx ext p w3 where e: "extend_turn en v n ev routed w1 = (nx, ext, p, w3)" by (metis surj_pair)
  obtain re w4 where r: "record_draft (en_externals en) (routing_draft nx (br_commands b) p) w3 = (re, w4)"
    by (metis surj_pair)
  have "boundary_checkpoint en n st nx ext re w4 = (Ok (), w2)" "nx = []" "outcome = Done st"
    using assms(1) by (auto simp: route_and_save_def rt e r Let_def split: prod.splits sum.splits if_splits)
  then show ?thesis
    using mint_put_latest [of en n st] assms(2)
    by (auto simp: boundary_checkpoint_def records_outcome_def Let_def split: prod.splits)
qed

lemma execute_outcome:
  assumes "execute_super_step en v st active n resume parent delivery sa w1 = (Ok (Finish outcome, st'), w2)"
    "en_checkpointer en = Some ck" "active \<noteq> []"
  shows "records_outcome ck (cf_thread_id (en_config en)) (w_store w2) outcome"
  using assms(1)
proof (cases rule: execute_cases)
  case (suspended si w3 ivs w4 i val b w5 s)
  then show ?thesis
    using suspend_step_outcome [of en n delivery st active "ivs ! i" val w5 _ w2] assms(2,3)
    by (cases s) auto
next
  case (committed si w3 ivs w4 b w5)
  from commit_step_ok [OF committed(4)] show ?thesis using route_and_save_outcome assms(2) by metis
qed simp_all

lemma loop_step_outcome:
  assumes "loop_step en v rs w1 = (Stop (Ok outcome), w2)" "en_checkpointer en = Some ck" "rs_active rs \<noteq> []"
  shows "records_outcome ck (cf_thread_id (en_config en)) (w_store w2) outcome"
  using assms(1)
proof (cases rule: loop_step_cases)
  case (halted rs1 halt r)
  have "rs_active rs1 = rs_active rs" using check_ceiling_keeps [OF halted(1)] by auto
  then show ?thesis using halted halt_run_outcome assms(2,3) by auto
next
  case (stepped sp seen c t delivery w3 tr st)
  have "tr = Finish outcome" using stepped(5)
    by (auto simp: after_step_def split: prod.splits sum.splits step_transition.splits)
  then show ?thesis using execute_outcome [OF _ assms(2,3)] stepped(4) by blast
qed simp

lemma run_loop_outcome:
  assumes "run_loop en vs rs w1 = (Ok outcome, w2)" "en_checkpointer en = Some ck" "rs_active rs \<noteq> []"
  shows "records_outcome ck (cf_thread_id (en_config en)) (w_store w2) outcome"
  using assms
proof (induction en vs rs w1 rule: run_loop.induct)
  case (1 en vs rs w1)
  obtain res w3 where ls: "loop_step en (vs (rs_steps_run rs)) rs w1 = (res, w3)" by (metis surj_pair)
  show ?case
  proof (cases res)
    case (Stop r)
    then show ?thesis using 1(2,3,4) ls loop_step_outcome by (simp add: run_loop.simps [of en vs rs w1])
  next
    case (Continue rs')
    then show ?thesis
      using 1(1) [OF ls [symmetric]] 1(2,3) ls loop_step_refines [OF ls]
      by (simp add: run_loop.simps [of en vs rs w1])
  qed
qed

end

interpretation memory: resumable_store memory_ops
  by unfold_locales (auto simp: memory_ops_def memory_put_def memory_get_latest_def split: if_splits)

lemma run_inner_outcome:
  assumes "run_inner x (Some memory_ops) g spec cf vs st0 w = (Ok outcome, w')" "cf_checkpoint_id cf = None"
  shows "records_outcome memory_ops (cf_thread_id cf) (w_store w') outcome"
proof -
  obtain start w1 where i: "init_run x (Some memory_ops) g spec cf st0 w = (start, w1)" by (metis surj_pair)
  from i show ?thesis
  proof (cases rule: init_run_cases)
    case (completed st)
    then obtain cp where "so_get_latest memory_ops (w_store w) (cf_thread_id cf) = Ok (Some cp)"
      "cp_state cp = st" "cp_next_nodes cp = []"
      using assms(2) by (auto simp: start_point_def load_checkpoint_def split: if_splits option.splits)
    then show ?thesis using assms(1) i completed by (auto simp: run_inner_def records_outcome_def)
  next
    case (started rc parent carried sa st active n resume)
    then show ?thesis
      using assms(1) i memory.run_loop_outcome [of _ vs _ w1 outcome w']
      by (fastforce simp: run_inner_def initial_run_state_def)
  qed (use assms i in \<open>simp add: run_inner_def\<close>)
qed

section \<open>Where a suspended run stopped\<close>

text \<open>
  The loop states a run passes through, the inbox batch the super-step of an iteration is given
  (none when the run halts at a ceiling before the boundary), and what a checkpoint has to stamp
  of an inbox: nothing of one that never accepted a send, otherwise its queues and its sequence
  counter, with the batch that was handed out but whose step did not commit.
\<close>

inductive run_at :: "'s engine \<Rightarrow> (nat \<Rightarrow> step_env) \<Rightarrow> run_state \<Rightarrow> 's world \<Rightarrow> run_state \<Rightarrow> 's world \<Rightarrow> bool"
  for en vs rs w where
  run_at_start: "run_at en vs rs w rs w"
| run_at_step: "run_at en vs rs w rs1 w1 \<Longrightarrow> loop_step en (vs (rs_steps_run rs1)) rs1 w1 = (Continue rs2, w2) \<Longrightarrow>
    run_at en vs rs w rs2 w2"

definition step_batch :: "'s engine \<Rightarrow> step_env \<Rightarrow> run_state \<Rightarrow> 's world \<Rightarrow> inbox_message list" where
  "step_batch en v rs w =
     (case check_ceiling en rs (w_journal w) of
        (Inr None, rs1) \<Rightarrow>
          (case inbox_boundary en v rs1 (perform (en_externals en) (sv_arrivals v) w) of
             (Inr (delivery, _), _) \<Rightarrow> delivery
           | (Inl _, _) \<Rightarrow> [])
      | _ \<Rightarrow> [])"

definition stamped :: "inbox option \<Rightarrow> inbox_message list \<Rightarrow> inbox_snapshot option" where
  "stamped attached batch =
     (case attached of
        None \<Rightarrow> None
      | Some ib \<Rightarrow>
          if ib_next_seq ib = 0 then None
          else Some \<lparr> is_steering = ib_steering ib, is_followups = ib_followups ib, is_staged = ib_staged ib,
                 is_next_seq = ib_next_seq ib, is_pending_delivery = batch \<rparr>)"

lemma inbox_stamp_stamped: "inbox_stamp batch w = stamped (w_inbox w) batch"
  by (simp add: inbox_stamp_def stamped_def inbox_snapshot_of_def split: option.split)

lemma snapshot_stamped: "Option.bind (w_inbox w) inbox_snapshot_of = stamped (w_inbox w) []"
  by (simp add: stamped_def inbox_snapshot_of_def split: option.split)

lemma put_checkpoint_inbox: "w_inbox (snd (put_checkpoint en ck cp es p w)) = w_inbox w"
  by (auto simp: put_checkpoint_def emit_def record_draft_journal(3) Let_def split_beta split: sum.split)

text \<open>The checkpoint a stopped run leaves, field by field.\<close>

definition stops_with ::
  "string \<Rightarrow> nat \<Rightarrow> channel_state \<Rightarrow> string list \<Rightarrow> inbox_message list \<Rightarrow> string \<Rightarrow> memory_store world \<Rightarrow> bool" where
  "stops_with thread n st names batch cid w \<longleftrightarrow>
     (\<exists>cp. memory_get_latest (w_store w) thread = Ok (Some cp) \<and> cp_id cp = cid \<and> cp_state cp = st \<and>
        cp_step cp = n \<and> cp_next_nodes cp = names \<and> h_inbox (cp_header cp) = stamped (w_inbox w) batch)"

lemma mint_put_stops:
  assumes "mint_checkpoint en n st names (stamped (w_inbox w1) batch) w1 = (cp, w2)"
    "put_checkpoint en memory_ops cp es p w2 = (Ok (), w3)"
  shows "stops_with (cf_thread_id (en_config en)) n st names batch (cp_id cp) w3"
proof -
  have "w_inbox w3 = w_inbox w1"
    using put_checkpoint_inbox [of en memory_ops cp es p w2] mint_checkpoint_props(9) [OF assms(1)] assms(2) by simp
  then show ?thesis
    using memory.mint_put_latest(1) [OF assms] mint_checkpoint_props [OF assms(1)]
    by (auto simp: stops_with_def memory_ops_def)
qed

lemma suspend_step_stops:
  assumes "suspend_step en n delivery st active iv value w = (Ok tr, w')" "en_checkpointer en = Some memory_ops"
  shows "\<exists>cid. tr = Finish (Interrupted value st cid) \<and>
    stops_with (cf_thread_id (en_config en)) n st (map at_name active) delivery cid w'"
  using assms by (auto simp: suspend_step_def inbox_stamp_stamped Let_def split: prod.splits sum.splits
      intro: mint_put_stops)

lemma execute_interrupted_stops:
  assumes "execute_super_step en v st active n resume parent delivery sa w =
      (Ok (Finish (Interrupted val st2 cid), st'), w')" "en_checkpointer en = Some memory_ops"
  shows "st2 = st \<and> st' = st \<and> stops_with (cf_thread_id (en_config en)) n st (map at_name active) delivery cid w'"
  using assms(1)
proof (cases rule: execute_cases)
  case (suspended si w3 ivs w4 i val2 b w5 s)
  then obtain tr where s: "s = Ok tr" "tr = Finish (Interrupted val st2 cid)" "st' = st"
    by (cases s) auto
  then show ?thesis using suspend_step_stops [OF _ assms(2)] suspended(4) by blast
next
  case (committed si w3 ivs w4 b w5)
  from commit_step_ok [OF committed(4)] route_and_save_ok show ?thesis
    by (metis execution_outcome.distinct(1) step_transition.distinct(1) step_transition.inject(2))
qed simp_all

lemma loop_step_interrupted_stops:
  assumes "loop_step en v rs w = (Stop (Ok (Interrupted val st cid)), w')" "en_checkpointer en = Some memory_ops"
  shows "st = rs_state rs \<and> stops_with (cf_thread_id (en_config en)) (rs_step rs) st
    (map at_name (rs_active rs)) (step_batch en v rs w) cid w'"
  using assms(1)
proof (cases rule: loop_step_cases)
  case (halted rs1 halt r)
  obtain sp seen where rs1: "rs1 = rs \<lparr> rs_spend := sp, rs_seen := seen \<rparr>"
    using check_ceiling_keeps [OF halted(1)] by blast
  have "step_batch en v rs w = []" using halted(1) by (simp add: step_batch_def)
  moreover have "halt_run en rs1 halt w = (Ok (Interrupted val st cid), w')" using halted by simp
  ultimately show ?thesis
    using assms(2) by (auto simp: halt_run_def snapshot_stamped rs1 Let_def split: prod.splits sum.splits
        intro: mint_put_stops)
next
  case (stepped sp seen c t delivery w3 tr st3)
  have "tr = Finish (Interrupted val st cid)" using stepped(5)
    by (auto simp: after_step_def split: prod.splits sum.splits step_transition.splits)
  moreover have "step_batch en v rs w = delivery" using stepped(1,2) by (simp add: step_batch_def)
  ultimately show ?thesis using execute_interrupted_stops [OF _ assms(2)] stepped(4) by blast
qed simp

lemma run_loop_stops:
  "run_loop en vs rs w = (r, w') \<Longrightarrow> run_at en vs rs0 w0 rs w \<Longrightarrow>
     \<exists>rsN wN. run_at en vs rs0 w0 rsN wN \<and> loop_step en (vs (rs_steps_run rsN)) rsN wN = (Stop r, w')"
proof (induction en vs rs w rule: run_loop.induct)
  case (1 en vs rs w)
  obtain res w3 where ls: "loop_step en (vs (rs_steps_run rs)) rs w = (res, w3)" by (metis surj_pair)
  show ?case
  proof (cases res)
    case (Stop r1)
    then show ?thesis using 1(2,3) ls by (auto simp: run_loop.simps [of en vs rs w])
  next
    case (Continue rs')
    then show ?thesis
      using 1(1) [OF ls [symmetric] Continue] 1(2) run_at_step [OF 1(3)] ls
      by (simp add: run_loop.simps [of en vs rs w])
  qed
qed

lemma run_inner_interrupted:
  assumes "run_inner x (Some memory_ops) g spec cf vs st0 w = (Ok (Interrupted v st cid), w')"
  obtains en rs w1 rsN wN where "init_run x (Some memory_ops) g spec cf st0 w = (Started en rs, w1)"
    "run_at en vs rs w1 rsN wN" "rs_state rsN = st"
    "loop_step en (vs (rs_steps_run rsN)) rsN wN = (Stop (Ok (Interrupted v st cid)), w')"
    "stops_with (cf_thread_id cf) (rs_step rsN) st (map at_name (rs_active rsN))
       (step_batch en (vs (rs_steps_run rsN)) rsN wN) cid w'"
proof -
  obtain start w1 where i: "init_run x (Some memory_ops) g spec cf st0 w = (start, w1)" by (metis surj_pair)
  from i show thesis
  proof (cases rule: init_run_cases)
    case (started rc parent carried sa st1 active n resume)
    let ?en = "engine_of x (Some memory_ops) g spec cf rc"
    let ?rs = "initial_run_state st1 active n resume parent carried sa"
    have "run_loop ?en vs ?rs w1 = (Ok (Interrupted v st cid), w')"
      using assms i started by (simp add: run_inner_def engine_of_def)
    from run_loop_stops [OF this run_at_start] obtain rsN wN where r: "run_at ?en vs ?rs w1 rsN wN"
      "loop_step ?en (vs (rs_steps_run rsN)) rsN wN = (Stop (Ok (Interrupted v st cid)), w')" by blast
    show thesis
      using loop_step_interrupted_stops [OF r(2)] r i started by (intro that) (auto simp: engine_of_def)
  qed (use assms i in \<open>auto simp: run_inner_def\<close>)
qed

text \<open>What a resuming run starts with, in terms of the checkpoint it loads.\<close>

lemma resume_starts:
  assumes "memory_get_latest (w_store w) (cf_thread_id cf) = Ok (Some cp)" "cp_next_nodes cp \<noteq> []"
    "cf_checkpoint_id cf = None" "cf_resume cf = Some answer"
  shows "\<exists>en rs w'. init_run x (Some memory_ops) g spec cf st0 w = (Started en rs, w') \<and> w_store w' = w_store w \<and>
    rs_state rs = cp_state cp \<and> rs_active rs = map unscoped (cp_next_nodes cp) \<and> rs_step rs = cp_step cp \<and>
    rs_resume rs = Some answer \<and> rs_steps_run rs = 0 \<and>
    (rs_carried rs, w_inbox w') =
      (case (w_inbox w, h_inbox (cp_header cp)) of
         (Some ib, Some snap) \<Rightarrow> (if inbox_is_fresh ib then is_pending_delivery snap else [], Some (inbox_seed snap ib))
       | _ \<Rightarrow> ([], w_inbox w))"
proof -
  obtain ev w4 where r: "record_draft x (resume_draft cf cp) w = (ev, w4)" by (metis surj_pair)
  have w4: "w_inbox w4 = w_inbox w" "w_store w4 = w_store w"
    using record_draft_journal [of x "resume_draft cf cp" w] r by simp_all
  obtain carried w5 where a: "adopt_inbox cp w4 = (carried, w5)" by (metis surj_pair)
  have c: "(carried, w_inbox w5) = (case (w_inbox w, h_inbox (cp_header cp)) of
       (Some ib, Some snap) \<Rightarrow> (if inbox_is_fresh ib then is_pending_delivery snap else [], Some (inbox_seed snap ib))
     | _ \<Rightarrow> ([], w_inbox w))" "w_store w5 = w_store w"
    using a w4 by (auto simp: adopt_inbox_def split: option.splits)
  define en where "en = \<lparr> en_externals = x, en_checkpointer = Some memory_ops, en_graph = g, en_spec = spec,
    en_config = cf, en_recorder = resume_recorder cf cp (base_recorder x cf g) \<rparr>"
  obtain sa w6 where d: "declare_run en w5 = (sa, w6)" by (metis surj_pair)
  have "w_store w6 = w_store w5" "w_inbox w6 = w_inbox w5"
    using d by (auto simp: declare_run_def run_started_at_def read_clock_def record_draft_def Let_def
        split: prod.splits if_splits)
  moreover have "init_run x (Some memory_ops) g spec cf st0 w =
     (Started en (initial_run_state (cp_state cp) (map unscoped (cp_next_nodes cp)) (cp_step cp) (Some answer)
        (Some ev) carried sa), w6)"
    using assms d by (simp add: init_run_def load_checkpoint_def memory_ops_def r a Let_def en_def)
  ultimately show ?thesis using c by (auto simp: initial_run_state_def)
qed

lemma adopt_stamped:
  "(case (attached, stamped left batch) of
      (Some ib, Some snap) \<Rightarrow> (if inbox_is_fresh ib then is_pending_delivery snap else [], Some (inbox_seed snap ib))
    | _ \<Rightarrow> ([], attached)) =
   (case (attached, left) of
      (Some ib2, Some ib) \<Rightarrow>
        if inbox_is_fresh ib2 \<and> ib_next_seq ib \<noteq> 0
        then (batch, Some (ib2 \<lparr> ib_steering := ib_steering ib, ib_followups := ib_followups ib,
            ib_staged := ib_staged ib, ib_next_seq := ib_next_seq ib \<rparr>))
        else ([], Some ib2)
    | (attached, _) \<Rightarrow> ([], attached))"
  by (cases attached; cases left) (simp_all add: stamped_def inbox_seed_def)


text \<open>
  The run is asked something while a message for it arrives; a run with a new inbox carries on
  with the answer and the message.
\<close>

definition late_message :: inbox_message where
  "late_message = \<lparr> im_seq = 0, im_kind = Steering, im_sender = ''user'', im_content = JNull \<rparr>"

definition late_envs :: "nat \<Rightarrow> step_env" where
  "late_envs n = (if n = 1 then demo_env \<lparr> sv_arrivals := [Sends ''user'' NextStep True JNull] \<rparr> else demo_env)"

definition listening :: "memory_store world" where
  "listening = (demo_world (\<lambda>_. [])) \<lparr> w_inbox := Some inbox_new \<rparr>"

definition late_run :: "(rusty_error + execution_outcome) \<times> memory_store world" where
  "late_run = run_inner demo_externals (Some memory_ops) ask_graph ask_spec ask_config late_envs [] listening"

definition late_resume :: "memory_store run_start \<times> memory_store world" where
  "late_resume = init_run demo_externals (Some memory_ops) ask_graph ask_spec
     (with_resume (JString ''yes'') ask_config) [] ((snd late_run) \<lparr> w_inbox := Some inbox_new \<rparr>)"


text \<open>
  C5: an interrupted super-step leaves no trace in the state.  Its outcome carries the
  start-of-step state although other tasks of the step may have finished, and the checkpoint it
  leaves re-schedules the whole active set at the same step.  With an inbox that has accepted a
  send the checkpoint stamps the inbox as the step left it, with the batch the step was given as
  its pending delivery; otherwise it stamps nothing.
\<close>

theorem interrupted_step_discarded:
  assumes "execute_super_step en v st active n resume parent delivery sa w = (Ok (Finish (Interrupted val st2 cid), st'), w')"
    "en_checkpointer en = Some memory_ops"
  shows "st2 = st \<and> st' = st \<and> (\<exists>cp. memory_get_latest (w_store w') (cf_thread_id (en_config en)) = Ok (Some cp) \<and>
     cp_id cp = cid \<and> cp_state cp = st \<and> cp_step cp = n \<and> cp_next_nodes cp = map at_name active \<and>
     h_inbox (cp_header cp) =
       (case w_inbox w' of
          None \<Rightarrow> None
        | Some ib \<Rightarrow>
            if ib_next_seq ib = 0 then None
            else Some \<lparr> is_steering = ib_steering ib, is_followups = ib_followups ib, is_staged = ib_staged ib,
                   is_next_seq = ib_next_seq ib, is_pending_delivery = delivery \<rparr>))"
  using execute_interrupted_stops [OF assms] by (auto simp: stops_with_def stamped_def)

definition ask_engine :: "memory_store engine" where
  "ask_engine = engine_of demo_externals (Some memory_ops) ask_graph ask_spec ask_config
     (base_recorder demo_externals ask_config ask_graph)"

definition ask_inbox :: inbox where
  "ask_inbox = inbox_new \<lparr> ib_next_seq := 2, ib_followups := [late_message \<lparr> im_seq := 1, im_kind := FollowUp \<rparr>] \<rparr>"

definition ask_step :: "(rusty_error + step_transition \<times> channel_state) \<times> memory_store world" where
  "ask_step = execute_super_step ask_engine demo_env [] [unscoped ''a'', unscoped ''b''] 4 None None [late_message] None
     (listening \<lparr> w_inbox := Some ask_inbox \<rparr>)"

theorem interrupted_step_discarded_witness:
  "\<exists>cp snap. memory_get_latest (w_store (snd ask_step)) ''t'' = Ok (Some cp) \<and> cp_id cp = ''c1'' \<and> cp_state cp = [] \<and>
     cp_step cp = 4 \<and> cp_next_nodes cp = [''a'', ''b''] \<and> h_inbox (cp_header cp) = Some snap \<and>
     is_pending_delivery snap = [late_message] \<and> is_followups snap = ib_followups ask_inbox"
proof -
  let ?r = "Ok (Finish (Interrupted (JString ''sure'') [] ''c1''), [])"
  have "fst ask_step = ?r" by code_simp
  then have eq: "ask_step = (?r, snd ask_step)" by (metis prod.collapse)
  have inb: "w_inbox (snd ask_step) = Some ask_inbox" by code_simp
  have "en_checkpointer ask_engine = Some memory_ops" "cf_thread_id (en_config ask_engine) = ''t''"
    by (simp_all add: ask_engine_def ask_config_def with_max_steps_def config_new_def)
  then show ?thesis
    using interrupted_step_discarded [OF eq [unfolded ask_step_def]] inb
    by (auto simp: ask_step_def unscoped_def ask_inbox_def)
qed

end
