(* ===== verification/Shared_State.thy ===== *)
theory Shared_State
  imports Channel_State
begin

text \<open>
  The copy-on-write representation of the state (state.rs).  A \<open>State\<close> is a handle on a
  reference-counted channel map whose values are reference-counted too; a clone bumps a count,
  and a write mutates in place what it owns alone and copies what it shares.  The store keeps
  both kinds of cells with their strong counts.  The theory shows that the counts are exact and
  that the merge through shared cells computes the pure merge of \<open>Channel_State\<close> for its own
  handle while every other handle keeps its view.
\<close>

section \<open>The store\<close>

record arc_store =
  vval :: "nat \<Rightarrow> json"
  vcnt :: "nat \<Rightarrow> nat"
  nextv :: nat
  mmap :: "nat \<Rightarrow> (string \<times> nat) list"
  mcnt :: "nat \<Rightarrow> nat"
  nextm :: nat

definition values_of :: "(string \<times> nat) list \<Rightarrow> nat multiset" where
  "values_of l = mset (map snd l)"

definition view :: "arc_store \<Rightarrow> nat \<Rightarrow> channel_state" where
  "view h m = map (\<lambda>(k, a). (k, vval h a)) (mmap h m)"

definition arc_new :: "json \<Rightarrow> arc_store \<Rightarrow> nat \<times> arc_store" where
  "arc_new v h = (nextv h, h \<lparr> vval := (vval h)(nextv h := v), vcnt := (vcnt h)(nextv h := 1),
     nextv := Suc (nextv h) \<rparr>)"

definition arc_drop :: "nat option \<Rightarrow> arc_store \<Rightarrow> arc_store" where
  "arc_drop cur h = (case cur of None \<Rightarrow> h | Some a \<Rightarrow> h \<lparr> vcnt := (vcnt h)(a := vcnt h a - 1) \<rparr>)"

definition arc_set :: "nat \<Rightarrow> json \<Rightarrow> arc_store \<Rightarrow> arc_store" where
  "arc_set a v h = h \<lparr> vval := (vval h)(a := v) \<rparr>"

definition state_clone :: "nat \<Rightarrow> arc_store \<Rightarrow> nat \<times> arc_store" where
  "state_clone m h = (m, h \<lparr> mcnt := (mcnt h)(m := mcnt h m + 1) \<rparr>)"

definition state_drop :: "nat \<Rightarrow> arc_store \<Rightarrow> arc_store" where
  "state_drop m h =
     (let h1 = h \<lparr> mcnt := (mcnt h)(m := mcnt h m - 1) \<rparr>
      in if mcnt h m = 1
         then h1 \<lparr> vcnt := (\<lambda>a. vcnt h1 a - count (values_of (mmap h1 m)) a) \<rparr>
         else h1)"

text \<open>\<open>Arc::make_mut\<close> on the channel map: in place when unique, a shallow copy otherwise.\<close>

definition make_mut :: "nat \<Rightarrow> arc_store \<Rightarrow> nat \<times> arc_store" where
  "make_mut m h =
     (if mcnt h m = 1 then (m, h)
      else (nextm h, h \<lparr> mmap := (mmap h)(nextm h := mmap h m),
              mcnt := (mcnt h)(m := mcnt h m - 1, nextm h := 1),
              vcnt := (\<lambda>a. vcnt h a + count (values_of (mmap h m)) a),
              nextm := Suc (nextm h) \<rparr>))"

definition insert_shared :: "string \<Rightarrow> nat \<Rightarrow> nat \<Rightarrow> arc_store \<Rightarrow> nat \<times> arc_store" where
  "insert_shared channel value m h =
     (let (m1, h1) = make_mut m h
      in (m1, arc_drop (map_of (mmap h1 m1) channel)
                (h1 \<lparr> mmap := (mmap h1)(m1 := bt_insert channel value (mmap h1 m1)) \<rparr>)))"

definition shared_insert :: "string \<Rightarrow> json \<Rightarrow> nat \<Rightarrow> arc_store \<Rightarrow> nat \<times> arc_store" where
  "shared_insert channel value m h = (let (a, h1) = arc_new value h in insert_shared channel a m h1)"

section \<open>The copy-on-write reducers\<close>

definition replace_shared :: "nat option \<Rightarrow> json \<Rightarrow> arc_store \<Rightarrow> nat \<times> arc_store" where
  "replace_shared cur v h = (let (b, h1) = arc_new v h in (b, arc_drop cur h1))"

definition in_place_or_copy :: "nat \<Rightarrow> json \<Rightarrow> arc_store \<Rightarrow> nat \<times> arc_store" where
  "in_place_or_copy a v h = (if vcnt h a = 1 then (a, arc_set a v h) else replace_shared (Some a) v h)"

fun apply_shared :: "reducer \<Rightarrow> nat option \<Rightarrow> json \<Rightarrow> arc_store \<Rightarrow> nat \<times> arc_store" where
  "apply_shared Overwrite current update h = replace_shared current update h"
| "apply_shared Append current update h =
     (let fresh = (case update of JArray items \<Rightarrow> JArray items | single \<Rightarrow> JArray [single]) in
      case current of
        Some a \<Rightarrow>
          (case vval h a of
             JArray existing \<Rightarrow> in_place_or_copy a (JArray (append_in_place existing update)) h
           | _ \<Rightarrow> replace_shared current fresh h)
      | None \<Rightarrow> replace_shared None fresh h)"
| "apply_shared DeepMerge current update h =
     (case current of
        Some a \<Rightarrow>
          if vcnt h a = 1 then (a, arc_set a (deep_merge_in_place (vval h a) update) h)
          else replace_shared current (deep_merge (vval h a) update) h
      | None \<Rightarrow> replace_shared None update h)"
| "apply_shared AddMessages current update h =
     (case current of
        Some a \<Rightarrow>
          (case vval h a of
             JArray messages \<Rightarrow> in_place_or_copy a (JArray (upsert_messages_in_place messages update)) h
           | _ \<Rightarrow> replace_shared current (add_messages None update) h)
      | None \<Rightarrow> replace_shared None (add_messages None update) h)"

definition merge_shared :: "state_spec \<Rightarrow> string \<times> json \<Rightarrow> nat \<times> arc_store \<Rightarrow> nat \<times> arc_store" where
  "merge_shared spec cu mh =
     (let (m1, h1) = make_mut (fst mh) (snd mh);
          current = map_of (mmap h1 m1) (fst cu);
          h2 = h1 \<lparr> mmap := (mmap h1)(m1 := bt_remove (fst cu) (mmap h1 m1)) \<rparr>;
          (merged, h3) = apply_shared (reducer_for spec (fst cu)) current (snd cu) h2
      in insert_shared (fst cu) merged m1 h3)"

definition merge_writes_shared :: "state_spec \<Rightarrow> node_write list \<Rightarrow> nat \<times> arc_store \<Rightarrow> nat \<times> arc_store" where
  "merge_writes_shared spec ws mh = fold (\<lambda>w. fold (merge_shared spec) (snd w)) ws mh"

section \<open>Exact counts\<close>

text \<open>
  \<open>counted h hs ts\<close>: the map counts are the live handles \<open>hs\<close>, the value counts are the
  occurrences in live maps plus the handles \<open>ts\<close> a running operation holds.
\<close>

definition references :: "arc_store \<Rightarrow> nat list \<Rightarrow> nat \<Rightarrow> nat" where
  "references h hs a = (\<Sum>m \<in> set hs. count (values_of (mmap h m)) a)"

definition counted :: "arc_store \<Rightarrow> nat list \<Rightarrow> nat list \<Rightarrow> bool" where
  "counted h hs ts \<longleftrightarrow>
     (\<forall>m. mcnt h m = count_list hs m) \<and>
     (\<forall>a. vcnt h a = count_list ts a + references h hs a) \<and>
     (\<forall>m \<in> set hs. m < nextm h \<and> bt_inv (mmap h m)) \<and>
     (\<forall>a. nextv h \<le> a \<longrightarrow> vcnt h a = 0)"

lemma view_map_of: "map_of (view h m) k = map_option (vval h) (map_of (mmap h m) k)"
  unfolding view_def by (simp add: map_of_map comp_def)

lemma bt_inv_view [simp]: "bt_inv (view h m) \<longleftrightarrow> bt_inv (mmap h m)"
  unfolding view_def by simp

lemma map_bt_insert:
  "map (\<lambda>(k, a). (k, f a)) (bt_insert k a l) = bt_insert k (f a) (map (\<lambda>(k, a). (k, f a)) l)"
  by (induction k a l rule: bt_insert.induct) auto

lemma map_bt_remove:
  "map (\<lambda>(k, a). (k, f a)) (bt_remove k l) = bt_remove k (map (\<lambda>(k, a). (k, f a)) l)"
  by (induction k l rule: bt_remove.induct) auto

lemma values_bt_remove:
  "bt_inv l \<Longrightarrow> values_of l = values_of (bt_remove k l) + (case map_of l k of None \<Rightarrow> {#} | Some a \<Rightarrow> {#a#})"
  by (induction l) (auto simp: values_of_def bt_inv_Cons split: option.splits)

lemma values_bt_insert: "map_of l k = None \<Longrightarrow> values_of (bt_insert k a l) = values_of l + {#a#}"
  by (induction l) (auto simp: values_of_def split: if_splits)

lemma bt_remove_absent: "bt_inv l \<Longrightarrow> map_of (bt_remove k l) k = None"
  by (simp add: map_of_bt_remove)

text \<open>A map without the address reads the same whatever the cell holds.\<close>

lemma view_set_other: "a \<notin># values_of (mmap h m) \<Longrightarrow> view (arc_set a v h) m = view h m"
  unfolding view_def arc_set_def values_of_def by force

lemma references_zero: "references h hs a = 0 \<Longrightarrow> m \<in> set hs \<Longrightarrow> a \<notin># values_of (mmap h m)"
  by (auto simp: references_def count_eq_zero_iff)

lemma counted_beyond: "counted h hs ts \<Longrightarrow> nextv h \<le> a \<Longrightarrow> references h hs a = 0"
  unfolding counted_def by (metis add_is_0)

lemma counted_fresh: "counted h hs ts \<Longrightarrow> m \<in> set hs \<Longrightarrow> nextv h \<notin># values_of (mmap h m)"
  using counted_beyond references_zero by blast

lemma references_Cons:
  "m \<notin> set hs \<Longrightarrow> references h (m # hs) a = count (values_of (mmap h m)) a + references h hs a"
  by (simp add: references_def)

lemma references_cong: "(\<And>m. m \<in> set hs \<Longrightarrow> mmap h' m = mmap h m) \<Longrightarrow> references h' hs a = references h hs a"
  by (simp add: references_def)

text \<open>What an operation leaves alone: the other handles' maps.\<close>

definition same_maps :: "nat list \<Rightarrow> arc_store \<Rightarrow> arc_store \<Rightarrow> bool" where
  "same_maps hs h h' \<longleftrightarrow> (\<forall>x \<in> set hs. mmap h' x = mmap h x)"

lemma make_mut_counted:
  assumes "counted h (m # hs) ts" "make_mut m h = (m1, h1)"
  shows "counted h1 (m1 # hs) ts \<and> m1 \<notin> set hs \<and> mmap h1 m1 = mmap h m \<and> vval h1 = vval h \<and> same_maps hs h h1"
proof (cases "mcnt h m = 1")
  case True
  then have "m \<notin> set hs" using assms(1) by (simp add: counted_def count_list_0_iff)
  then show ?thesis using assms True by (simp add: make_mut_def same_maps_def)
next
  case False
  then have "count_list hs m \<noteq> 0" using assms(1) by (auto simp: counted_def)
  then have m: "m \<in> set hs" by (simp add: count_list_0_iff)
  have fresh: "nextm h \<notin> set hs" "nextm h \<noteq> m" using assms(1) by (auto simp: counted_def)
  have eq: "m1 = nextm h" "h1 = h \<lparr> mmap := (mmap h)(nextm h := mmap h m),
      mcnt := (mcnt h)(m := mcnt h m - 1, nextm h := 1),
      vcnt := (\<lambda>a. vcnt h a + count (values_of (mmap h m)) a), nextm := Suc (nextm h) \<rparr>"
    using assms(2) False by (auto simp: make_mut_def)
  have maps: "mmap h1 x = mmap h x" if "x \<in> set hs" for x using that fresh by (auto simp: eq)
  have "references h (m # hs) a = references h hs a" for a using m by (simp add: references_def insert_absorb)
  moreover have "references h1 (m1 # hs) a = count (values_of (mmap h m)) a + references h hs a" for a
    using references_Cons [of m1 hs h1 a] references_cong [OF maps] fresh by (simp add: eq)
  moreover have "vcnt h a + count (values_of (mmap h m)) a = 0" if "nextv h \<le> a" for a
  proof -
    have "vcnt h a = 0" using assms(1) that unfolding counted_def by blast
    moreover have "a \<notin># values_of (mmap h m)"
      using references_zero [OF counted_beyond [OF assms(1) that], of m] by simp
    ultimately show ?thesis by (simp add: count_eq_zero_iff)
  qed
  ultimately have "counted h1 (m1 # hs) ts"
    using assms(1) fresh maps by (auto simp: counted_def eq less_Suc_eq)
  then show ?thesis using fresh maps by (auto simp: eq same_maps_def)
qed

definition opt_list :: "nat option \<Rightarrow> nat list" where
  "opt_list c = (case c of None \<Rightarrow> [] | Some a \<Rightarrow> [a])"

lemma detach_counted:
  assumes "counted h (m # hs) []" "m \<notin> set hs"
    "h' = h \<lparr> mmap := (mmap h)(m := bt_remove k (mmap h m)) \<rparr>"
  shows "counted h' (m # hs) (opt_list (map_of (mmap h m) k))"
proof -
  have inv: "bt_inv (mmap h m)" using assms(1) by (simp add: counted_def)
  have "references h' hs a = references h hs a" for a using assms(2,3) by (intro references_cong) auto
  moreover have "count (values_of (mmap h m)) a =
      count (values_of (bt_remove k (mmap h m))) a + count_list (opt_list (map_of (mmap h m) k)) a" for a
    using arg_cong [OF values_bt_remove [OF inv, of k], of "\<lambda>M. count M a"]
    by (simp add: opt_list_def split: option.splits)
  ultimately show ?thesis
    using assms by (auto simp: counted_def references_Cons)
qed

lemma replace_counted:
  assumes "counted h hs (opt_list cur)" "replace_shared cur v h = (b, h')"
  shows "counted h' hs [b] \<and> vval h' b = v \<and> mmap h' = mmap h \<and> (\<forall>m \<in> set hs. view h' m = view h m)"
proof -
  have b: "b = nextv h" "h' = arc_drop cur (snd (arc_new v h))"
    using assms(2) by (auto simp: replace_shared_def arc_new_def)
  have maps: "mmap h' = mmap h" "vval h' = (vval h)(nextv h := v)"
    by (simp_all add: b arc_drop_def arc_new_def split: option.splits)
  then have "references h' hs a = references h hs a" for a by (simp add: references_def)
  moreover have "vcnt h (nextv h) = 0" using assms(1) unfolding counted_def by blast
  ultimately have "counted h' hs [b]"
    using assms(1) by (auto simp: counted_def b arc_drop_def arc_new_def opt_list_def split: option.splits)
  moreover have "view h' m = view h m" if "m \<in> set hs" for m
    using counted_fresh [OF assms(1) that] maps by (force simp: view_def values_of_def)
  ultimately show ?thesis using maps b(1) by simp
qed

lemma in_place_counted:
  assumes "counted h hs [a]" "vcnt h a = 1"
  shows "counted (arc_set a v h) hs [a] \<and> vval (arc_set a v h) a = v \<and> mmap (arc_set a v h) = mmap h \<and>
    (\<forall>m \<in> set hs. view (arc_set a v h) m = view h m)"
proof -
  have "references h hs a = 0" using assms by (simp add: counted_def)
  then have "view (arc_set a v h) m = view h m" if "m \<in> set hs" for m
    using view_set_other references_zero that by blast
  moreover have "references (arc_set a v h) hs x = references h hs x" for x
    by (simp add: references_def arc_set_def)
  ultimately show ?thesis using assms by (auto simp: counted_def arc_set_def)
qed

lemma apply_shared_shape:
  "let v = reducer_apply red (map_option (vval h) cur) upd in
   (\<exists>a. cur = Some a \<and> vcnt h a = 1 \<and> apply_shared red cur upd h = (a, arc_set a v h)) \<or>
   apply_shared red cur upd h = replace_shared cur v h"
  by (cases red; cases cur)
     (auto simp: in_place_or_copy_def deep_merge_def add_messages_def Let_def split: json.splits)

lemma apply_shared_counted:
  assumes "counted h hs (opt_list cur)" "apply_shared red cur upd h = (b, h')"
  shows "counted h' hs [b] \<and> vval h' b = reducer_apply red (map_option (vval h) cur) upd \<and> mmap h' = mmap h \<and>
    (\<forall>m \<in> set hs. view h' m = view h m)"
proof -
  let ?v = "reducer_apply red (map_option (vval h) cur) upd"
  consider (place) a where "cur = Some a" "vcnt h a = 1" "b = a" "h' = arc_set a ?v h"
    | (copy) "replace_shared cur ?v h = (b, h')"
    using apply_shared_shape [of red h cur upd] assms(2) by (auto simp: Let_def)
  then show ?thesis
  proof cases
    case place
    then show ?thesis using in_place_counted [of h hs a] assms(1) by (simp add: opt_list_def)
  next
    case copy
    then show ?thesis by (rule replace_counted [OF assms(1)])
  qed
qed

lemma insert_counted:
  assumes "counted h (m # hs) [b]" "m \<notin> set hs" "map_of (mmap h m) k = None"
    "insert_shared k b m h = (m', h')"
  shows "m' = m \<and> counted h' (m # hs) [] \<and> view h' m = bt_insert k (vval h b) (view h m) \<and>
    (\<forall>x \<in> set hs. view h' x = view h x)"
proof -
  have "mcnt h m = 1" using assms(1,2) by (simp add: counted_def count_list_0_iff)
  then have eq: "m' = m" "h' = h \<lparr> mmap := (mmap h)(m := bt_insert k b (mmap h m)) \<rparr>"
    using assms(3,4) by (auto simp: insert_shared_def make_mut_def arc_drop_def)
  have "references h' hs a = references h hs a" for a using assms(2) by (intro references_cong) (auto simp: eq)
  then have "counted h' (m # hs) []"
    using assms(1,2) values_bt_insert [OF assms(3), of b]
    by (auto simp: counted_def references_Cons eq)
  moreover have "view h' m = bt_insert k (vval h b) (view h m)" by (simp add: view_def eq map_bt_insert)
  moreover have "view h' x = view h x" if "x \<in> set hs" for x using assms(2) that by (auto simp: view_def eq)
  ultimately show ?thesis using eq(1) by simp
qed

lemma merge_shared_refines:
  assumes "counted h (m # hs) []" "merge_shared spec cu (m, h) = (m', h')"
  shows "counted h' (m' # hs) [] \<and> view h' m' = merge_update spec cu (view h m) \<and>
    (\<forall>x \<in> set hs. view h' x = view h x)"
proof -
  obtain m1 h1 where mm: "make_mut m h = (m1, h1)" by (metis surj_pair)
  let ?k = "fst cu" and ?cur = "map_of (mmap h1 m1) (fst cu)"
  define h2 where "h2 = h1 \<lparr> mmap := (mmap h1)(m1 := bt_remove ?k (mmap h1 m1)) \<rparr>"
  obtain b h3 where ap: "apply_shared (reducer_for spec ?k) ?cur (snd cu) h2 = (b, h3)" by (metis surj_pair)
  have fin: "insert_shared ?k b m1 h3 = (m', h')"
    using assms(2) by (simp add: merge_shared_def mm ap h2_def [symmetric])
  note c1 = make_mut_counted [OF assms(1) mm]
  note c2 = detach_counted [of h1 m1 hs h2 ?k]
  have c3: "counted h3 (m1 # hs) [b]" "vval h3 b = reducer_apply (reducer_for spec ?k) (map_option (vval h2) ?cur) (snd cu)"
    "mmap h3 = mmap h2" "\<forall>x \<in> set (m1 # hs). view h3 x = view h2 x"
    using apply_shared_counted [OF _ ap, of "m1 # hs"] c1 c2 by (simp_all add: h2_def)
  have inv: "bt_inv (mmap h1 m1)" using c1 unfolding counted_def by auto
  have absent: "map_of (mmap h3 m1) ?k = None" using c3(3) bt_remove_absent [OF inv] by (simp add: h2_def)
  note c4 = insert_counted [OF c3(1) _ absent fin]
  have v1: "view h1 m1 = view h m" "view h2 m1 = bt_remove ?k (view h m)"
    using c1 by (simp_all add: view_def h2_def map_bt_remove)
  have "map_option (vval h2) ?cur = map_of (view h m) ?k"
    using v1(1) view_map_of [of h1 m1 ?k] by (simp add: h2_def)
  then have "view h' m' = merge_update spec cu (view h m)"
    using c1 c3 c4 v1 by (simp add: merge_update_def Let_def)
  moreover have "view h' x = view h x" if "x \<in> set hs" for x
  proof -
    have "x \<noteq> m1" using c1 that by auto
    then have "view h2 x = view h x" using c1 that by (simp add: view_def h2_def same_maps_def)
    then show ?thesis using c1 c3(4) c4 that by simp
  qed
  ultimately show ?thesis using c1 c4 by simp
qed

lemma merge_updates_refine:
  "counted (snd mh) (fst mh # hs) [] \<Longrightarrow> fold (merge_shared spec) us mh = mh' \<Longrightarrow>
     counted (snd mh') (fst mh' # hs) [] \<and>
     view (snd mh') (fst mh') = fold (merge_update spec) us (view (snd mh) (fst mh)) \<and>
     (\<forall>x \<in> set hs. view (snd mh') x = view (snd mh) x)"
proof (induction us arbitrary: mh)
  case (Cons cu us)
  obtain m1 h1 where step: "merge_shared spec cu mh = (m1, h1)" by (metis surj_pair)
  have "merge_shared spec cu (fst mh, snd mh) = (m1, h1)" using step by simp
  note r = merge_shared_refines [OF Cons.prems(1) this]
  have "fold (merge_shared spec) us (m1, h1) = mh'" using Cons.prems(2) step by simp
  from Cons.IH [OF _ this] r show ?case by simp
qed simp

text \<open>A clone shares everything; a drop releases it; neither changes any view.\<close>

lemma clone_counted:
  "counted h (m # hs) ts \<Longrightarrow> state_clone m h = (m', h') \<Longrightarrow> m' = m \<and> counted h' (m # m # hs) ts \<and> view h' = view h"
  by (auto simp: state_clone_def counted_def references_def view_def fun_eq_iff)

lemma drop_counted:
  assumes "counted h (m # hs) ts"
  shows "counted (state_drop m h) hs ts \<and> view (state_drop m h) = view h"
proof -
  have m: "mcnt h m = Suc (count_list hs m)" using assms by (simp add: counted_def)
  have v: "view (state_drop m h) = view h" by (auto simp: state_drop_def Let_def view_def fun_eq_iff)
  have maps: "references (state_drop m h) hs a = references h hs a" for a
    by (auto simp: references_def state_drop_def Let_def)
  show ?thesis
  proof (cases "m \<in> set hs")
    case True
    then have "references h (m # hs) a = references h hs a" for a by (simp add: references_def insert_absorb)
    moreover have "mcnt h m \<noteq> 1" using m True by (simp add: count_list_0_iff)
    ultimately show ?thesis using assms v maps by (auto simp: counted_def state_drop_def Let_def)
  next
    case False
    then have "references h (m # hs) a = count (values_of (mmap h m)) a + references h hs a" for a
      by (rule references_Cons)
    then show ?thesis using assms False v maps m
      by (auto simp: counted_def state_drop_def Let_def count_list_0_iff)
  qed
qed

section \<open>Properties of the shared state\<close>

text \<open>
  C37: copy-on-write is invisible.  Merging the writes of a super-step through the shared cells
  gives the handle exactly the state the pure merge computes, keeps every count exact, and
  leaves what every other live handle (a snapshot, a node's private copy, a checkpoint) reads
  unchanged, even where the merge mutated cells in place.
\<close>

theorem copy_on_write_refines_merge:
  assumes "counted h (m # hs) []" "merge_writes_shared spec ws (m, h) = (m', h')"
  shows "counted h' (m' # hs) [] \<and> view h' m' = merge_writes spec ws (view h m) \<and>
    (\<forall>x \<in> set hs. view h' x = view h x)"
proof -
  have "counted (snd mh) (fst mh # hs) [] \<Longrightarrow> merge_writes_shared spec ws mh = mh' \<Longrightarrow>
      counted (snd mh') (fst mh' # hs) [] \<and> view (snd mh') (fst mh') = merge_writes spec ws (view (snd mh) (fst mh)) \<and>
      (\<forall>x \<in> set hs. view (snd mh') x = view (snd mh) x)" for mh mh'
    unfolding merge_writes_def merge_writes_shared_def
  proof (induction ws arbitrary: mh)
    case (Cons w ws)
    let ?mh1 = "fold (merge_shared spec) (snd w) mh"
    from merge_updates_refine [OF Cons.prems(1) refl] Cons.IH [of ?mh1] Cons.prems(2)
    show ?case by simp
  qed simp
  from this [of "(m, h)" "(m', h')"] assms show ?thesis by simp
qed

definition demo_store :: arc_store where
  "demo_store = \<lparr> vval = (\<lambda>_. JArray []), vcnt = (\<lambda>a. if a = 0 then 1 else 0), nextv = 1,
     mmap = (\<lambda>_. [(''log'', 0)]), mcnt = (\<lambda>m. if m = 0 then 2 else 0), nextm = 1 \<rparr>"

theorem copy_on_write_refines_merge_witness:
  "let (m, h) = merge_writes_shared (spec_channel spec_new ''log'' Append)
         [(''n'', [(''log'', JString ''x'')])] (0, demo_store)
   in view h m = [(''log'', JArray [JString ''x''])] \<and> view h 0 = [(''log'', JArray [])]"
proof -
  obtain m h where mh: "merge_writes_shared (spec_channel spec_new ''log'' Append)
      [(''n'', [(''log'', JString ''x'')])] (0, demo_store) = (m, h)" by (metis surj_pair)
  have "counted demo_store [0, 0] []"
    by (auto simp: counted_def demo_store_def references_def values_of_def bt_inv_Cons)
  from copy_on_write_refines_merge [OF this mh]
  have "view h m = [(''log'', JArray [JString ''x''])]" "view h 0 = [(''log'', JArray [])]"
    by (simp_all add: merge_writes_def merge_update_def view_def demo_store_def spec_channel_def reducer_for_def
        append_in_place_def Let_def)
  then show ?thesis by (simp add: mh)
qed

end
