(* ===== verification/Spec2Isabelle.thy ===== *)
theory Spec2Isabelle
  imports Access_Scopes Artifact_Store Connector_Transport Dispatch_Safety Effect_Kernel File_Checkpoints
    Finish_Order Install_Safety Middleware_Chain Replay_Fidelity Replay_Order Retry_Policy Run_Evidence
    Shared_State Spend_Meter
begin

text \<open>
  Rusty, a durable agent runtime: verification of its execution kernel and of the
  gates around it.

  \<^bold>\<open>The program.\<close>  An application builds a graph of nodes and runs it with an executor.  A run
  proceeds in super-steps: every active node computes on the state at the start of the step, a
  barrier collects their outputs, the writes are merged by the reducers of the state's channels,
  and edges, routers or commands decide which nodes run next.  A run is recorded in a journal
  with a chained hash, leaves a checkpoint at every step boundary, can be interrupted and
  resumed, takes messages from a durable inbox, is bounded by a step limit and a budget, and asks
  an admission kernel before it performs an effect on the outside world.  A node body calls models
  and tools through a chain of middleware layers; a tool call is resolved in a registry, checked by
  guards, placed in the process or in a sandbox and admitted before its body runs.  Wrappers around
  models and tools record the calls, and a replay engine drives a run again from its journal without
  calling either.  Around the
  kernel stand gates: the server admits an HTTP request by the scope its route declares, connectors reach the
  network through an egress policy, and packages enter a deployment through an installer that
  asks an allowlist.

  \<^bold>\<open>Theories and sources\<close> (all under src/rusty-core/src unless said otherwise).

  \<^item> \<open>Rusty_Base\<close>: results, ordered maps (\<open>BTreeMap\<close>), stable sorting and printing of numbers;
    the interface \<open>ordered_map\<close> and its interpretation on association lists.
  \<^item> \<open>Json\<close>: JSON values, the deep merge, the message upsert (state.rs) and canonical forms
    (record.rs).
  \<^item> \<open>F64\<close>: double-precision numbers as the rationals they denote, with rounding.
  \<^item> \<open>Rusty_Error\<close>: \<open>RustyError\<close> (error.rs) and the error classes of durable.rs.
  \<^item> \<open>Channel_State\<close>: state, reducers and \<open>apply_super_step\<close> (state.rs) on values;
    \<open>Shared_State\<close>: the same merge on reference-counted values, copied on write.
  \<^item> \<open>Agent_Graph\<close>: nodes and commands (node.rs), graphs, the builder and its compiler, and the
    topology hash (graph.rs).
  \<^item> \<open>Run_Journal\<close>: events, payloads, the chained hash, snapshots and clocks (journal.rs,
    record.rs); \<open>Artifact_Store\<close>: snapshots whose payloads are kept in a content-addressed store
    (artifact.rs, journal.rs), with the store's contract as the interface \<open>artifact_store\<close>.
  \<^item> \<open>Run_Inbox\<close>: the inbox (inbox.rs).
  \<^item> \<open>Checkpoints\<close> and \<open>File_Checkpoints\<close>: checkpoints, delta encoding, the in-memory and the file
    store (checkpoint.rs), with the interface \<open>checkpointer\<close> against histories of puts.
  \<^item> \<open>Retry_Policy\<close>: retry and timeout decisions under a policy (durable.rs, record.rs).
  \<^item> \<open>Spend_Meter\<close>: metering of a journal and the spend guard (meter.rs).
  \<^item> \<open>Effect_Kernel\<close>: effect ids, approvals, admission, the shadow boundary and receipts
    (effects.rs, journal.rs, record.rs).
  \<^item> \<open>Run_Config\<close>, \<open>Super_Step\<close>, \<open>Run_Loop\<close>: the executor (executor.rs): configuration and
    recorder, \<open>execute_super_step\<close>, and \<open>run_inner\<close>.
  \<^item> \<open>Run_Refinement\<close>, \<open>Finish_Order\<close>, \<open>Run_Evidence\<close>: what the executor guarantees, using the
    theories above.
  \<^item> \<open>Middleware_Chain\<close>: messages and tool calls (llm.rs), the chain around node, model and tool
    calls, the retrying model call, the four compiled-in layers and the instantiation of a
    composition (middleware.rs, learn.rs).
  \<^item> \<open>Tool_Dispatch\<close>: tool declarations, the registry, guards, placement, dispatch and batches
    (tool.rs, sandbox.rs, replay.rs, effects.rs); \<open>Dispatch_Safety\<close>: what stands before a tool body.
  \<^item> \<open>Exact_Replay\<close>: the recording and replaying wrappers, the replay source, the checks of a
    session, the branch diff and the recorded world of a shadow (replay.rs), with the approval gate
    (tool/approval.rs); \<open>Replay_Fidelity\<close> and \<open>Replay_Order\<close>: what replay guarantees.
  \<^item> \<open>Rust_Text\<close>: the string functions of Rust's standard library that the gates use.
  \<^item> \<open>Access_Scopes\<close>: scopes and the route table (scope.rs) and the scope middleware of the server
    (src/rusty-server/src/auth.rs).
  \<^item> \<open>Egress_Policy\<close>: the outbound policy, path canonicalization and the address preflight
    (egress.rs); \<open>Connector_Transport\<close>: the connector transport that obeys it
    (src/rusty-server/src/connectors.rs).
  \<^item> \<open>Package_Versions\<close>, \<open>Package_Catalog\<close>: versions and ranges with the interface \<open>precedence\<close>,
    manifests, hashes and signatures (package.rs, doctor.rs); \<open>Catalog_Policy\<close>: dependency
    resolution, the registry index and the allowlist (package.rs, registry_index.rs,
    allowlist.rs); \<open>Package_Install\<close> and \<open>Install_Safety\<close>: the installer (install.rs) and what it
    guarantees.

  \<^bold>\<open>How the model corresponds to the code.\<close>  Structs are records and enums are datatypes, with
  the code's names.  A method that mutates takes the object and returns it updated; the things a
  run shares with the rest of the process (journal with its clock, checkpoint store, inbox, ids,
  event sink) form one record, \<open>world\<close>.  A \<open>HashMap\<close> is an association list with distinct keys in
  an arbitrary order, a \<open>BTreeMap\<close> one with increasing keys.  Every early return and every error
  is a branch of a result; messages are kept as the values they interpolate.  Hashes, the
  serializer, ids, wall-clock readings and the printed forms of times, doubles and errors come
  from crates outside the sources and are functions of the records \<open>codec\<close> and \<open>run_externals\<close>;
  what a theorem needs of them is a hypothesis of that theorem (\<open>codec_total\<close>,
  \<open>codec_injective\<close>, \<open>fixed_length_hash\<close>, \<open>collision_free\<close>).  Node bodies and routers are functions
  of what the executor hands them.  Scheduling is explicit: a \<open>step_env\<close> says in which order the
  tasks of a step finish, which of them panic, and what other tasks do to the shared world between
  the executor's own actions; the theorems hold for every such environment.  Middleware layers,
  guards, live tool sources and tool bodies are functions of what they are handed and, for the
  stateful ones, of the log of tool bodies run before; a provider answers by the number of the
  attempt.  The calls of a batch are dispatched one after the other in an arbitrary order, so two
  dispatches of one batch do not interleave in the model; a panic is a value that the batch
  contains.  A run under record or replay is any client of the wrappers, a tree that asks and
  continues with the answer; the live world answers by the number of the request, the replayed run
  is given no world at all.  The installer is a sequence of calls to five backend traits, each answered by an arbitrary function
  of the calls made before; URL parsing, name resolution and the HTTP client of the transport are
  functions of the record \<open>transport_env\<close>, hashing and signature checking of \<open>catalog_crypto\<close>.

  \<^bold>\<open>What the theorems show.\<close>
  The merge: which writes a super-step admits and what every channel then holds, independence of
  the arrival order, well-formedness, and that the copy-on-write merge computes the same while no
  other handle sees a change.  The graph: the compiler accepts exactly the well-formed graphs; the
  topology hash is independent of registration order and separates graphs with plain names.  The
  journal: recording appends and chains, snapshots load back, and equal head hashes mean equal
  histories or a hash collision.  The inbox: every accepted message is delivered at most once
  and in order, and is otherwise still held, dropped by a clear, or was unsettled when the snapshot
  of a resume was taken; a replaying inbox settles as the recorded one did and holds later points
  back.  Checkpoints: the delta of a
  checkpoint that drops no channel folds back, the file store answers like the in-memory store, chains are bounded, forks copy a
  prefix.  Policies: a policy can only narrow the retries the floor allows, and recorded decisions
  are among the recorded legal ones.  The meter: totals add up, and the incremental guard agrees
  with the offline meter.  Effects: the decision and the permit for every class, approvals are spent once, a
  shadow run executes nothing, and a receipt is found again after a crash.
  The executor: a run computes at most \<open>max_steps\<close> abstract super-steps; the finish order of
  tasks influences only the order of the next active set, in the result, in the payload of the
  routing decision and in the checkpoint (for stores that do not judge by it, the interface
  \<open>order_blind_store\<close>); an interrupted step leaves no trace in
  the state and stamps the inbox batch it was given; a run that resumes a suspended one starts in
  the loop state the suspended one stopped in; and a run only ever extends its journal and its checkpoints, each of which is pinned to a
  prefix of the journal.
  Middleware and tools: the flat loops of a chain compute what nested layers compute; a model call
  through a composition without the overflow layer comes back however often the provider fails; a
  batch answers every call in order, runs only bodies that were resolved, unguarded, placed and
  admitted, and spends no approval twice; an allowlisted registry offers exactly the listed tools, all of which exist.
  Replay: a client that reads no error text and meets no gate or panic writes the same journal when
  it is driven from it; a source serves the recorded effects in order and only for their own
  requests; the final check accepts exactly the recorded evidence; a diff cuts two journals at their
  first difference.
  The gates: a request for a declared route reaches its handler exactly through a public
  declaration or a scope the caller holds, and scopes parse and print as inverses; egress is denied unless a rule admits it, every
  call on the wire was admitted and goes to a checked address, and following redirects ends; the
  comparison of versions is a total precedence and versions print and parse as inverses; the
  allowlist's verdict in every mode; a package is activated only after every gate passed, and a
  retried install replays its recorded outcome.

  \<^bold>\<open>Bounds and recursion.\<close>  The run loop is a total function: every iteration that continues adds
  one to the number of steps run, which stays below \<open>max_steps\<close>.  Settling the inbox terminates
  because each round consumes a pending message or a scheduled point.  Walking a chain of delta
  checkpoints takes fuel one more than the number of stored checkpoints, which is enough because a
  chain that visits one twice is reported as a cycle.  The redirect loop is a total function: every
  round that continues adds one to the redirect count, which \<open>max_redirects\<close> bounds.  The retry loop
  of a model call is a partial function, undefined exactly where the code does not return: one layer
  can ask for retries without end, and that the loop returns without it is proved as such.  Counters of the meter wrap at 64 bits and
  backoff delays saturate as in the code; step counters and sequence numbers are natural numbers,
  which the step limit and the queue bounds keep far below the machine's limit.

  \<^bold>\<open>Not modelled.\<close>  A put into the file store is one step: a crash between its two file writes is
  left out.  A run has one clock, that of its journal.  The executor runs with the empty middleware chain around its nodes, and the
  admission and memory handles a node context carries for node bodies are left out.  Tracing and
  telemetry, database and object-store backends, providers, protocol clients, sandbox backends and
  built-in tools are I/O.  The prebuilt agents, context assembly and memory, skills and learning,
  capsules and deployment, the HTTP handlers of the server, the worker and the evaluation library
  are built on top of the kernel modelled here and are not modelled yet; of
  replay.rs, driving the executor from a recorded declaration and the fixture files are left out; the
  task envelopes of durable.rs are the next candidate.
\<close>

end
